(* ===== verification/Prelude.thy ===== *)
theory Prelude
  imports Complex_Main "HOL-Library.List_Lexorder" "HOL-Library.Char_ord" "HOL-Library.AList"
    "HOL-Library.Multiset"
begin

text \<open>
  What every component shares.

  \<^item> Python values: \<^typ>\<open>string\<close> is a Python \<open>str\<close> read as its code points (only
    the first 256 of them are representable; the component that inspects others has its own
    type), \<^typ>\<open>int\<close> a Python \<open>int\<close>, \<^typ>\<open>real\<close> a Python \<open>float\<close>
    without its rounding, \<open>'a option\<close> a value that may be \<open>None\<close>, and \<open>e + 'a\<close> the
    result of code that may raise.
  \<^item> SQL tables: a table is the list of its rows in insertion order. \<open>row_of\<close> is
    \<open>SELECT \<dots> WHERE key = k\<close> on a unique key, \<open>upd_rows\<close> is
    \<open>UPDATE \<dots> WHERE key = k\<close>; \<open>ORDER BY\<close> is the library's stable \<open>sort_key\<close>.
  \<^item> The string functions of the standard library that the code calls.
\<close>

named_theorems table_simps "rewriting of the keyed tables"

section \<open>Keyed tables\<close>

definition row_of :: "('r \<Rightarrow> 'k) \<Rightarrow> 'k \<Rightarrow> 'r list \<Rightarrow> 'r option" where
  "row_of key k rs = find (\<lambda>r. key r = k) rs"

definition upd_rows :: "('r \<Rightarrow> 'k) \<Rightarrow> 'k \<Rightarrow> ('r \<Rightarrow> 'r) \<Rightarrow> 'r list \<Rightarrow> 'r list" where
  "upd_rows key k f rs = map (\<lambda>r. if key r = k then f r else r) rs"

lemma row_of_Nil [simp]: "row_of key k [] = None"
  by (simp add: row_of_def)

lemma row_of_Cons [simp]:
  "row_of key k (r # rs) = (if key r = k then Some r else row_of key k rs)"
  by (simp add: row_of_def)

lemma upd_rows_Nil [simp]: "upd_rows key k f [] = []"
  by (simp add: upd_rows_def)

lemma upd_rows_Cons [simp]:
  "upd_rows key k f (r # rs) = (if key r = k then f r else r) # upd_rows key k f rs"
  by (simp add: upd_rows_def)

lemma row_of_append [table_simps]:
  "row_of key k (xs @ ys) = (case row_of key k xs of None \<Rightarrow> row_of key k ys | Some r \<Rightarrow> Some r)"
  by (induction xs) auto

lemma row_of_None_iff: "row_of key k rs = None \<longleftrightarrow> k \<notin> key ` set rs"
  by (induction rs) auto

lemma row_of_SomeD: "row_of key k rs = Some r \<Longrightarrow> r \<in> set rs \<and> key r = k"
  by (induction rs) (auto split: if_splits)

lemma row_of_exists: "k \<in> key ` set rs \<Longrightarrow> \<exists>r. row_of key k rs = Some r"
  by (metis not_None_eq row_of_None_iff)

lemma row_of_unique:
  "distinct (map key rs) \<Longrightarrow> r \<in> set rs \<Longrightarrow> row_of key (key r) rs = Some r"
  by (induction rs) (auto simp: image_iff)

lemma row_of_iff:
  "distinct (map key rs) \<Longrightarrow> row_of key k rs = Some r \<longleftrightarrow> r \<in> set rs \<and> key r = k"
  using row_of_SomeD row_of_unique by metis

lemma map_key_upd_rows [table_simps]:
  assumes "\<And>r. key' (f r) = key' r"
  shows "map key' (upd_rows key k f rs) = map key' rs"
  using assms by (induction rs) auto

lemma length_upd_rows [simp]: "length (upd_rows key k f rs) = length rs"
  by (simp add: upd_rows_def)

lemma row_of_upd_rows [table_simps]:
  assumes "\<And>r. key (f r) = key r"
  shows "row_of key j (upd_rows key k f rs)
    = (if j = k then map_option f (row_of key j rs) else row_of key j rs)"
  using assms by (induction rs) auto

lemma in_upd_rows:
  "r \<in> set (upd_rows key k f rs) \<longleftrightarrow>
     (\<exists>q \<in> set rs. r = (if key q = k then f q else q))"
  by (induction rs) auto

lemma key_image_upd_rows [table_simps]:
  assumes "\<And>r. key' (f r) = key' r"
  shows "key' ` set (upd_rows key k f rs) = key' ` set rs"
  using arg_cong [OF map_key_upd_rows [of key' f key k rs, OF assms], of set] by simp

lemma upd_rows_idle: "k \<notin> key ` set rs \<Longrightarrow> upd_rows key k f rs = rs"
  by (induction rs) auto

lemma length_filter_keys:
  assumes "distinct (map key rs)" "distinct ks" "set ks \<subseteq> key ` set rs"
  shows "length (filter (\<lambda>r. key r \<in> set ks) rs) = length ks"
proof -
  let ?rs = "filter (\<lambda>r. key r \<in> set ks) rs"
  have "distinct (map key ?rs)" using assms(1) by (simp add: distinct_map_filter)
  moreover have "set (map key ?rs) = set ks" using assms(3) by auto
  ultimately have "length (map key ?rs) = length ks" using assms(2) by (metis distinct_card)
  then show ?thesis by simp
qed

lemma filter_upd_rows_le:
  assumes "\<And>r. key r = k \<Longrightarrow> \<not> P (f r)"
  shows "length (filter P (upd_rows key k f rs)) \<le> length (filter P rs)"
  using assms by (induction rs) auto

lemma filter_upd_rows_less:
  assumes "\<And>r. key r = k \<Longrightarrow> \<not> P (f r)" and "q \<in> set rs" and "key q = k" and "P q"
  shows "length (filter P (upd_rows key k f rs)) < length (filter P rs)"
  using assms(2)
proof (induction rs)
  case (Cons r rs)
  note le = filter_upd_rows_le [of key k P f rs, OF assms(1)]
  show ?case
  proof (cases "r = q")
    case True
    with le assms show ?thesis by (simp add: less_Suc_eq_le)
  next
    case False
    with Cons have "length (filter P (upd_rows key k f rs)) < length (filter P rs)" by simp
    with assms(1) show ?thesis by auto
  qed
qed simp

section \<open>SQL and Python helpers on lists\<close>

text \<open>
  \<open>max(xs, key=f)\<close>: the first of the greatest elements; \<open>sorted(xs, key=f, reverse=True)\<close>:
  descending, equal elements in their old order.
\<close>

fun max_by :: "('a \<Rightarrow> 'b::linorder) \<Rightarrow> 'a list \<Rightarrow> 'a option" where
  "max_by f [] = None"
| "max_by f (x # xs) = Some (foldl (\<lambda>m y. if f m < f y then y else m) x xs)"

definition sort_desc :: "('a \<Rightarrow> 'b::linorder) \<Rightarrow> 'a list \<Rightarrow> 'a list" where
  "sort_desc f xs = rev (sort_key f (rev xs))"

lemma foldl_max_by:
  "foldl (\<lambda>m y. if f m < (f y :: 'b::linorder) then y else m) x xs \<in> insert x (set xs)
   \<and> (\<forall>y \<in> insert x (set xs). f y \<le> f (foldl (\<lambda>m y. if f m < f y then y else m) x xs))"
proof (induction xs arbitrary: x)
  case (Cons a xs)
  show ?case using Cons[of x] Cons[of a] by (auto intro: order_trans)
qed simp

lemma max_by_SomeD:
  assumes "max_by f xs = Some m"
  shows "m \<in> set xs" "\<And>y. y \<in> set xs \<Longrightarrow> f y \<le> f m"
  using assms foldl_max_by[of f "hd xs" "tl xs"] by (cases xs; auto)+

lemma max_by_None_iff [simp]: "max_by f xs = None \<longleftrightarrow> xs = []"
  by (cases xs) auto

lemma set_sort_desc [simp]: "set (sort_desc f xs) = set xs"
  by (simp add: sort_desc_def)

lemma length_sort_desc [simp]: "length (sort_desc f xs) = length xs"
  by (simp add: sort_desc_def)

lemma mset_sort_desc [simp]: "mset (sort_desc f xs) = mset xs"
  by (simp add: sort_desc_def)

lemma distinct_sort_desc [simp]: "distinct (sort_desc f xs) = distinct xs"
  by (simp add: sort_desc_def)

lemma sort_desc_sorted: "sorted_wrt (\<lambda>x y. f y \<le> f x) (sort_desc f xs)"
  using sorted_sort_key[of f "rev xs"] by (simp add: sort_desc_def sorted_wrt_rev sorted_map)

text \<open>\<open>SELECT DISTINCT\<close>: the first occurrence of every value.\<close>

fun distinct_rows :: "'a list \<Rightarrow> 'a list" where
  "distinct_rows [] = []"
| "distinct_rows (x # xs) = x # distinct_rows (filter (\<lambda>y. y \<noteq> x) xs)"

lemma set_distinct_rows [simp]: "set (distinct_rows xs) = set xs"
proof (induction xs rule: distinct_rows.induct)
  case (2 x xs)
  then show ?case by auto
qed simp

lemma distinct_distinct_rows [simp]: "distinct (distinct_rows xs)"
  by (induction xs rule: distinct_rows.induct) auto

text \<open>\<open>ORDER BY\<close> a column that an update leaves alone.\<close>

lemma insort_key_map_same:
  assumes "\<And>x. k (f x) = k x"
  shows "insort_key k (f x) (map f xs) = map f (insort_key k x xs)"
  using assms by (induction xs) auto

lemma sort_key_map_same:
  assumes "\<And>x. k (f x) = k x"
  shows "sort_key k (map f xs) = map f (sort_key k xs)"
  by (induction xs) (simp_all add: insort_key_map_same assms)

text \<open>\<open>sorted(set(xs))\<close> of strings.\<close>

definition sorted_set :: "string list \<Rightarrow> string list" where
  "sorted_set xs = sort (remdups xs)"

lemma set_sorted_set [simp]: "set (sorted_set xs) = set xs"
  by (simp add: sorted_set_def)

lemma sorted_set_Nil_iff [simp]: "sorted_set xs = [] \<longleftrightarrow> xs = []"
  by (metis set_empty set_sorted_set)

lemma sorted_sorted_set: "sorted (sorted_set xs)"
  by (simp add: sorted_set_def)

text \<open>\<open>min(xs, default=d)\<close>.\<close>

definition min_default :: "'a::linorder \<Rightarrow> 'a list \<Rightarrow> 'a" where
  "min_default d xs = (if xs = [] then d else Min (set xs))"

text \<open>
  \<open>a or b\<close> where \<open>a\<close> is an optional string: the empty string is as false as \<open>None\<close>.
\<close>

fun str_or :: "string option \<Rightarrow> string \<Rightarrow> string" where
  "str_or None d = d"
| "str_or (Some s) d = (if s = [] then d else s)"

section \<open>Results that may be errors\<close>

text \<open>The rest of a body after a call that may raise: an error ends it.\<close>

fun bindE :: "'e + 'a \<Rightarrow> ('a \<Rightarrow> 'e + 'b) \<Rightarrow> 'e + 'b" where
  "bindE (Inl e) f = Inl e"
| "bindE (Inr a) f = f a"

lemma bindE_Inr_iff: "bindE r f = Inr b \<longleftrightarrow> (\<exists>a. r = Inr a \<and> f a = Inr b)"
  by (cases r) auto

lemma bindE_Inl_iff: "bindE r f = Inl e \<longleftrightarrow> r = Inl e \<or> (\<exists>a. r = Inr a \<and> f a = Inl e)"
  by (cases r) auto

lemma bindE_cong [fundef_cong]:
  "r = r' \<Longrightarrow> (\<And>a. r' = Inr a \<Longrightarrow> f a = f' a) \<Longrightarrow> bindE r f = bindE r' f'"
  by (cases r') auto

text \<open>A loop that calls a raising function on every element and stops at the first error.\<close>

fun mapE :: "('a \<Rightarrow> 'e + 'b) \<Rightarrow> 'a list \<Rightarrow> 'e + 'b list" where
  "mapE f [] = Inr []"
| "mapE f (x # xs) = bindE (f x) (\<lambda>y. bindE (mapE f xs) (\<lambda>ys. Inr (y # ys)))"

lemma mapE_Inr_iff: "mapE f xs = Inr ys \<longleftrightarrow> list_all2 (\<lambda>x y. f x = Inr y) xs ys"
  by (induction xs arbitrary: ys) (auto simp: bindE_Inr_iff list_all2_Cons1)

lemma mapE_all_Inr: "(\<And>x. x \<in> set xs \<Longrightarrow> f x = Inr (g x)) \<Longrightarrow> mapE f xs = Inr (map g xs)"
  by (induction xs) auto

text \<open>
  A Python \<open>float\<close>: a finite number, without its rounding, or one of the three special values.
  Every comparison with \<open>nan\<close> is false.
\<close>

datatype py_float = Fin real | PosInf | NegInf | NaN

fun float_negative :: "py_float \<Rightarrow> bool" where
  "float_negative (Fin x) = (x < 0)"
| "float_negative NegInf = True"
| "float_negative _ = False"

text \<open>JSON values, an object as its members in order.\<close>

datatype json =
  JNull
| JBool bool
| JInt int
| JFloat py_float
| JStr string
| JList "json list"
| JObj "(string \<times> json) list"

section \<open>The string functions of the standard library\<close>

definition py_space :: "char \<Rightarrow> bool" where
  "py_space c \<longleftrightarrow> c \<in> set [CHR 0x09, CHR 0x0A, CHR 0x0B, CHR 0x0C, CHR 0x0D, CHR 0x1C, CHR 0x1D,
     CHR 0x1E, CHR 0x1F, CHR 0x20, CHR 0x85, CHR 0xA0]"

definition py_linebreak :: "char \<Rightarrow> bool" where
  "py_linebreak c \<longleftrightarrow> c \<in> set [CHR 0x0A, CHR 0x0B, CHR 0x0C, CHR 0x0D, CHR 0x1C, CHR 0x1D, CHR 0x1E,
     CHR 0x85]"

definition nl :: string where
  "nl = [CHR 0x0A]"

definition lstrip :: "string \<Rightarrow> string" where
  "lstrip s = dropWhile py_space s"

definition rstrip :: "string \<Rightarrow> string" where
  "rstrip s = rev (dropWhile py_space (rev s))"

definition strip :: "string \<Rightarrow> string" where
  "strip s = rstrip (lstrip s)"

definition startswith :: "string \<Rightarrow> string \<Rightarrow> bool" where
  "startswith s p \<longleftrightarrow> take (length p) s = p"

text \<open>\<open>s.splitlines()\<close>: a final line break starts no further line; CR LF is one break.\<close>

function splitlines :: "string \<Rightarrow> string list" where
  "splitlines s = (if s = [] then [] else
     (case dropWhile (\<lambda>c. \<not> py_linebreak c) s of
        [] \<Rightarrow> [s]
      | c # rest \<Rightarrow> takeWhile (\<lambda>c. \<not> py_linebreak c) s #
          splitlines (if c = CHR 0x0D \<and> rest \<noteq> [] \<and> hd rest = CHR 0x0A then tl rest else rest)))"
  by pat_completeness auto
termination
proof (relation "measure length", goal_cases)
  case 1
  then show ?case by simp
next
  case (2 s c rest)
  have "length (c # rest) \<le> length s"
    using length_dropWhile_le [of "\<lambda>c. \<not> py_linebreak c" s] 2 by simp
  then show ?case by auto
qed

declare splitlines.simps [simp del]

text \<open>\<open>sep.join(parts)\<close>.\<close>

fun join :: "string \<Rightarrow> string list \<Rightarrow> string" where
  "join sep [] = []"
| "join sep [s] = s"
| "join sep (s # ss) = s @ sep @ join sep ss"

text \<open>\<open>s.split(c)\<close> on one character.\<close>

fun split_on :: "char \<Rightarrow> string \<Rightarrow> string list" where
  "split_on c [] = [[]]"
| "split_on c (x # xs) = (if x = c then [] # split_on c xs
     else (case split_on c xs of [] \<Rightarrow> [[x]] | w # ws \<Rightarrow> (x # w) # ws))"

text \<open>The first word of \<open>s.split(None, 1)\<close>, for a string that does not start with a space.\<close>

definition first_word :: "string \<Rightarrow> string" where
  "first_word s = takeWhile (\<lambda>c. \<not> py_space c) s"

text \<open>\<open>str(n)\<close> of a natural number, and \<open>int(s)\<close> of a string of decimal digits.\<close>

definition digit_char :: "nat \<Rightarrow> char" where
  "digit_char d = char_of (48 + d)"

fun nat_str :: "nat \<Rightarrow> string" where
  "nat_str n = (if n < 10 then [digit_char n] else nat_str (n div 10) @ [digit_char (n mod 10)])"

declare nat_str.simps [simp del]

definition is_digit :: "char \<Rightarrow> bool" where
  "is_digit c \<longleftrightarrow> c \<in> set ''0123456789''"

definition digits_nat :: "string \<Rightarrow> nat" where
  "digits_nat s = foldl (\<lambda>n c. 10 * n + (of_char c - 48)) 0 s"

text \<open>
  \<open>repr\<close> of a string and of a list of strings: single quotes unless the text has one and no
  double quote; backslash, the quote and what is not printable are escaped.
\<close>

definition hex_digit :: "nat \<Rightarrow> char" where
  "hex_digit d = (if d < 10 then char_of (48 + d) else char_of (87 + d))"

definition repr_char :: "char \<Rightarrow> char \<Rightarrow> string" where
  "repr_char q c = (let n = (of_char c :: nat) in
     if c = q \<or> n = 92 then [char_of (92 :: nat), c]
     else if n = 9 then [char_of (92 :: nat), CHR ''t'']
     else if n = 10 then [char_of (92 :: nat), CHR ''n'']
     else if n = 13 then [char_of (92 :: nat), CHR ''r'']
     else if n < 32 \<or> (127 \<le> n \<and> n \<le> 160) \<or> n = 173
       then [char_of (92 :: nat), CHR ''x'', hex_digit (n div 16), hex_digit (n mod 16)]
     else [c])"

definition py_repr :: "string \<Rightarrow> string" where
  "py_repr s = (let q = (if char_of (39 :: nat) \<in> set s \<and> char_of (34 :: nat) \<notin> set s
       then char_of (34 :: nat) else char_of (39 :: nat))
     in [q] @ concat (map (repr_char q) s) @ [q])"

definition py_repr_list :: "string list \<Rightarrow> string" where
  "py_repr_list ss = ''['' @ join '', '' (map py_repr ss) @ '']''"

lemma startswith_append [simp]: "startswith (p @ s) p"
  by (simp add: startswith_def)

lemma startswith_iff: "startswith s p \<longleftrightarrow> (\<exists>t. s = p @ t)"
  by (metis append_eq_conv_conj append_take_drop_id startswith_def)

lemma split_on_ne [simp]: "split_on c s \<noteq> []"
  by (induction s) (auto split: list.splits)

lemma set_lstrip: "set (lstrip s) \<subseteq> set s"
  unfolding lstrip_def by (meson set_dropWhileD subsetI)

lemma set_rstrip: "set (rstrip s) \<subseteq> set s"
  unfolding rstrip_def using set_dropWhileD by fastforce

lemma lstrip_id: "s = [] \<or> \<not> py_space (hd s) \<Longrightarrow> lstrip s = s"
  unfolding lstrip_def by (cases s) auto

lemma rstrip_id: "s = [] \<or> \<not> py_space (last s) \<Longrightarrow> rstrip s = s"
  unfolding rstrip_def by (cases s rule: rev_cases) auto

lemma last_rstrip: "rstrip s \<noteq> [] \<Longrightarrow> \<not> py_space (last (rstrip s))"
  unfolding rstrip_def by (metis hd_dropWhile last_rev rev.simps(1))

lemma dropWhile_all: "(\<And>c. c \<in> set s \<Longrightarrow> P c) \<Longrightarrow> dropWhile P s = []"
  by simp

lemma rstrip_append_nonspace:
  assumes "s \<noteq> []" and "\<not> py_space (last s)"
  shows "rstrip (pre @ s @ post) = pre @ s @ rstrip post"
proof -
  have "dropWhile py_space (rev post @ (rev s @ rev pre))
      = dropWhile py_space (rev post) @ rev s @ rev pre"
  proof (cases "\<forall>c \<in> set post. py_space c")
    case True
    then have "dropWhile py_space (rev post @ zs) = dropWhile py_space zs" for zs
      by (intro dropWhile_append2) auto
    moreover have "dropWhile py_space (rev post) = []"
      using True by (intro dropWhile_all) auto
    moreover obtain c cs where "rev s = c # cs" and "\<not> py_space c"
      using assms by (cases s rule: rev_cases) auto
    ultimately show ?thesis by simp
  next
    case False
    then show ?thesis by (auto simp: dropWhile_append1)
  qed
  then show ?thesis by (simp add: rstrip_def)
qed

lemma splitlines_Nil [simp]: "splitlines [] = []"
  by (simp add: splitlines.simps)

lemma set_splitlines: "l \<in> set (splitlines s) \<Longrightarrow> c \<in> set l \<Longrightarrow> \<not> py_linebreak c"
proof (induction s arbitrary: l rule: splitlines.induct)
  case (1 s)
  show ?case
  proof (cases "dropWhile (\<lambda>c. \<not> py_linebreak c) s")
    case Nil
    then have "\<forall>x \<in> set s. \<not> py_linebreak x"
      by (simp add: dropWhile_eq_Nil_conv)
    with "1.prems" show ?thesis
      by (auto simp: splitlines.simps [of s] dropWhile_all split: if_splits)
  next
    case (Cons d rest)
    then have "s \<noteq> []" by auto
    with "1.prems" Cons consider "l = takeWhile (\<lambda>c. \<not> py_linebreak c) s"
      | "l \<in> set (splitlines (if d = CHR 0x0D \<and> rest \<noteq> [] \<and> hd rest = CHR 0x0A
          then tl rest else rest))"
      by (auto simp: splitlines.simps [of s] split: if_splits)
    then show ?thesis
    proof cases
      case 1
      with "1.prems"(2) show ?thesis by (auto dest: set_takeWhileD)
    next
      case 2
      then show ?thesis
        using "1.IH" [OF \<open>s \<noteq> []\<close> Cons] "1.prems"(2) by blast
    qed
  qed
qed

lemma nl_not_in_splitlines: "l \<in> set (splitlines s) \<Longrightarrow> CHR 0x0A \<notin> set l"
  using set_splitlines [of l s "CHR 0x0A"] by (auto simp: py_linebreak_def)

lemma join_append:
  "xs \<noteq> [] \<Longrightarrow> ys \<noteq> [] \<Longrightarrow> join sep (xs @ ys) = join sep xs @ sep @ join sep ys"
proof (induction xs)
  case (Cons x xs)
  then show ?case
    by (cases xs; cases ys) auto
qed simp

lemma count_nl_join:
  "\<forall>l \<in> set ls. CHR 0x0A \<notin> set l \<Longrightarrow> count_list (join nl ls) (CHR 0x0A) = length ls - 1"
proof (induction ls)
  case (Cons l ls)
  then show ?case
    by (cases ls) (auto simp: nl_def count_list_0_iff)
qed simp

lemma rstrip_rstrip [simp]: "rstrip (rstrip s) = rstrip s"
  using last_rstrip rstrip_id by blast

lemma strip_Nil_iff: "strip s = [] \<longleftrightarrow> list_all py_space s"
proof (cases "list_all py_space s")
  case True
  then show ?thesis by (auto simp: strip_def lstrip_def rstrip_def list_all_iff dest: set_dropWhileD)
next
  case False
  then have "dropWhile py_space s \<noteq> []" by (simp add: list_all_iff)
  then have "\<not> py_space (hd (dropWhile py_space s))" "hd (dropWhile py_space s) \<in> set (dropWhile py_space s)"
    by (simp_all add: hd_dropWhile del: dropWhile_eq_Nil_conv)
  then have "dropWhile py_space (rev (dropWhile py_space s)) \<noteq> []" by (auto simp: dropWhile_eq_Nil_conv)
  with False show ?thesis by (simp add: strip_def lstrip_def rstrip_def del: dropWhile_eq_Nil_conv)
qed

lemma lstrip_hd: "lstrip s = [] \<or> \<not> py_space (hd (lstrip s))"
  unfolding lstrip_def using hd_dropWhile[of py_space s] by blast

lemma rstrip_prefix: "\<exists>ys. s = rstrip s @ ys"
proof -
  have "s = rev (takeWhile py_space (rev s) @ dropWhile py_space (rev s))" by simp
  then have "s = rstrip s @ rev (takeWhile py_space (rev s))" unfolding rstrip_def by (simp only: rev_append)
  then show ?thesis by blast
qed

lemma strip_hd: "strip s = [] \<or> \<not> py_space (hd (strip s))"
proof (cases "strip s = []")
  case False
  obtain ys where ys: "lstrip s = strip s @ ys" using rstrip_prefix[of "lstrip s"] unfolding strip_def by blast
  have "hd (lstrip s) = hd (strip s @ ys)" by (rule arg_cong[OF ys])
  moreover have "hd (strip s @ ys) = hd (strip s)" "strip s @ ys \<noteq> []" using False by simp_all
  ultimately show ?thesis using lstrip_hd[of s] ys by metis
qed simp

lemma strip_padded:
  assumes "strip s = s" "s \<noteq> []" "list_all py_space a" "list_all py_space b"
  shows "strip (a @ s @ b) = s"
proof -
  have hd: "\<not> py_space (hd s)" using strip_hd[of s] assms(1,2) by simp
  have last: "\<not> py_space (last s)" using last_rstrip[of "lstrip s"] assms(1,2) by (simp add: strip_def)
  have "lstrip (a @ s @ b) = lstrip (s @ b)"
    using assms(3) unfolding lstrip_def by (intro dropWhile_append2) (simp add: list_all_iff)
  also have "\<dots> = s @ b" using hd assms(2) by (simp add: lstrip_id)
  finally have "strip (a @ s @ b) = rstrip ([] @ s @ b)" by (simp add: strip_def)
  also have "\<dots> = s @ rstrip b" using rstrip_append_nonspace[OF assms(2) last, of "[]" b] by simp
  also have "rstrip b = []" using assms(4) by (auto simp: rstrip_def list_all_iff)
  finally show ?thesis by simp
qed

end
