(* ===== verification/ProofGraph.thy ===== *)
theory ProofGraph
  imports Prelude
begin

text \<open>
  \<open>proof/graph.py\<close>: the goals, decompositions, attempts and certifications of the AND-OR
  proof graph, and the pure rules that decide their status. An enumeration of the source is a
  datatype, with its \<open>.value\<close> text and the constructor call that reads the text back; a frozen
  dataclass is a record.
\<close>

section \<open>Enumerations\<close>

datatype goal_status = GOpen | GProved | GExhausted

datatype decomposition_status =
  DProposed | DAccepted | DRejectedByVerifier | DRejectedByReviewer | DCompleted

datatype outcome =
  OProved | OTaskFailed | OBudgetExhausted | OTimeout | OInfraFailed | OInterrupted

fun goal_status_value :: "goal_status \<Rightarrow> string" where
  "goal_status_value GOpen = ''open''"
| "goal_status_value GProved = ''proved''"
| "goal_status_value GExhausted = ''exhausted''"

fun decomposition_status_value :: "decomposition_status \<Rightarrow> string" where
  "decomposition_status_value DProposed = ''proposed''"
| "decomposition_status_value DAccepted = ''accepted''"
| "decomposition_status_value DRejectedByVerifier = ''rejected-by-verifier''"
| "decomposition_status_value DRejectedByReviewer = ''rejected-by-reviewer''"
| "decomposition_status_value DCompleted = ''completed''"

fun outcome_value :: "outcome \<Rightarrow> string" where
  "outcome_value OProved = ''proved''"
| "outcome_value OTaskFailed = ''task-failed''"
| "outcome_value OBudgetExhausted = ''budget-exhausted''"
| "outcome_value OTimeout = ''timeout''"
| "outcome_value OInfraFailed = ''infra-failed''"
| "outcome_value OInterrupted = ''interrupted''"

definition capability_outcomes :: "outcome list" where
  "capability_outcomes = [OTaskFailed, OTimeout]"

definition no_verdict_outcomes :: "outcome list" where
  "no_verdict_outcomes = [OInfraFailed, OInterrupted, OBudgetExhausted]"

definition resumable_outcomes :: "outcome list" where
  "resumable_outcomes = [OInterrupted]"

definition terminal_decompositions :: "decomposition_status list" where
  "terminal_decompositions = [DRejectedByVerifier, DCompleted]"

definition live_decompositions :: "decomposition_status list" where
  "live_decompositions = [DProposed, DAccepted]"

section \<open>The objects\<close>

text \<open>
  A goal carries its row's \<open>created_at\<close> as well, which the queries order by and the dataclass
  leaves out.
\<close>

record goal =
  g_id :: string
  g_identity :: string
  g_statement :: string
  g_status :: goal_status
  g_exhausted_at_budget :: "real option"
  g_exhausted_at_solver :: "string option"
  g_lease_owner :: "string option"
  g_lease_expires_at :: "real option"
  g_lease_run_dir :: "string option"
  g_created_at :: real

record decomposition =
  d_id :: string
  d_goal_id :: string
  d_subgoal_ids :: "string list"
  d_status :: decomposition_status
  d_rejected_reason :: string

record attempt =
  a_id :: string
  a_goal_id :: string
  a_outcome :: outcome
  a_proof_text :: "string option"
  a_run_dir :: "string option"
  a_evidence_ref :: "string option"
  a_cost :: real
  a_note :: string
  a_created_at :: real

record certification =
  c_id :: string
  c_goal_id :: string
  c_ok :: bool
  c_axioms :: "string list"
  c_reason :: string
  c_text_sha256 :: string
  c_decomposition_id :: "string option"
  c_trust :: "string option"
  c_created_at :: real

text \<open>What the proof layer raises.\<close>

datatype proof_error =
  KeyError string
| ValueError string
| GraphError string
| CycleError "string list"
| IntegrityError string
| AssemblyError string
| AmbiguousRoute string "(string \<times> string list) list"
| SolverError string
| RecursionLimit

section \<open>The rules\<close>

definition check_acyclic :: "string set \<Rightarrow> string list \<Rightarrow> proof_error + unit" where
  "check_acyclic ancestor_identities subgoal_identities =
     (let repeated = sorted_set (filter (\<lambda>i. i \<in> ancestor_identities) subgoal_identities)
      in if repeated \<noteq> [] then Inl (CycleError repeated) else Inr ())"

definition goal_status_from ::
  "outcome list \<Rightarrow> decomposition_status list \<Rightarrow> int \<Rightarrow> goal_status" where
  "goal_status_from attempt_outcomes decomposition_statuses max_capability_attempts =
     (if \<exists>o1 \<in> set attempt_outcomes. o1 = OProved then GProved
      else if \<exists>d \<in> set decomposition_statuses. d = DCompleted then GProved
      else if \<exists>d \<in> set decomposition_statuses. d \<in> set live_decompositions then GOpen
      else let tried = int (length (filter (\<lambda>o1. o1 \<in> set capability_outcomes) attempt_outcomes))
        in if max_capability_attempts > 0 \<and> tried \<ge> max_capability_attempts then GExhausted
           else GOpen)"

definition decomposition_status_from ::
  "decomposition_status \<Rightarrow> goal_status list \<Rightarrow> decomposition_status" where
  "decomposition_status_from current subgoal_statuses =
     (if current \<in> set terminal_decompositions then current
      else if current = DRejectedByReviewer then current
      else if current \<noteq> DAccepted then current
      else if subgoal_statuses \<noteq> [] \<and> (\<forall>s \<in> set subgoal_statuses. s = GProved) then DCompleted
      else current)"

section \<open>What the rules promise\<close>

lemma check_acyclic_Inr [simp]:
  "check_acyclic anc subs = Inr u \<longleftrightarrow> set subs \<inter> anc = {}"
  by (auto simp: check_acyclic_def Let_def filter_empty_conv)

lemma check_acyclic_cases:
  "check_acyclic anc subs =
     (if set subs \<inter> anc = {} then Inr ()
      else Inl (CycleError (sorted_set (filter (\<lambda>i. i \<in> anc) subs))))"
  by (auto simp: check_acyclic_def Let_def filter_empty_conv)

lemma goal_status_proved_iff [simp]:
  "goal_status_from os ds m = GProved \<longleftrightarrow> OProved \<in> set os \<or> DCompleted \<in> set ds"
  by (auto simp: goal_status_from_def Let_def)

lemma goal_status_exhausted_iff:
  "goal_status_from os ds m = GExhausted \<longleftrightarrow>
     OProved \<notin> set os \<and> set ds \<subseteq> {DRejectedByVerifier, DRejectedByReviewer} \<and>
     0 < m \<and> m \<le> int (length (filter (\<lambda>o1. o1 = OTaskFailed \<or> o1 = OTimeout) os))"
proof -
  have "(\<forall>d \<in> set ds. d \<noteq> DCompleted \<and> d \<noteq> DProposed \<and> d \<noteq> DAccepted) \<longleftrightarrow>
      set ds \<subseteq> {DRejectedByVerifier, DRejectedByReviewer}"
    using decomposition_status.exhaust by blast
  then show ?thesis
    unfolding goal_status_from_def live_decompositions_def capability_outcomes_def Let_def
    by auto
qed

lemma decomposition_status_completed_iff:
  "decomposition_status_from c ss = DCompleted \<longleftrightarrow>
     c = DCompleted \<or> c = DAccepted \<and> ss \<noteq> [] \<and> set ss \<subseteq> {GProved}"
  by (auto simp: decomposition_status_from_def terminal_decompositions_def)

lemma decomposition_status_cases:
  "decomposition_status_from c ss = c \<or>
   c = DAccepted \<and> decomposition_status_from c ss = DCompleted"
  by (auto simp: decomposition_status_from_def)

lemma decomposition_status_terminal [simp]:
  "decomposition_status_from DCompleted ss = DCompleted"
  "decomposition_status_from DRejectedByVerifier ss = DRejectedByVerifier"
  "decomposition_status_from DRejectedByReviewer ss = DRejectedByReviewer"
  "decomposition_status_from DProposed ss = DProposed"
  by (auto simp: decomposition_status_from_def terminal_decompositions_def)

text \<open>
  Outcomes without a verdict (infrastructure faults, interruptions, an exhausted budget) never
  influence the status of a goal: dropping them from the attempts changes nothing, so they can
  neither push a goal to exhausted nor reopen it.
\<close>

theorem no_verdict_never_counts:
  "goal_status_from (filter (\<lambda>o1. o1 \<notin> set no_verdict_outcomes) os) ds m
     = goal_status_from os ds m"
proof -
  let ?kept = "filter (\<lambda>o1. o1 \<notin> set no_verdict_outcomes) os"
  have "filter (\<lambda>o1. o1 \<in> set capability_outcomes) ?kept
      = filter (\<lambda>o1. o1 \<in> set capability_outcomes) os"
    by (induction os) (auto simp: no_verdict_outcomes_def capability_outcomes_def)
  moreover have "(\<exists>o1 \<in> set ?kept. o1 = OProved) = (\<exists>o1 \<in> set os. o1 = OProved)"
    by (auto simp: no_verdict_outcomes_def)
  ultimately show ?thesis
    by (simp only: goal_status_from_def)
qed

text \<open>
  A goal is exhausted exactly when nothing proved it, every decomposition of it was rejected,
  and at least the positive limit of attempts ended in a task failure or a timeout.
\<close>

theorem exhausted_characterisation:
  "goal_status_from os ds m = GExhausted \<longleftrightarrow>
     OProved \<notin> set os \<and> set ds \<subseteq> {DRejectedByVerifier, DRejectedByReviewer} \<and>
     0 < m \<and> m \<le> int (count_list os OTaskFailed + count_list os OTimeout)"
proof -
  have "length (filter (\<lambda>o1. o1 = OTaskFailed \<or> o1 = OTimeout) os)
      = count_list os OTaskFailed + count_list os OTimeout"
    by (induction os) auto
  then show ?thesis
    by (simp only: goal_status_exhausted_iff)
qed

end
