(* ===== verification/TrustPolicy.thy ===== *)
theory TrustPolicy
  imports ProofGraph
begin

text \<open>
  \<open>proof/policy.py\<close>: which axioms a finished proof may rest on. The code keeps trust levels as
  texts with an integer rank (\<open>LEVELS\<close>); the type \<open>trust_level\<close> with its linear order is the
  abstract classification that those texts implement.
\<close>

section \<open>The policy of the code\<close>

definition policy_version :: int where
  "policy_version = 1"

definition levels :: "(string \<times> int) list" where
  "levels = [(''tainted'', 0), (''claimed'', 1), (''audited'', 2), (''trusted'', 3)]"

definition standard_axioms :: "string list" where
  "standard_axioms = [''propext'', ''Quot.sound'', ''Classical.choice'']"

definition compiler_axioms :: "string list" where
  "compiler_axioms = [''Lean.ofReduceBool'', ''Lean.ofReduceNat'', ''Lean.trustCompiler'']"

definition sorry_axiom :: string where
  "sorry_axiom = ''sorryAx''"

definition is_native_decide_axiom :: "string \<Rightarrow> bool" where
  "is_native_decide_axiom name =
     (let parts = split_on (CHR ''.'') name
      in ''_native'' \<in> set parts \<and> ''native_decide'' \<in> set parts)"

record axiom_policy =
  minimum_trust :: string

definition valid_minimum_trust :: "string \<Rightarrow> bool" where
  "valid_minimum_trust t \<longleftrightarrow> t \<in> set [''trusted'', ''audited'', ''claimed'']"

text \<open>The constructor with its \<open>__post_init__\<close> check.\<close>

definition mk_axiom_policy :: "string \<Rightarrow> proof_error + axiom_policy" where
  "mk_axiom_policy t =
     (if \<not> valid_minimum_trust t then Inl (ValueError (''unknown minimum_trust='' @ py_repr t))
      else Inr \<lparr>minimum_trust = t\<rparr>)"

definition default_policy :: axiom_policy where
  "default_policy = \<lparr>minimum_trust = ''audited''\<rparr>"

text \<open>\<open>LEVELS[name]\<close>.\<close>

definition level_rank :: "string \<Rightarrow> proof_error + int" where
  "level_rank name =
     (case map_of levels name of None \<Rightarrow> Inl (KeyError name) | Some v \<Rightarrow> Inr v)"

text \<open>The recheck results are a map; an absent mapping is the empty one.\<close>

definition level_of :: "(string \<rightharpoonup> bool) \<Rightarrow> string \<Rightarrow> int" where
  "level_of native_holds axm =
     (if axm \<in> set standard_axioms then 3
      else if axm \<in> set compiler_axioms then 2
      else if is_native_decide_axiom axm
        then (let held = (native_holds axm = Some True) in if held then 2 else 1)
      else if axm = sorry_axiom then 0
      else 1)"

definition classify :: "(string \<rightharpoonup> bool) \<Rightarrow> string list \<Rightarrow> string" where
  "classify native_holds axioms =
     (let level = min_default 3 (map (level_of native_holds) axioms)
      in fst (hd (filter (\<lambda>nv. snd nv = level) levels)))"

definition accepts :: "axiom_policy \<Rightarrow> string \<Rightarrow> proof_error + bool" where
  "accepts p trust =
     bindE (level_rank trust) (\<lambda>v. bindE (level_rank (minimum_trust p)) (\<lambda>fl. Inr (v \<ge> fl)))"

definition blocking ::
  "axiom_policy \<Rightarrow> (string \<rightharpoonup> bool) \<Rightarrow> string list \<Rightarrow> proof_error + string list" where
  "blocking p native_holds axioms =
     bindE (level_rank (minimum_trust p)) (\<lambda>fl.
       Inr (filter (\<lambda>a. level_of native_holds a < fl) axioms))"

definition unverified_native :: "(string \<rightharpoonup> bool) \<Rightarrow> string list \<Rightarrow> string list" where
  "unverified_native native_holds axioms =
     filter (\<lambda>a. is_native_decide_axiom a \<and> native_holds a \<noteq> Some True) axioms"

section \<open>The abstract classification\<close>

datatype trust_level = Tainted | Claimed | Audited | Trusted

fun trust_rank :: "trust_level \<Rightarrow> int" where
  "trust_rank Tainted = 0"
| "trust_rank Claimed = 1"
| "trust_rank Audited = 2"
| "trust_rank Trusted = 3"

fun trust_name :: "trust_level \<Rightarrow> string" where
  "trust_name Tainted = ''tainted''"
| "trust_name Claimed = ''claimed''"
| "trust_name Audited = ''audited''"
| "trust_name Trusted = ''trusted''"

instantiation trust_level :: linorder
begin

definition less_eq_trust_level :: "trust_level \<Rightarrow> trust_level \<Rightarrow> bool" where
  "less_eq_trust_level a b \<longleftrightarrow> trust_rank a \<le> trust_rank b"

definition less_trust_level :: "trust_level \<Rightarrow> trust_level \<Rightarrow> bool" where
  "less_trust_level a b \<longleftrightarrow> trust_rank a < trust_rank b"

instance
proof
  fix a b :: trust_level
  show "a \<le> b \<Longrightarrow> b \<le> a \<Longrightarrow> a = b"
    by (cases a; cases b) (auto simp: less_eq_trust_level_def)
qed (auto simp: less_eq_trust_level_def less_trust_level_def)

end

text \<open>The level of one axiom, as the module's table states it.\<close>

definition axiom_trust :: "(string \<rightharpoonup> bool) \<Rightarrow> string \<Rightarrow> trust_level" where
  "axiom_trust native_holds a =
     (if a \<in> {''propext'', ''Quot.sound'', ''Classical.choice''} then Trusted
      else if a \<in> {''Lean.ofReduceBool'', ''Lean.ofReduceNat'', ''Lean.trustCompiler''} then Audited
      else if is_native_decide_axiom a \<and> native_holds a = Some True then Audited
      else if a = ''sorryAx'' then Tainted
      else Claimed)"

definition proof_trust :: "(string \<rightharpoonup> bool) \<Rightarrow> string list \<Rightarrow> trust_level" where
  "proof_trust native_holds axioms = Min (insert Trusted (axiom_trust native_holds ` set axioms))"

section \<open>Lemmas\<close>

lemma trust_le_Trusted [simp]: "t \<le> Trusted"
  by (cases t) (auto simp: less_eq_trust_level_def)

lemma trust_rank_mono: "trust_rank a \<le> trust_rank b \<longleftrightarrow> a \<le> b"
  by (simp add: less_eq_trust_level_def)

lemma level_rank_trust_name [simp]: "level_rank (trust_name t) = Inr (trust_rank t)"
  by (cases t) (simp_all add: level_rank_def levels_def)

lemma not_native_sorry [simp]: "\<not> is_native_decide_axiom ''sorryAx''"
  by (simp add: is_native_decide_axiom_def)

lemma level_of_refines: "level_of nh a = trust_rank (axiom_trust nh a)"
  unfolding level_of_def axiom_trust_def standard_axioms_def compiler_axioms_def sorry_axiom_def
  by (auto simp: is_native_decide_axiom_def)

lemma native_not_named:
  assumes "is_native_decide_axiom a"
  shows "a \<notin> set standard_axioms" and "a \<notin> set compiler_axioms" and "a \<noteq> sorry_axiom"
  using assms
  by (auto simp: standard_axioms_def compiler_axioms_def sorry_axiom_def is_native_decide_axiom_def)

lemma level_of_native:
  "is_native_decide_axiom a \<Longrightarrow> level_of nh a = (if nh a = Some True then 2 else 1)"
  by (simp add: level_of_def native_not_named)

lemma first_level_name:
  "fst (hd (filter (\<lambda>nv. snd nv = trust_rank t) levels)) = trust_name t"
  by (cases t) (simp_all add: levels_def)

lemma min_default_ranks:
  "min_default 3 (map (level_of nh) axs) = trust_rank (proof_trust nh axs)"
proof -
  have "Min (insert 3 (level_of nh ` set axs)) = trust_rank (proof_trust nh axs)"
    unfolding proof_trust_def level_of_refines
    by (subst mono_Min_commute) (auto simp: mono_def trust_rank_mono image_image)
  moreover have "min_default 3 (map (level_of nh) axs) = Min (insert 3 (level_of nh ` set axs))"
  proof (cases "axs = []")
    case False
    then have "Min (insert 3 (level_of nh ` set axs)) = min 3 (Min (level_of nh ` set axs))"
      by (intro Min_insert) auto
    moreover have "Min (level_of nh ` set axs) \<le> 3"
    proof -
      have "hd axs \<in> set axs" using False by simp
      then have "Min (level_of nh ` set axs) \<le> level_of nh (hd axs)" by simp
      also have "level_of nh (hd axs) \<le> 3" by (simp add: level_of_def)
      finally show ?thesis .
    qed
    ultimately show ?thesis
      using False by (simp add: min_default_def min.absorb2)
  qed (simp add: min_default_def)
  ultimately show ?thesis by simp
qed

lemma classify_refines: "classify nh axs = trust_name (proof_trust nh axs)"
  by (simp add: classify_def min_default_ranks first_level_name)

lemma le_proof_trust_iff: "t \<le> proof_trust nh axs \<longleftrightarrow> (\<forall>a \<in> set axs. t \<le> axiom_trust nh a)"
  by (simp add: proof_trust_def)

lemma valid_trust_cases:
  assumes "valid_minimum_trust t"
  obtains l where "t = trust_name l" and "l \<noteq> Tainted"
  using assms that [of Trusted] that [of Audited] that [of Claimed]
  by (auto simp: valid_minimum_trust_def)

lemma mk_axiom_policy_Inr_iff:
  "mk_axiom_policy t = Inr p \<longleftrightarrow> valid_minimum_trust t \<and> p = \<lparr>minimum_trust = t\<rparr>"
  by (auto simp: mk_axiom_policy_def)

lemma blocking_eq:
  assumes "minimum_trust p = trust_name l"
  shows "blocking p nh axs = Inr (filter (\<lambda>a. axiom_trust nh a < l) axs)"
  using assms
  by (simp add: blocking_def level_of_refines less_trust_level_def)

lemma accepts_classify:
  assumes "minimum_trust p = trust_name l"
  shows "accepts p (classify nh axs) = Inr (l \<le> proof_trust nh axs)"
  using assms by (simp add: accepts_def classify_refines less_eq_trust_level_def)

text \<open>
  The classification by name and rank is the abstract one: the text it answers is the name of
  the lowest level of the proof's axioms, and \<open>trusted\<close> when there is none.
\<close>

theorem classify_is_lowest_level:
  "classify nh axs = trust_name (Min (insert Trusted (axiom_trust nh ` set axs)))"
  by (simp add: classify_refines proof_trust_def)

text \<open>
  For every policy that can be constructed, the trust verdict and the list of blocking axioms
  agree: the policy accepts the classification of a proof exactly when no single axiom blocks it.
\<close>

theorem accepts_iff_nothing_blocks:
  assumes "mk_axiom_policy t = Inr p"
  shows "\<exists>bs. blocking p nh axs = Inr bs \<and> accepts p (classify nh axs) = Inr (bs = [])"
proof -
  from assms obtain l where "minimum_trust p = trust_name l"
    by (auto simp: mk_axiom_policy_Inr_iff elim: valid_trust_cases)
  then show ?thesis
    by (auto simp: blocking_eq accepts_classify le_proof_trust_iff filter_empty_conv not_less)
qed

theorem accepts_iff_nothing_blocks_witness:
  "\<exists>bs. blocking default_policy Map.empty [''propext'', ''myAxiom''] = Inr bs
     \<and> accepts default_policy (classify Map.empty [''propext'', ''myAxiom'']) = Inr (bs = [])"
proof -
  have "mk_axiom_policy ''audited'' = Inr default_policy"
    by (simp add: mk_axiom_policy_def valid_minimum_trust_def default_policy_def)
  then show ?thesis by (rule accepts_iff_nothing_blocks)
qed

text \<open>
  No policy that can be constructed accepts a proof that depends on \<open>sorryAx\<close>, whatever the
  recheck of the native axioms said and whatever else it depends on.
\<close>

theorem sorry_is_never_accepted:
  assumes "mk_axiom_policy t = Inr p" and "''sorryAx'' \<in> set axs"
  shows "accepts p (classify nh axs) = Inr False"
proof -
  from assms(1) obtain l where l: "minimum_trust p = trust_name l" "l \<noteq> Tainted"
    by (auto simp: mk_axiom_policy_Inr_iff elim: valid_trust_cases)
  have "axiom_trust nh ''sorryAx'' = Tainted"
    by (simp add: axiom_trust_def)
  with assms(2) l(2) have "\<not> l \<le> proof_trust nh axs"
    unfolding le_proof_trust_iff by (cases l) (force simp: less_eq_trust_level_def)+
  with l(1) show ?thesis
    by (simp add: accepts_classify)
qed

theorem sorry_is_never_accepted_witness:
  "accepts \<lparr>minimum_trust = ''claimed''\<rparr> (classify Map.empty [''propext'', ''sorryAx'']) = Inr False"
  by (rule sorry_is_never_accepted [of "''claimed''"])
    (simp_all add: mk_axiom_policy_def valid_minimum_trust_def)

text \<open>
  A native_decide axiom that no recheck confirmed blocks every proof under the floors
  \<open>audited\<close> and \<open>trusted\<close>: it is always among the blocking axioms.
\<close>

theorem unverified_native_blocks:
  assumes "minimum_trust p \<in> {''audited'', ''trusted''}"
    and "a \<in> set (unverified_native nh axs)"
  shows "\<exists>bs. blocking p nh axs = Inr bs \<and> a \<in> set bs"
proof -
  from assms(1) obtain l where l: "minimum_trust p = trust_name l" "l = Audited \<or> l = Trusted"
    by (metis insertE singletonD trust_name.simps(3,4))
  from assms(2) have "a \<in> set axs" and "level_of nh a = 1"
    by (simp_all add: unverified_native_def level_of_native)
  then have "a \<in> set axs" and "axiom_trust nh a < l"
    using l(2) by (auto simp: level_of_refines less_trust_level_def)
  with l(1) show ?thesis
    by (simp add: blocking_eq)
qed

theorem unverified_native_blocks_witness:
  "\<exists>bs. blocking default_policy Map.empty [''foo._native.native_decide.ax_1''] = Inr bs
     \<and> ''foo._native.native_decide.ax_1'' \<in> set bs"
  by (rule unverified_native_blocks)
    (simp_all add: default_policy_def unverified_native_def is_native_decide_axiom_def)

end
