(* ===== verification/GraphScope.thy ===== *)
theory GraphScope
  imports TrustPolicy
begin

text \<open>
  \<open>proof/scope.py\<close> and the part of \<open>proof/store.py\<close> that settles the scope when a graph is
  opened: the premises a graph was built under, and the refusal to open it under others.
  SHA-256 is the parameter \<open>sha\<close>.
\<close>

section \<open>Scopes\<close>

definition scope_version_now :: int where
  "scope_version_now = 1"

definition envelope_schema_version_now :: int where
  "envelope_schema_version_now = 1"

definition goalkey_schema_version_now :: int where
  "goalkey_schema_version_now = 1"

definition default_minimum_trust :: string where
  "default_minimum_trust = ''audited''"

definition default_identity_hasher :: string where
  "default_identity_hasher = ''exact-text''"

definition identity_hashers :: "string list" where
  "identity_hashers = [''exact-text'', ''lean-expr'']"

record graph_scope =
  environment :: string
  scope_minimum_trust :: string
  identity_hasher :: string
  preamble_hash :: string
  base_id :: string
  axiom_policy_version :: int
  envelope_schema_version :: int
  goalkey_schema_version :: int
  scope_version :: int

datatype scope_val = SStr string | SInt int

datatype scope_error =
  ScopeError string
| ScopeMismatch "(string \<times> scope_val \<times> scope_val) list"
| ScopeMissing nat
| ScopeValue proof_error
| ScopeHasher string
| ScopeColumn string

definition preamble_sha256 :: "(string \<Rightarrow> string) \<Rightarrow> string \<Rightarrow> string" where
  "preamble_sha256 sha text = sha (strip text)"

text \<open>
  The identity of the Lean a local runner compiles against: \<open>None\<close> for a bare \<open>lean\<close>, else the
  bytes of the two files of the lake project, each \<open>None\<close> when there is no such file.
\<close>

definition local_environment ::
  "(string \<Rightarrow> string) \<Rightarrow> (string option \<times> string option) option \<Rightarrow> string" where
  "local_environment sha project =
     (case project of None \<Rightarrow> ''local:bare''
      | Some (manifest, toolchain) \<Rightarrow>
          (let nul = [CHR 0x00];
               part = (\<lambda>name content. name @ nul @
                 (case content of None \<Rightarrow> ''<missing>'' | Some b \<Rightarrow> b) @ nul)
           in ''local:lake:'' @
              sha (part ''lake-manifest.json'' manifest @ part ''lean-toolchain'' toolchain)))"

text \<open>The constructor's \<open>__post_init__\<close>: the trust floor and the hasher are known ones.\<close>

definition mk_graph_scope :: "graph_scope \<Rightarrow> scope_error + graph_scope" where
  "mk_graph_scope s =
     (case mk_axiom_policy (scope_minimum_trust s) of
        Inl e \<Rightarrow> Inl (ScopeValue e)
      | Inr _ \<Rightarrow>
          if identity_hasher s \<notin> set identity_hashers then Inl (ScopeHasher (identity_hasher s))
          else Inr s)"

definition scope_policy :: "graph_scope \<Rightarrow> proof_error + axiom_policy" where
  "scope_policy s = mk_axiom_policy (scope_minimum_trust s)"

text \<open>\<open>asdict\<close>: the fields by name, in the order the dataclass declares them.\<close>

definition scope_to_row :: "graph_scope \<Rightarrow> (string \<times> scope_val) list" where
  "scope_to_row s =
     [(''environment'', SStr (environment s)),
      (''minimum_trust'', SStr (scope_minimum_trust s)),
      (''identity_hasher'', SStr (identity_hasher s)),
      (''preamble_sha256'', SStr (preamble_hash s)),
      (''base_id'', SStr (base_id s)),
      (''axiom_policy_version'', SInt (axiom_policy_version s)),
      (''envelope_schema_version'', SInt (envelope_schema_version s)),
      (''goalkey_schema_version'', SInt (goalkey_schema_version s)),
      (''scope_version'', SInt (scope_version s))]"

definition scope_diff :: "graph_scope \<Rightarrow> graph_scope \<Rightarrow> (string \<times> scope_val \<times> scope_val) list" where
  "scope_diff s other =
     map (\<lambda>((n, v), (_, w)). (n, v, w))
       (filter (\<lambda>((n, v), (_, w)). n \<noteq> ''base_id'' \<and> v \<noteq> w)
         (zip (scope_to_row s) (scope_to_row other)))"

text \<open>
  Reading a row back: a column that is missing raises; the columns are typed, so a value of the
  wrong type stands for one as well.
\<close>

definition row_str :: "(string \<times> scope_val) list \<Rightarrow> string \<Rightarrow> scope_error + string" where
  "row_str row n = (case map_of row n of Some (SStr x) \<Rightarrow> Inr x | _ \<Rightarrow> Inl (ScopeColumn n))"

definition row_int :: "(string \<times> scope_val) list \<Rightarrow> string \<Rightarrow> scope_error + int" where
  "row_int row n = (case map_of row n of Some (SInt x) \<Rightarrow> Inr x | _ \<Rightarrow> Inl (ScopeColumn n))"

definition scope_from_row :: "(string \<times> scope_val) list \<Rightarrow> scope_error + graph_scope" where
  "scope_from_row row =
     bindE (row_str row ''environment'') (\<lambda>env.
     bindE (row_str row ''minimum_trust'') (\<lambda>trust.
     bindE (row_str row ''identity_hasher'') (\<lambda>hasher.
     bindE (row_str row ''preamble_sha256'') (\<lambda>pre.
     bindE (row_str row ''base_id'') (\<lambda>base.
     bindE (row_int row ''axiom_policy_version'') (\<lambda>pv.
     bindE (row_int row ''envelope_schema_version'') (\<lambda>ev.
     bindE (row_int row ''goalkey_schema_version'') (\<lambda>gv.
     bindE (row_int row ''scope_version'') (\<lambda>sv.
       mk_graph_scope \<lparr>environment = env, scope_minimum_trust = trust, identity_hasher = hasher,
         preamble_hash = pre, base_id = base, axiom_policy_version = pv,
         envelope_schema_version = ev, goalkey_schema_version = gv, scope_version = sv\<rparr>)))))))))"

text \<open>\<open>resolve\<close>: the scope a command asks for; a setting it leaves out is inherited.\<close>

definition scope_resolve ::
  "graph_scope option \<Rightarrow> string \<Rightarrow> string \<Rightarrow> string option \<Rightarrow> string option \<Rightarrow> string
     \<Rightarrow> scope_error + graph_scope" where
  "scope_resolve stored env pre hasher trust base =
     mk_graph_scope \<lparr>environment = env,
       scope_minimum_trust = str_or trust
         (case stored of Some s \<Rightarrow> scope_minimum_trust s | None \<Rightarrow> default_minimum_trust),
       identity_hasher = str_or hasher
         (case stored of Some s \<Rightarrow> identity_hasher s | None \<Rightarrow> default_identity_hasher),
       preamble_hash = pre,
       base_id = str_or (Some base) (case stored of Some s \<Rightarrow> base_id s | None \<Rightarrow> []),
       axiom_policy_version = policy_version,
       envelope_schema_version = envelope_schema_version_now,
       goalkey_schema_version = goalkey_schema_version_now,
       scope_version = scope_version_now\<rparr>"

section \<open>Settling the scope of a graph that is opened\<close>

text \<open>
  The graph's part that this reads and writes: the one row of \<open>graph_scope\<close> and the number of
  goals. The result is the scope the store works under, with the row afterwards.
\<close>

definition settle_scope ::
  "(string \<times> scope_val) list option \<Rightarrow> nat \<Rightarrow> graph_scope option \<Rightarrow> bool
     \<Rightarrow> scope_error + (graph_scope option \<times> (string \<times> scope_val) list option)" where
  "settle_scope row goals wanted adopt =
     bindE (case row of None \<Rightarrow> Inr None | Some r \<Rightarrow> bindE (scope_from_row r) (\<lambda>s. Inr (Some s)))
     (\<lambda>stored.
       case wanted of
         None \<Rightarrow>
           if adopt then Inl (ScopeError ''--adopt-scope needs a scope to adopt'')
           else Inr (stored, row)
       | Some w \<Rightarrow>
           (case stored of
              Some s \<Rightarrow>
                if adopt then Inl (ScopeError ''--adopt-scope only applies to a graph with no recorded scope; this one has one'')
                else let diffs = scope_diff s w
                  in if diffs \<noteq> [] then Inl (ScopeMismatch diffs) else Inr (Some s, row)
            | None \<Rightarrow>
                if goals \<noteq> 0 \<and> \<not> adopt then Inl (ScopeMissing goals)
                else Inr (Some w, Some (scope_to_row w))))"

text \<open>A run of commands, each opening the graph with its own scope and adopt flag.\<close>

fun open_all ::
  "(string \<times> scope_val) list option \<Rightarrow> (nat \<times> graph_scope option \<times> bool) list
     \<Rightarrow> (string \<times> scope_val) list option" where
  "open_all row [] = row"
| "open_all row ((goals, wanted, adopt) # cmds) =
     (case settle_scope row goals wanted adopt of
        Inl _ \<Rightarrow> open_all row cmds
      | Inr (_, row') \<Rightarrow> open_all row' cmds)"

section \<open>Lemmas\<close>

definition valid_scope :: "graph_scope \<Rightarrow> bool" where
  "valid_scope s \<longleftrightarrow>
     valid_minimum_trust (scope_minimum_trust s) \<and> identity_hasher s \<in> set identity_hashers"

lemma mk_graph_scope_Inr_iff [simp]: "mk_graph_scope s = Inr t \<longleftrightarrow> valid_scope s \<and> t = s"
  by (auto simp: mk_graph_scope_def valid_scope_def mk_axiom_policy_def)

lemma mk_graph_scope_valid: "valid_scope s \<Longrightarrow> mk_graph_scope s = Inr s"
  by simp

lemma scope_row_read [simp]:
  "row_str (scope_to_row s) ''environment'' = Inr (environment s)"
  "row_str (scope_to_row s) ''minimum_trust'' = Inr (scope_minimum_trust s)"
  "row_str (scope_to_row s) ''identity_hasher'' = Inr (identity_hasher s)"
  "row_str (scope_to_row s) ''preamble_sha256'' = Inr (preamble_hash s)"
  "row_str (scope_to_row s) ''base_id'' = Inr (base_id s)"
  "row_int (scope_to_row s) ''axiom_policy_version'' = Inr (axiom_policy_version s)"
  "row_int (scope_to_row s) ''envelope_schema_version'' = Inr (envelope_schema_version s)"
  "row_int (scope_to_row s) ''goalkey_schema_version'' = Inr (goalkey_schema_version s)"
  "row_int (scope_to_row s) ''scope_version'' = Inr (scope_version s)"
  by (simp_all add: row_str_def row_int_def scope_to_row_def)

lemma scope_from_to_row: "scope_from_row (scope_to_row s) = mk_graph_scope s"
  by (cases s) (simp add: scope_from_row_def)

lemma scope_diff_Nil_iff: "scope_diff s t = [] \<longleftrightarrow> s\<lparr>base_id := base_id t\<rparr> = t"
  by (cases s; cases t) (auto simp: scope_diff_def scope_to_row_def)

lemma settle_recorded:
  assumes "valid_scope s"
  shows "settle_scope (Some (scope_to_row s)) goals wanted adopt =
    (case wanted of
       None \<Rightarrow> if adopt then Inl (ScopeError ''--adopt-scope needs a scope to adopt'')
         else Inr (Some s, Some (scope_to_row s))
     | Some w \<Rightarrow>
         if adopt then Inl (ScopeError ''--adopt-scope only applies to a graph with no recorded scope; this one has one'')
         else if scope_diff s w \<noteq> [] then Inl (ScopeMismatch (scope_diff s w))
         else Inr (Some s, Some (scope_to_row s)))"
  using assms
  by (simp add: settle_scope_def scope_from_to_row mk_graph_scope_valid Let_def split: option.splits)

text \<open>
  What \<open>to_row\<close> writes of a scope that could be constructed, \<open>from_row\<close> reads back as
  the same scope.
\<close>

theorem scope_row_roundtrip:
  assumes "mk_graph_scope s = Inr t"
  shows "scope_from_row (scope_to_row s) = Inr s"
  using assms by (simp add: scope_from_to_row)

theorem scope_row_roundtrip_witness:
  "\<exists>s. scope_resolve None ''local:bare'' ''abc'' None None [] = Inr s
     \<and> scope_from_row (scope_to_row s) = Inr s"
proof -
  let ?s = "\<lparr>environment = ''local:bare'', scope_minimum_trust = ''audited'',
    identity_hasher = ''exact-text'', preamble_hash = ''abc'', base_id = [],
    axiom_policy_version = 1, envelope_schema_version = 1, goalkey_schema_version = 1,
    scope_version = 1\<rparr>"
  have "valid_scope ?s"
    by (simp add: valid_scope_def valid_minimum_trust_def identity_hashers_def)
  then have mk: "mk_graph_scope ?s = Inr ?s" by simp
  moreover have "scope_resolve None ''local:bare'' ''abc'' None None [] = mk_graph_scope ?s"
    by (simp add: scope_resolve_def default_minimum_trust_def default_identity_hasher_def
        policy_version_def envelope_schema_version_now_def goalkey_schema_version_now_def
        scope_version_now_def)
  ultimately show ?thesis
    using scope_row_roundtrip [OF mk] by simp
qed

text \<open>
  Once a graph has a recorded scope, no sequence of opens, whatever scopes and flags they ask
  for, changes the record; and an open that succeeds under a wanted scope agrees with the record
  in every field but the informative \<open>base_id\<close>.
\<close>

theorem recorded_scope_never_changes:
  assumes "mk_graph_scope s = Inr s'"
  shows "open_all (Some (scope_to_row s)) cmds = Some (scope_to_row s)
    \<and> (\<forall>goals w adopt r.
         settle_scope (open_all (Some (scope_to_row s)) cmds) goals (Some w) adopt = Inr r
           \<longrightarrow> s\<lparr>base_id := base_id w\<rparr> = w \<and> fst r = Some s)"
proof -
  from assms have valid: "valid_scope s" by simp
  have all: "open_all (Some (scope_to_row s)) cmds = Some (scope_to_row s)"
  proof (induction cmds)
    case (Cons c cmds)
    obtain goals wanted adopt where c: "c = (goals, wanted, adopt)"
      by (cases c) auto
    show ?case
      using Cons valid
      by (auto simp: c settle_recorded split: option.splits)
  qed simp
  then show ?thesis
    using valid
    by (auto simp: settle_recorded scope_diff_Nil_iff split: if_splits)
qed

definition example_scope :: graph_scope where
  "example_scope = \<lparr>environment = ''local:bare'', scope_minimum_trust = ''claimed'',
    identity_hasher = ''lean-expr'', preamble_hash = [], base_id = ''a'',
    axiom_policy_version = 1, envelope_schema_version = 1, goalkey_schema_version = 1,
    scope_version = 1\<rparr>"

lemma mk_example_scope: "mk_graph_scope example_scope = Inr example_scope"
  by (simp add: example_scope_def valid_scope_def valid_minimum_trust_def identity_hashers_def)

theorem recorded_scope_never_changes_witness:
  "open_all (Some (scope_to_row example_scope)) [(2, Some example_scope, False), (0, None, True)]
     = Some (scope_to_row example_scope)
   \<and> (\<exists>r. settle_scope (Some (scope_to_row example_scope)) 2 (Some example_scope) False = Inr r
       \<and> fst r = Some example_scope)"
proof -
  have "valid_scope example_scope"
    using mk_example_scope by (simp only: mk_graph_scope_Inr_iff)
  then have "settle_scope (Some (scope_to_row example_scope)) 2 (Some example_scope) False
      = Inr (Some example_scope, Some (scope_to_row example_scope))"
    by (simp add: settle_recorded scope_diff_Nil_iff)
  then show ?thesis
    using recorded_scope_never_changes [OF mk_example_scope] by (metis fst_conv)
qed

text \<open>
  A command that restates no setting and works with the graph's own environment and preamble
  is never refused by a graph of the current versions: the scope it resolves to is constructed and
  differs from the stored one in nothing that is compared.
\<close>

theorem resolve_inherits:
  assumes "mk_graph_scope s = Inr s'"
    and "axiom_policy_version s = policy_version"
    and "envelope_schema_version s = envelope_schema_version_now"
    and "goalkey_schema_version s = goalkey_schema_version_now"
    and "scope_version s = scope_version_now"
  shows "\<exists>w. scope_resolve (Some s) (environment s) (preamble_hash s) None None base = Inr w
     \<and> settle_scope (Some (scope_to_row s)) goals (Some w) False
       = Inr (Some s, Some (scope_to_row s))"
proof -
  let ?w = "s\<lparr>base_id := str_or (Some base) (base_id s)\<rparr>"
  from assms(1) have valid: "valid_scope s" by simp
  then have "valid_scope ?w" by (simp add: valid_scope_def)
  then have "scope_resolve (Some s) (environment s) (preamble_hash s) None None base = Inr ?w"
    using assms(2-) by (cases s) (simp add: scope_resolve_def)
  moreover have "scope_diff s ?w = []"
    by (simp add: scope_diff_Nil_iff)
  ultimately show ?thesis
    using valid by (auto simp: settle_recorded)
qed

theorem resolve_inherits_witness:
  "\<exists>w. scope_resolve (Some example_scope) (environment example_scope)
         (preamble_hash example_scope) None None ''x'' = Inr w
     \<and> settle_scope (Some (scope_to_row example_scope)) 7 (Some w) False
       = Inr (Some example_scope, Some (scope_to_row example_scope))"
  by (rule resolve_inherits [OF mk_example_scope])
    (simp_all add: example_scope_def policy_version_def envelope_schema_version_now_def
      goalkey_schema_version_now_def scope_version_now_def)

end
