(* ===== verification/Sketch.thy ===== *)
theory Sketch
  imports ProofGraph
begin

text \<open>
  \<open>proof/sketch.py\<close>: what a decomposition is as a Lean file, its JSON form, how it is laid out,
  and the two questions Lean is asked about it. The compiler is a parameter: it answers with a
  return code and its output, or \<open>None\<close> when it could not be run (\<open>SketchUnavailable\<close>).
\<close>

section \<open>The sketch\<close>

record subgoal_spec =
  sp_name :: string
  sp_identity :: string
  sp_signature :: string

record sketch =
  sk_parent_name :: string
  sk_parent_signature :: string
  sk_parent_body :: string
  sk_subgoals :: "subgoal_spec list"
  sk_preamble :: string

record validation =
  v_ok :: bool
  v_reason :: string

definition spec_to_json :: "subgoal_spec \<Rightarrow> json" where
  "spec_to_json s = JObj
     [(''name'', JStr (sp_name s)), (''identity'', JStr (sp_identity s)),
      (''signature'', JStr (sp_signature s))]"

definition sketch_to_json :: "sketch \<Rightarrow> json" where
  "sketch_to_json s = JObj
     [(''parent_name'', JStr (sk_parent_name s)),
      (''parent_signature'', JStr (sk_parent_signature s)),
      (''parent_body'', JStr (sk_parent_body s)),
      (''subgoals'', JList (map spec_to_json (sk_subgoals s))),
      (''preamble'', JStr (sk_preamble s))]"

text \<open>
  \<open>data[key]\<close>: a missing key raises. The fields are texts; anything else in their place stands
  for a value the rest of the program could not use, and is an error here.
\<close>

fun json_get :: "json \<Rightarrow> string \<Rightarrow> proof_error + json" where
  "json_get (JObj ms) k = (case map_of ms k of None \<Rightarrow> Inl (KeyError k) | Some v \<Rightarrow> Inr v)"
| "json_get _ k = Inl (ValueError k)"

fun json_text :: "json \<Rightarrow> proof_error + string" where
  "json_text (JStr s) = Inr s"
| "json_text _ = Inl (ValueError ''not a text'')"

fun json_items :: "json \<Rightarrow> proof_error + json list" where
  "json_items (JList xs) = Inr xs"
| "json_items _ = Inl (ValueError ''not a list'')"

definition json_get_text :: "json \<Rightarrow> string \<Rightarrow> proof_error + string" where
  "json_get_text j k = bindE (json_get j k) json_text"

definition spec_from_json :: "json \<Rightarrow> proof_error + subgoal_spec" where
  "spec_from_json data =
     bindE (json_get_text data ''name'') (\<lambda>n.
     bindE (json_get_text data ''identity'') (\<lambda>i.
     bindE (json_get_text data ''signature'') (\<lambda>s.
       Inr \<lparr>sp_name = n, sp_identity = i, sp_signature = s\<rparr>)))"

definition sketch_from_json :: "json \<Rightarrow> proof_error + sketch" where
  "sketch_from_json data =
     bindE (json_get_text data ''parent_name'') (\<lambda>pn.
     bindE (json_get_text data ''parent_signature'') (\<lambda>ps.
     bindE (json_get_text data ''parent_body'') (\<lambda>pb.
     bindE (bindE (json_get data ''subgoals'') json_items) (\<lambda>items.
     bindE (mapE spec_from_json items) (\<lambda>specs.
     bindE (case json_get data ''preamble'' of Inl _ \<Rightarrow> Inr [] | Inr v \<Rightarrow> json_text v) (\<lambda>pre.
       Inr \<lparr>sk_parent_name = pn, sk_parent_signature = ps, sk_parent_body = pb,
            sk_subgoals = specs, sk_preamble = pre\<rparr>))))))"

section \<open>Layout as a Lean file\<close>

record rendered_sketch =
  r_text :: string
  declaration_lines :: "(string \<times> nat) list"

text \<open>The inner \<open>emit\<close>: the lines so far and the line each declaration starts on.\<close>

definition emit ::
  "string \<Rightarrow> string \<Rightarrow> string \<Rightarrow> string list \<times> (string \<times> nat) list
     \<Rightarrow> string list \<times> (string \<times> nat) list" where
  "emit name signature body st =
     (let (lns, decls) = st;
          decls' = AList.update name (length lns + 1) decls;
          new = (if CHR 0x0A \<in> set body then (signature @ '' :='') # splitlines body
                 else [signature @ '' := '' @ body])
      in (lns @ new @ [[]], decls'))"

definition emit_subgoals ::
  "(string \<rightharpoonup> string) \<Rightarrow> string list \<Rightarrow> subgoal_spec list
     \<Rightarrow> string list \<times> (string \<times> nat) list \<Rightarrow> string list \<times> (string \<times> nat) list" where
  "emit_subgoals bodies omitted specs st =
     foldl (\<lambda>st spec. if sp_name spec \<in> set omitted then st
       else emit (sp_name spec) (sp_signature spec)
         (case bodies (sp_name spec) of None \<Rightarrow> ''sorry'' | Some b \<Rightarrow> b) st) st specs"

definition preamble_lines :: "bool \<Rightarrow> sketch \<Rightarrow> string list" where
  "preamble_lines preamble sk =
     (if preamble \<and> sk_preamble sk \<noteq> [] then splitlines (sk_preamble sk) @ [[]] else [])"

definition render ::
  "sketch \<Rightarrow> (string \<rightharpoonup> string) \<Rightarrow> bool \<Rightarrow> string list \<Rightarrow> rendered_sketch" where
  "render sk bodies preamble omitted =
     (let (lns, decls) = emit (sk_parent_name sk) (sk_parent_signature sk) (sk_parent_body sk)
            (emit_subgoals bodies omitted (sk_subgoals sk) (preamble_lines preamble sk, []))
      in \<lparr>r_text = rstrip (join nl lns) @ nl, declaration_lines = decls\<rparr>)"

section \<open>Reading the compiler's output\<close>

text \<open>\<open>ERROR_RE.search\<close>: \<open>: error:\<close> or the tagged \<open>: error(tag):\<close>.\<close>

definition error_here :: "string \<Rightarrow> bool" where
  "error_here s \<longleftrightarrow> s \<noteq> [] \<and> hd s = CHR '':'' \<and>
     (let u = dropWhile py_space (tl s); v = drop 5 u
      in startswith u ''error'' \<and>
         (startswith v '':'' \<or>
          startswith v ''('' \<and> startswith (dropWhile (\<lambda>c. c \<noteq> CHR '')'') (tl v)) ''):''))"

fun error_search :: "string \<Rightarrow> bool" where
  "error_search [] = False"
| "error_search (c # cs) = (error_here (c # cs) \<or> error_search cs)"

text \<open>
  \<open>_SORRY_RE\<close> at the head of the output: the digits of the line, and what follows the match.
\<close>

definition sorry_here :: "string \<Rightarrow> (string \<times> string) option" where
  "sorry_here s =
     (if s = [] \<or> hd s \<noteq> CHR '':'' then None
      else let d1 = takeWhile is_digit (tl s); s1 = dropWhile is_digit (tl s) in
        if d1 = [] \<or> s1 = [] \<or> hd s1 \<noteq> CHR '':'' then None
        else let d2 = takeWhile is_digit (tl s1); s2 = dropWhile is_digit (tl s1) in
          if d2 = [] \<or> s2 = [] \<or> hd s2 \<noteq> CHR '':'' then None
          else let s3 = dropWhile py_space (tl s2) in
            if startswith s3 ''warning: declaration uses''
            then Some (d1, drop (length ''warning: declaration uses'') s3) else None)"

text \<open>
  \<open>finditer\<close>: the matches from left to right. What follows a match is shorter than what it
  started at, so the length of the text is fuel enough.
\<close>

fun sorry_matches :: "nat \<Rightarrow> string \<Rightarrow> string list" where
  "sorry_matches 0 s = []"
| "sorry_matches (Suc n) [] = []"
| "sorry_matches (Suc n) (c # cs) =
     (case sorry_here (c # cs) of
        Some (d, rest) \<Rightarrow> d # sorry_matches n rest
      | None \<Rightarrow> sorry_matches n cs)"

definition sorry_line_texts :: "string \<Rightarrow> string list" where
  "sorry_line_texts output = sorry_matches (length output) output"

section \<open>The validator\<close>

definition name_of_line :: "(string \<times> nat) list \<Rightarrow> string \<Rightarrow> string" where
  "name_of_line decls d =
     (case map_of (rev (map (\<lambda>(n, l). (l, n)) decls)) (digits_nat d) of
        Some n \<Rightarrow> n
      | None \<Rightarrow> ''<line '' @ d @ ''>'')"

definition error_lines :: "string \<Rightarrow> string" where
  "error_lines output = join nl (filter error_search (splitlines output))"

definition validate_sketch ::
  "(string \<Rightarrow> (int \<times> string) option) \<Rightarrow> goal \<Rightarrow> sketch \<Rightarrow> validation option" where
  "validate_sketch compile g sk =
     (if strip (sk_parent_signature sk) \<noteq> strip (g_statement g)
      then Some \<lparr>v_ok = False,
        v_reason = ''the sketch closes a different proposition than the goal''\<rparr>
      else let rendered = render sk Map.empty True [] in
        case compile (r_text rendered) of
          None \<Rightarrow> None
        | Some (returncode, output) \<Rightarrow>
            if returncode \<noteq> 0
            then Some \<lparr>v_ok = False, v_reason = take 2000
              (''the sketch does not compile:'' @ nl @
               (if error_lines output \<noteq> [] then error_lines output else output))\<rparr>
            else let with_sorry = map (name_of_line (declaration_lines rendered))
                       (sorry_line_texts output);
                     expected = remdups (map sp_name (sk_subgoals sk));
                     unexpected = filter (\<lambda>n. n \<notin> set expected) with_sorry in
              if sk_parent_name sk \<in> set with_sorry
              then Some \<lparr>v_ok = False, v_reason =
                ''the parent body still contains `sorry`: this sketch moves the goal rather than reducing it''\<rparr>
              else if unexpected \<noteq> []
              then Some \<lparr>v_ok = False, v_reason =
                ''`sorry` outside the proposed lemmas: '' @ py_repr_list (sorted_set unexpected)\<rparr>
              else Some \<lparr>v_ok = True, v_reason =
                nat_str (length expected) @ '' lemmas, parent closed''\<rparr>)"

section \<open>JSON round trip\<close>

lemma spec_from_to_json [simp]: "spec_from_json (spec_to_json s) = Inr s"
  by (simp add: spec_from_json_def spec_to_json_def json_get_text_def)

lemma sketch_from_to_json [simp]: "sketch_from_json (sketch_to_json s) = Inr s"
proof -
  have "mapE spec_from_json (map spec_to_json (sk_subgoals s)) = Inr (sk_subgoals s)"
    by (induction "sk_subgoals s" arbitrary: s) (auto simp: mapE_Inr_iff list_all2_conv_all_nth)
  then show ?thesis
    by (simp add: sketch_from_json_def sketch_to_json_def json_get_text_def)
qed

text \<open>
  A sketch written to the database and read back is the same sketch: \<open>from_json\<close> undoes
  \<open>to_json\<close>, the proposed lemmas and their order included.
\<close>

theorem sketch_json_roundtrip: "sketch_from_json (sketch_to_json s) = Inr s"
  by simp

end
