(* ===== verification/GraphStore.thy ===== *)
theory GraphStore
  imports GraphScope Sketch
begin

text \<open>
  \<open>proof/store.py\<close>: the SQLite tables of the proof graph as lists of rows, and every query and
  write over them. An operation that writes answers the store afterwards with its result; a
  transaction that fails leaves the tables as they were. Ids are drawn from the stream \<open>u\<close> of
  random texts (\<open>uuid4().hex[:12]\<close>), of which the store record counts the draws; the clock is an
  argument.
\<close>

section \<open>Tables\<close>

text \<open>A row of \<open>decompositions\<close>: the sketch is the JSON value, \<open>None\<close> for the empty text.\<close>

record dec_row =
  r_id :: string
  r_goal_id :: string
  r_status :: decomposition_status
  r_reason :: string
  r_sketch :: "json option"
  r_created_at :: real

record envelope_row =
  e_hash :: string
  e_json :: string
  e_candidate_sha256 :: string
  e_candidate_path :: "string option"
  e_created_at :: real

text \<open>\<open>st_edges\<close> holds (decomposition, ordinal, subgoal), \<open>st_roots\<close> (goal, label).\<close>

record graph_store =
  st_goals :: "goal list"
  st_decs :: "dec_row list"
  st_edges :: "(string \<times> nat \<times> string) list"
  st_attempts :: "attempt list"
  st_certs :: "certification list"
  st_roots :: "(string \<times> string) list"
  st_envelopes :: "envelope_row list"
  st_scope :: "(string \<times> scope_val) list option"
  st_draws :: nat

definition empty_store :: graph_store where
  "empty_store = \<lparr>st_goals = [], st_decs = [], st_edges = [], st_attempts = [], st_certs = [],
     st_roots = [], st_envelopes = [], st_scope = None, st_draws = 0\<rparr>"

definition goal_ids :: "graph_store \<Rightarrow> string set" where
  "goal_ids s = g_id ` set (st_goals s)"

definition new_id :: "(nat \<Rightarrow> string) \<Rightarrow> string \<Rightarrow> graph_store \<Rightarrow> string \<times> graph_store" where
  "new_id u pfx s = (pfx @ ''_'' @ u (st_draws s), s\<lparr>st_draws := Suc (st_draws s)\<rparr>)"

text \<open>Opening a graph settles its scope; nothing else of the tables changes.\<close>

definition open_store ::
  "graph_store \<Rightarrow> graph_scope option \<Rightarrow> bool \<Rightarrow> scope_error + (graph_store \<times> graph_scope option)"
  where
  "open_store s wanted adopt =
     bindE (settle_scope (st_scope s) (length (st_goals s)) wanted adopt) (\<lambda>(settled, row).
       Inr (s\<lparr>st_scope := row\<rparr>, settled))"

section \<open>Goals\<close>

definition new_goal :: "string \<Rightarrow> string \<Rightarrow> string \<Rightarrow> real \<Rightarrow> goal" where
  "new_goal gid identity statement now =
     \<lparr>g_id = gid, g_identity = identity, g_statement = statement, g_status = GOpen,
      g_exhausted_at_budget = None, g_exhausted_at_solver = None, g_lease_owner = None,
      g_lease_expires_at = None, g_lease_run_dir = None, g_created_at = now\<rparr>"

text \<open>
  \<open>INSERT INTO goals \<dots> ON CONFLICT(identity) DO NOTHING\<close>: the conflict clause is looked at
  first, then the primary key.
\<close>

definition insert_goal ::
  "string \<Rightarrow> string \<Rightarrow> string \<Rightarrow> real \<Rightarrow> graph_store \<Rightarrow> proof_error + graph_store" where
  "insert_goal gid identity statement now s =
     (if identity \<in> g_identity ` set (st_goals s) then Inr s
      else if gid \<in> goal_ids s then Inl (IntegrityError ''goals.id'')
      else Inr (s\<lparr>st_goals := st_goals s @ [new_goal gid identity statement now]\<rparr>))"

definition get_goal :: "graph_store \<Rightarrow> string \<Rightarrow> proof_error + goal" where
  "get_goal s gid =
     (case row_of g_id gid (st_goals s) of None \<Rightarrow> Inl (KeyError gid) | Some g \<Rightarrow> Inr g)"

definition goal_by_identity :: "graph_store \<Rightarrow> string \<Rightarrow> goal option" where
  "goal_by_identity s identity = row_of g_identity identity (st_goals s)"

definition upsert_goal ::
  "(nat \<Rightarrow> string) \<Rightarrow> real \<Rightarrow> string \<Rightarrow> string \<Rightarrow> graph_store
     \<Rightarrow> graph_store \<times> (proof_error + goal)" where
  "upsert_goal u now identity statement s =
     (let (gid, s1) = new_id u ''goal'' s in
      case insert_goal gid identity statement now s1 of
        Inl e \<Rightarrow> (s1, Inl e)
      | Inr s2 \<Rightarrow> (case goal_by_identity s2 identity of
            None \<Rightarrow> (s2, Inl (GraphError ''the insert guarantees a row''))
          | Some g \<Rightarrow> (s2, Inr g)))"

definition open_goals :: "graph_store \<Rightarrow> goal list" where
  "open_goals s = sort_key g_created_at (filter (\<lambda>g. g_status g = GOpen) (st_goals s))"

definition add_root :: "string \<Rightarrow> string \<Rightarrow> graph_store \<Rightarrow> proof_error + graph_store" where
  "add_root gid label s =
     (if gid \<notin> goal_ids s then Inl (IntegrityError ''roots.goal_id'')
      else Inr (s\<lparr>st_roots := filter (\<lambda>r. fst r \<noteq> gid) (st_roots s) @ [(gid, label)]\<rparr>))"

section \<open>Decompositions\<close>

definition row_dec :: "graph_store \<Rightarrow> dec_row \<Rightarrow> decomposition" where
  "row_dec s r =
     \<lparr>d_id = r_id r, d_goal_id = r_goal_id r,
      d_subgoal_ids = map (\<lambda>(_, _, g). g)
        (sort_key (\<lambda>(_, i, _). i) (filter (\<lambda>(d, _, _). d = r_id r) (st_edges s))),
      d_status = r_status r, d_rejected_reason = r_reason r\<rparr>"

lemma row_dec_simps [simp]:
  "d_id (row_dec s r) = r_id r"
  "d_goal_id (row_dec s r) = r_goal_id r"
  "d_status (row_dec s r) = r_status r"
  "d_rejected_reason (row_dec s r) = r_reason r"
  by (simp_all add: row_dec_def)

definition get_decomposition :: "graph_store \<Rightarrow> string \<Rightarrow> proof_error + decomposition" where
  "get_decomposition s did =
     (case row_of r_id did (st_decs s) of
        None \<Rightarrow> Inl (KeyError did) | Some r \<Rightarrow> Inr (row_dec s r))"

text \<open>
  The queries for ids are followed by \<open>self.decomposition(id)\<close>, which finds the row the id came
  from: ids are a primary key.
\<close>

definition decompositions_of :: "graph_store \<Rightarrow> string \<Rightarrow> decomposition list" where
  "decompositions_of s gid =
     map (row_dec s) (sort_key r_created_at (filter (\<lambda>r. r_goal_id r = gid) (st_decs s)))"

definition sketch_of :: "graph_store \<Rightarrow> string \<Rightarrow> proof_error + sketch option" where
  "sketch_of s did =
     (case row_of r_id did (st_decs s) of
        None \<Rightarrow> Inl (KeyError did)
      | Some r \<Rightarrow> (case r_sketch r of
            None \<Rightarrow> Inr None
          | Some j \<Rightarrow> bindE (sketch_from_json j) (\<lambda>sk. Inr (Some sk))))"

definition decompositions_containing :: "graph_store \<Rightarrow> string \<Rightarrow> proof_error + decomposition list"
  where
  "decompositions_containing s gid =
     mapE (get_decomposition s)
       (distinct_rows (map fst (filter (\<lambda>(_, _, g). g = gid) (st_edges s))))"

definition proposed_decompositions :: "graph_store \<Rightarrow> decomposition list" where
  "proposed_decompositions s =
     map (row_dec s) (sort_key r_created_at (filter (\<lambda>r. r_status r = DProposed) (st_decs s)))"

definition set_decomposition_status ::
  "string \<Rightarrow> decomposition_status \<Rightarrow> string \<Rightarrow> graph_store \<Rightarrow> graph_store" where
  "set_decomposition_status did status reason s =
     s\<lparr>st_decs := upd_rows r_id did (\<lambda>r. r\<lparr>r_status := status, r_reason := reason\<rparr>) (st_decs s)\<rparr>"

section \<open>The shape of the graph\<close>

definition parents_of :: "graph_store \<Rightarrow> string \<Rightarrow> string list" where
  "parents_of s gid =
     distinct_rows (concat (map (\<lambda>(did, _, _).
         map r_goal_id (filter (\<lambda>r. r_id r = did) (st_decs s)))
       (filter (\<lambda>(_, _, g). g = gid) (st_edges s))))"

text \<open>
  \<open>ancestor_identities\<close>: the inner \<open>for\<close> over the parents of one goal, then the \<open>while\<close>.
  The frontier is a stack whose top is the end of the list.
\<close>

fun visit_parents ::
  "graph_store \<Rightarrow> string list \<Rightarrow> string list \<Rightarrow> string set
     \<Rightarrow> proof_error + (string list \<times> string set)" where
  "visit_parents s [] frontier seen = Inr (frontier, seen)"
| "visit_parents s (p # ps) frontier seen =
     bindE (get_goal s p) (\<lambda>parent.
       if g_identity parent \<in> seen then visit_parents s ps frontier seen
       else visit_parents s ps (frontier @ [p]) (insert (g_identity parent) seen))"

lemma get_goal_Inr_iff: "get_goal s gid = Inr g \<longleftrightarrow> row_of g_id gid (st_goals s) = Some g"
  by (auto simp: get_goal_def split: option.splits)

lemma get_goal_InrD: "get_goal s gid = Inr g \<Longrightarrow> g \<in> set (st_goals s) \<and> g_id g = gid"
  by (auto simp: get_goal_Inr_iff dest: row_of_SomeD)

lemma visit_parents_progress:
  assumes "visit_parents s ps frontier seen = Inr (frontier', seen')"
  shows "seen \<subseteq> seen' \<and> seen' \<subseteq> seen \<union> g_identity ` set (st_goals s)
    \<and> (seen' = seen \<longrightarrow> frontier' = frontier)"
  using assms
proof (induction ps arbitrary: frontier seen)
  case (Cons p ps)
  then obtain parent where p: "get_goal s p = Inr parent"
    by (auto simp: bindE_Inr_iff)
  show ?case
  proof (cases "g_identity parent \<in> seen")
    case True
    with Cons.prems p have "visit_parents s ps frontier seen = Inr (frontier', seen')"
      by simp
    then show ?thesis by (rule Cons.IH)
  next
    case False
    with Cons.prems p Cons.IH [of "frontier @ [p]" "insert (g_identity parent) seen"]
    show ?thesis
      by (auto dest: get_goal_InrD)
  qed
qed simp

function ancestors_loop ::
  "graph_store \<Rightarrow> string list \<Rightarrow> string set \<Rightarrow> proof_error + string set" where
  "ancestors_loop s frontier seen =
     (if frontier = [] then Inr seen
      else bindE (visit_parents s (parents_of s (last frontier)) (butlast frontier) seen)
        (\<lambda>st. ancestors_loop s (fst st) (snd st)))"
  by pat_completeness auto
termination
proof (relation "measures [\<lambda>(s, frontier, seen). card (g_identity ` set (st_goals s) - seen),
    \<lambda>(s, frontier, seen). length frontier]", goal_cases)
  case 1
  then show ?case by simp
next
  case (2 s frontier seen st)
  let ?ids = "g_identity ` set (st_goals s)"
  from 2(2) have v: "visit_parents s (parents_of s (last frontier)) (butlast frontier) seen
      = Inr (fst st, snd st)" by simp
  note p = visit_parents_progress [OF v]
  show ?case
  proof (cases "snd st = seen")
    case True
    with p 2(1) show ?thesis by (cases st) simp
  next
    case False
    with p have "?ids - snd st \<subset> ?ids - seen" by blast
    then have "card (?ids - snd st) < card (?ids - seen)"
      by (intro psubset_card_mono) auto
    then show ?thesis by (cases st) simp
  qed
qed

declare ancestors_loop.simps [simp del]

definition ancestor_identities :: "graph_store \<Rightarrow> string \<Rightarrow> proof_error + string set" where
  "ancestor_identities s gid = ancestors_loop s [gid] {}"

text \<open>\<open>reachable_from\<close>: the two inner loops over the subgoals of one goal, then the \<open>while\<close>.\<close>

fun visit_subgoals :: "string list \<Rightarrow> string list \<Rightarrow> string set \<Rightarrow> string list \<times> string set" where
  "visit_subgoals [] frontier seen = (frontier, seen)"
| "visit_subgoals (g # gs) frontier seen =
     (if g \<notin> seen then visit_subgoals gs (frontier @ [g]) (insert g seen)
      else visit_subgoals gs frontier seen)"

definition subgoals_of :: "graph_store \<Rightarrow> string \<Rightarrow> string list" where
  "subgoals_of s gid = concat (map d_subgoal_ids (decompositions_of s gid))"

lemma visit_subgoals_progress:
  "seen \<subseteq> snd (visit_subgoals gs frontier seen)
   \<and> snd (visit_subgoals gs frontier seen) \<subseteq> seen \<union> set gs
   \<and> (snd (visit_subgoals gs frontier seen) = seen \<longrightarrow>
        fst (visit_subgoals gs frontier seen) = frontier)"
proof (induction gs arbitrary: frontier seen)
  case (Cons g gs)
  show ?case
    using Cons [where frontier = frontier and seen = seen]
      Cons [where frontier = "frontier @ [g]" and seen = "insert g seen"] by auto
qed simp

lemma subgoals_of_edges: "set (subgoals_of s gid) \<subseteq> (\<lambda>(_, _, g). g) ` set (st_edges s)"
  by (force simp: subgoals_of_def decompositions_of_def row_dec_def)

function reachable_loop :: "graph_store \<Rightarrow> string list \<Rightarrow> string set \<Rightarrow> string set" where
  "reachable_loop s frontier seen =
     (if frontier = [] then seen
      else reachable_loop s
        (fst (visit_subgoals (subgoals_of s (last frontier)) (butlast frontier) seen))
        (snd (visit_subgoals (subgoals_of s (last frontier)) (butlast frontier) seen)))"
  by pat_completeness auto
termination
proof (relation "measures [\<lambda>(s, frontier, seen).
    card ((\<lambda>(_, _, g). g) ` set (st_edges s) - seen),
    \<lambda>(s, frontier, seen). length frontier]", goal_cases)
  case 1
  then show ?case by simp
next
  case (2 s frontier seen)
  let ?ids = "(\<lambda>(_, _, g). g) ` set (st_edges s)"
  let ?v = "visit_subgoals (subgoals_of s (last frontier)) (butlast frontier) seen"
  have p: "seen \<subseteq> snd ?v" "snd ?v \<subseteq> seen \<union> ?ids" "snd ?v = seen \<longrightarrow> fst ?v = butlast frontier"
    using visit_subgoals_progress [of seen "subgoals_of s (last frontier)" "butlast frontier"]
      subgoals_of_edges [of s "last frontier"] by auto
  show ?case
  proof (cases "snd ?v = seen")
    case True
    with p 2 show ?thesis by simp
  next
    case False
    with p have "?ids - snd ?v \<subset> ?ids - seen" by blast
    then have "card (?ids - snd ?v) < card (?ids - seen)"
      by (intro psubset_card_mono) auto
    then show ?thesis by (simp add: split_beta)
  qed
qed

declare reachable_loop.simps [simp del]

definition reachable_from :: "graph_store \<Rightarrow> string \<Rightarrow> string set" where
  "reachable_from s gid = reachable_loop s [gid] {gid}"

section \<open>Adding a decomposition\<close>

text \<open>The loop over the proposed subgoals: insert or reuse the row, remember its id.\<close>

fun insert_subgoals ::
  "(nat \<Rightarrow> string) \<Rightarrow> real \<Rightarrow> (string \<times> string) list \<Rightarrow> graph_store
     \<Rightarrow> graph_store \<times> (proof_error + string list)" where
  "insert_subgoals u now [] s = (s, Inr [])"
| "insert_subgoals u now ((identity, statement) # subs) s =
     (let (gid, s1) = new_id u ''goal'' s in
      case insert_goal gid identity statement now s1 of
        Inl e \<Rightarrow> (s1, Inl e)
      | Inr s2 \<Rightarrow>
          (case goal_by_identity s2 identity of
             None \<Rightarrow> (s2, Inl (GraphError ''the insert guarantees a row''))
           | Some g \<Rightarrow>
               (case insert_subgoals u now subs s2 of
                  (s3, Inl e) \<Rightarrow> (s3, Inl e)
                | (s3, Inr ids) \<Rightarrow> (s3, Inr (g_id g # ids)))))"

text \<open>
  \<open>add_decomposition\<close> in its two parts: the checks, which only read, and the transaction that
  writes. The checks run before the transaction begins.
\<close>

definition check_decomposition ::
  "string \<Rightarrow> (string \<times> string) list \<Rightarrow> graph_store \<Rightarrow> proof_error + unit" where
  "check_decomposition gid subgoals s =
     (if subgoals = []
      then Inl (ValueError ''a decomposition with no subgoals would complete vacuously'')
      else bindE (get_goal s gid) (\<lambda>parent.
        bindE (ancestor_identities s gid) (\<lambda>anc.
          check_acyclic (anc \<union> {g_identity parent}) (map fst subgoals))))"

definition write_decomposition ::
  "(nat \<Rightarrow> string) \<Rightarrow> real \<Rightarrow> string \<Rightarrow> (string \<times> string) list \<Rightarrow> sketch option
     \<Rightarrow> decomposition_status \<Rightarrow> graph_store \<Rightarrow> graph_store \<times> (proof_error + decomposition)" where
  "write_decomposition u now gid subgoals sk status s =
     (let (did, s1) = new_id u ''dec'' s in
      case insert_subgoals u now subgoals s1 of
        (s2, Inl e) \<Rightarrow> (s\<lparr>st_draws := st_draws s2\<rparr>, Inl e)
      | (s2, Inr ids) \<Rightarrow>
          if did \<in> r_id ` set (st_decs s2)
          then (s\<lparr>st_draws := st_draws s2\<rparr>, Inl (IntegrityError ''decompositions.id''))
          else if gid \<notin> goal_ids s2
          then (s\<lparr>st_draws := st_draws s2\<rparr>, Inl (IntegrityError ''decompositions.goal_id''))
          else let s3 = s2\<lparr>
              st_decs := st_decs s2 @ [\<lparr>r_id = did, r_goal_id = gid, r_status = status,
                r_reason = [], r_sketch = map_option sketch_to_json sk, r_created_at = now\<rparr>],
              st_edges := st_edges s2 @ map (Pair did) (enumerate 0 ids)\<rparr>
            in (s3, get_decomposition s3 did))"

definition add_decomposition ::
  "(nat \<Rightarrow> string) \<Rightarrow> real \<Rightarrow> string \<Rightarrow> (string \<times> string) list \<Rightarrow> sketch option
     \<Rightarrow> decomposition_status \<Rightarrow> graph_store \<Rightarrow> graph_store \<times> (proof_error + decomposition)" where
  "add_decomposition u now gid subgoals sk status s =
     (case check_decomposition gid subgoals s of
        Inl e \<Rightarrow> (s, Inl e)
      | Inr _ \<Rightarrow> write_decomposition u now gid subgoals sk status s)"

section \<open>Attempts, certifications, envelopes\<close>

definition record_attempt ::
  "(nat \<Rightarrow> string) \<Rightarrow> real \<Rightarrow> string \<Rightarrow> outcome \<Rightarrow> string option \<Rightarrow> string option \<Rightarrow> string option
     \<Rightarrow> real \<Rightarrow> string \<Rightarrow> graph_store \<Rightarrow> graph_store \<times> (proof_error + attempt)" where
  "record_attempt u now gid res proof_text run_dir evidence cost note s =
     (let (aid, s1) = new_id u ''att'' s;
          row = \<lparr>a_id = aid, a_goal_id = gid, a_outcome = res, a_proof_text = proof_text,
                 a_run_dir = run_dir, a_evidence_ref = evidence, a_cost = cost, a_note = note,
                 a_created_at = now\<rparr> in
      if aid \<in> a_id ` set (st_attempts s1) then (s1, Inl (IntegrityError ''attempts.id''))
      else if gid \<notin> goal_ids s1 then (s1, Inl (IntegrityError ''attempts.goal_id''))
      else (s1\<lparr>st_attempts := st_attempts s1 @ [row]\<rparr>, Inr row))"

definition total_cost :: "graph_store \<Rightarrow> real" where
  "total_cost s = sum_list (map a_cost (st_attempts s))"

definition attempts_of :: "graph_store \<Rightarrow> string \<Rightarrow> attempt list" where
  "attempts_of s gid = sort_key a_created_at (filter (\<lambda>a. a_goal_id a = gid) (st_attempts s))"

definition record_certification ::
  "(nat \<Rightarrow> string) \<Rightarrow> real \<Rightarrow> string \<Rightarrow> bool \<Rightarrow> string list \<Rightarrow> string \<Rightarrow> string \<Rightarrow> string option
     \<Rightarrow> string option \<Rightarrow> graph_store \<Rightarrow> graph_store \<times> (proof_error + certification)" where
  "record_certification u now gid ok axioms reason text_sha did trust s =
     (let (cid, s1) = new_id u ''cert'' s;
          row = \<lparr>c_id = cid, c_goal_id = gid, c_ok = ok, c_axioms = sorted_set axioms,
                 c_reason = reason, c_text_sha256 = text_sha, c_decomposition_id = did,
                 c_trust = trust, c_created_at = now\<rparr> in
      if cid \<in> c_id ` set (st_certs s1) then (s1, Inl (IntegrityError ''certifications.id''))
      else if gid \<notin> goal_ids s1 then (s1, Inl (IntegrityError ''certifications.goal_id''))
      else (s1\<lparr>st_certs := st_certs s1 @ [row]\<rparr>, Inr row))"

definition certifications_of :: "graph_store \<Rightarrow> string \<Rightarrow> certification list" where
  "certifications_of s gid = sort_key c_created_at (filter (\<lambda>c. c_goal_id c = gid) (st_certs s))"

definition latest_certification :: "graph_store \<Rightarrow> string \<Rightarrow> certification option" where
  "latest_certification s gid =
     (let certs = certifications_of s gid in if certs \<noteq> [] then Some (last certs) else None)"

text \<open>An envelope as its hash, its canonical text and the hash of the candidate file.\<close>

definition record_envelope ::
  "real \<Rightarrow> string \<Rightarrow> string \<Rightarrow> string \<Rightarrow> string option \<Rightarrow> graph_store
     \<Rightarrow> graph_store \<times> (proof_error + string)" where
  "record_envelope now digest text candidate_sha path s =
     (let s1 = (if digest \<in> e_hash ` set (st_envelopes s) then s
          else s\<lparr>st_envelopes := st_envelopes s @ [\<lparr>e_hash = digest, e_json = text,
            e_candidate_sha256 = candidate_sha, e_candidate_path = path, e_created_at = now\<rparr>]\<rparr>)
      in case row_of e_hash digest (st_envelopes s1) of
           None \<Rightarrow> (s1, Inl (GraphError ''the insert guarantees a row''))
         | Some r \<Rightarrow>
             if e_json r \<noteq> text
             then (s1, Inl (GraphError (''envelope '' @ digest @ '' is already stored with different content'')))
             else (s1, Inr digest))"

section \<open>Leases\<close>

definition claimable :: "real \<Rightarrow> goal \<Rightarrow> bool" where
  "claimable now g \<longleftrightarrow> g_lease_owner g = None \<or>
     (case g_lease_expires_at g of None \<Rightarrow> True | Some t \<Rightarrow> t \<le> now)"

text \<open>The conditional \<open>UPDATE\<close> and whether it touched exactly one row.\<close>

definition claim :: "string \<Rightarrow> string \<Rightarrow> real \<Rightarrow> real \<Rightarrow> graph_store \<Rightarrow> graph_store \<times> bool" where
  "claim gid owner ttl now s =
     (let hit = (\<lambda>g. g_id g = gid \<and> claimable now g) in
      (s\<lparr>st_goals := map (\<lambda>g. if hit g then g\<lparr>g_lease_owner := Some owner,
           g_lease_expires_at := Some (now + ttl), g_lease_run_dir := None\<rparr> else g) (st_goals s)\<rparr>,
       length (filter hit (st_goals s)) = 1))"

definition stale_leases :: "real \<Rightarrow> graph_store \<Rightarrow> goal list" where
  "stale_leases now s = sort_key g_created_at (filter (\<lambda>g. g_lease_owner g \<noteq> None \<and>
     (case g_lease_expires_at g of None \<Rightarrow> False | Some t \<Rightarrow> t \<le> now)) (st_goals s))"

definition note_attempt_dir :: "string \<Rightarrow> string \<Rightarrow> graph_store \<Rightarrow> graph_store" where
  "note_attempt_dir gid run_dir s =
     s\<lparr>st_goals := upd_rows g_id gid (\<lambda>g. g\<lparr>g_lease_run_dir := Some run_dir\<rparr>) (st_goals s)\<rparr>"

definition drop_lease :: "goal \<Rightarrow> goal" where
  "drop_lease g = g\<lparr>g_lease_owner := None, g_lease_expires_at := None, g_lease_run_dir := None\<rparr>"

definition force_release :: "string \<Rightarrow> graph_store \<Rightarrow> graph_store" where
  "force_release gid s = s\<lparr>st_goals := upd_rows g_id gid drop_lease (st_goals s)\<rparr>"

definition release :: "string \<Rightarrow> string \<Rightarrow> graph_store \<Rightarrow> graph_store" where
  "release gid owner s =
     s\<lparr>st_goals := map (\<lambda>g. if g_id g = gid \<and> g_lease_owner g = Some owner then drop_lease g else g)
       (st_goals s)\<rparr>"

end
