(* ===== verification/GraphShape.thy ===== *)
theory GraphShape
  imports GraphStore
begin

text \<open>
  The shape of the stored graph: what the primary keys, unique and foreign keys of the schema
  promise (\<open>well_formed\<close>), the parent-child relation of the goals, the two worklist searches over
  it, and acyclicity. Both searches are instances of one interface, the exploration of a finite
  graph from a frontier.
\<close>

section \<open>Well-formed stores\<close>

definition well_formed :: "graph_store \<Rightarrow> bool" where
  "well_formed s \<longleftrightarrow>
     distinct (map g_id (st_goals s)) \<and>
     distinct (map g_identity (st_goals s)) \<and>
     distinct (map r_id (st_decs s)) \<and>
     r_goal_id ` set (st_decs s) \<subseteq> goal_ids s \<and>
     (\<forall>(d, i, g) \<in> set (st_edges s). d \<in> r_id ` set (st_decs s) \<and> g \<in> goal_ids s) \<and>
     r_id ` set (st_decs s) \<subseteq> fst ` set (st_edges s) \<and>
     a_goal_id ` set (st_attempts s) \<subseteq> goal_ids s \<and>
     c_goal_id ` set (st_certs s) \<subseteq> goal_ids s \<and>
     fst ` set (st_roots s) \<subseteq> goal_ids s"

definition child_rel :: "graph_store \<Rightarrow> (string \<times> string) set" where
  "child_rel s = {(p, c). \<exists>r i. r \<in> set (st_decs s) \<and> r_goal_id r = p
     \<and> (r_id r, i, c) \<in> set (st_edges s)}"

definition identity_of :: "graph_store \<Rightarrow> string \<Rightarrow> string" where
  "identity_of s gid = (case row_of g_id gid (st_goals s) of None \<Rightarrow> [] | Some g \<Rightarrow> g_identity g)"

lemma well_formed_empty [simp]: "well_formed empty_store"
  by (simp add: well_formed_def empty_store_def)

lemma wf_distinct:
  assumes "well_formed s"
  shows "distinct (map g_id (st_goals s))" "distinct (map g_identity (st_goals s))"
    "distinct (map r_id (st_decs s))"
  using assms by (simp_all add: well_formed_def)

lemma wf_get_goal: "gid \<in> goal_ids s \<Longrightarrow> \<exists>g. get_goal s gid = Inr g \<and> g_id g = gid"
  unfolding goal_ids_def get_goal_def
  using row_of_exists [of gid g_id "st_goals s"] row_of_SomeD by fastforce

lemma get_goal_ids: "get_goal s gid = Inr g \<Longrightarrow> gid \<in> goal_ids s"
  by (auto simp: goal_ids_def dest: get_goal_InrD)

lemma get_goal_Inl: "gid \<notin> goal_ids s \<Longrightarrow> get_goal s gid = Inl (KeyError gid)"
  by (simp add: get_goal_def goal_ids_def row_of_None_iff [THEN iffD2])

lemma identity_of_get: "get_goal s gid = Inr g \<Longrightarrow> identity_of s gid = g_identity g"
  by (simp add: identity_of_def get_goal_Inr_iff)

lemma identity_of_row: "well_formed s \<Longrightarrow> g \<in> set (st_goals s) \<Longrightarrow> identity_of s (g_id g) = g_identity g"
  by (simp add: identity_of_def row_of_unique wf_distinct)

lemma inj_identity_of: "well_formed s \<Longrightarrow> inj_on (identity_of s) (goal_ids s)"
proof (rule inj_onI)
  fix x y
  assume wf: "well_formed s" and "x \<in> goal_ids s" "y \<in> goal_ids s"
    and eq: "identity_of s x = identity_of s y"
  then obtain a b where ab: "a \<in> set (st_goals s)" "b \<in> set (st_goals s)" "x = g_id a" "y = g_id b"
    by (auto simp: goal_ids_def)
  with eq wf have "g_identity a = g_identity b" by (simp add: identity_of_row)
  with ab wf_distinct(2) [OF wf] have "a = b"
    by (metis row_of_unique option.inject)
  with ab show "x = y" by simp
qed

lemma set_parents_of: "set (parents_of s c) = {p. (p, c) \<in> child_rel s}"
  by (force simp: parents_of_def child_rel_def)

lemma set_row_dec_subgoals: "set (d_subgoal_ids (row_dec s r)) = {c. \<exists>i. (r_id r, i, c) \<in> set (st_edges s)}"
  by (force simp: row_dec_def)

lemma set_decompositions_of:
  "set (decompositions_of s gid) = row_dec s ` {r \<in> set (st_decs s). r_goal_id r = gid}"
  by (auto simp: decompositions_of_def)

lemma set_subgoals_of: "set (subgoals_of s p) = {c. (p, c) \<in> child_rel s}"
  by (auto simp: subgoals_of_def set_decompositions_of set_row_dec_subgoals child_rel_def)

lemma child_rel_nodes:
  "well_formed s \<Longrightarrow> (p, c) \<in> child_rel s \<Longrightarrow> p \<in> goal_ids s \<and> c \<in> goal_ids s"
  by (fastforce simp: well_formed_def child_rel_def)

lemma finite_goal_ids [simp]: "finite (goal_ids s)"
  by (simp add: goal_ids_def)

section \<open>Exploring a graph from a frontier\<close>

text \<open>
  The interface of a worklist search: a state with an invariant, its finite set of nodes, the
  successors of a node, the mark a visited node leaves (nodes have different marks), and the
  search itself, which takes the end of the frontier, marks its unmarked successors and puts them
  on the frontier.
\<close>

locale exploration =
  fixes inv :: "'s \<Rightarrow> bool"
    and nodes :: "'s \<Rightarrow> 'n set"
    and succ :: "'s \<Rightarrow> 'n \<Rightarrow> 'n set"
    and mark :: "'s \<Rightarrow> 'n \<Rightarrow> 'm"
    and search :: "'s \<Rightarrow> 'n list \<Rightarrow> 'm set \<Rightarrow> 'm set option"
  assumes finite_nodes: "finite (nodes s)"
    and succ_nodes: "inv s \<Longrightarrow> n \<in> nodes s \<Longrightarrow> succ s n \<subseteq> nodes s"
    and inj_mark: "inv s \<Longrightarrow> inj_on (mark s) (nodes s)"
    and search_done: "search s [] seen = Some seen"
    and search_step: "inv s \<Longrightarrow> frontier \<noteq> [] \<Longrightarrow> last frontier \<in> nodes s \<Longrightarrow>
      \<exists>new. set new \<subseteq> succ s (last frontier) \<and> mark s ` set new \<inter> seen = {}
        \<and> mark s ` succ s (last frontier) \<subseteq> seen \<union> mark s ` set new
        \<and> search s frontier seen = search s (butlast frontier @ new) (seen \<union> mark s ` set new)"
begin

abbreviation edge_rel :: "'s \<Rightarrow> ('n \<times> 'n) set" where
  "edge_rel s \<equiv> {(a, b). a \<in> nodes s \<and> b \<in> succ s a}"

lemma trancl_nodes: "inv s \<Longrightarrow> (a, b) \<in> (edge_rel s)\<^sup>+ \<Longrightarrow> b \<in> nodes s"
  by (erule tranclE) (use succ_nodes in blast)+

lemma search_finds:
  assumes inv: "inv s" and start: "start \<in> nodes s"
    and base: "B \<subseteq> seen"
    and sound: "\<forall>n \<in> set frontier. n = start \<or> (start, n) \<in> (edge_rel s)\<^sup>+"
      "seen \<subseteq> B \<union> mark s ` {n. (start, n) \<in> (edge_rel s)\<^sup>+}"
    and closure: "\<And>n. n = start \<or> (start, n) \<in> (edge_rel s)\<^sup>+ \<and> mark s n \<in> seen - B \<Longrightarrow>
      n \<in> set frontier \<or> mark s ` succ s n \<subseteq> seen"
    and B: "B \<subseteq> {mark s start}"
  shows "search s frontier seen = Some (B \<union> mark s ` {n. (start, n) \<in> (edge_rel s)\<^sup>+})"
  using base sound closure
proof (induction "(card (mark s ` nodes s - seen), length frontier)" arbitrary: frontier seen
    rule: wf_induct_rule [OF wf_lex_prod [OF wf_less_than wf_less_than]])
  case (1 frontier seen)
  note base = "1.prems"(1) and sound = "1.prems"(2,3) and closure = "1.prems"(4)
  let ?R = "edge_rel s"
  show ?case
  proof (cases "frontier = []")
    case True
    have "mark s n \<in> seen" if "(start, n) \<in> ?R\<^sup>+" for n
      using that
    proof (induction rule: trancl_induct)
      case (base y)
      with closure [of start] True show ?case by auto
    next
      case (step y z)
      show ?case
      proof (cases "mark s y \<in> B")
        case True
        moreover have "y \<in> nodes s" by (rule trancl_nodes [OF inv step.hyps(1)])
        ultimately have "y = start"
          using B start inj_mark [OF inv] by (auto dest: inj_onD)
        with closure [of start] \<open>frontier = []\<close> step show ?thesis by auto
      next
        case False
        with step closure [of y] \<open>frontier = []\<close> show ?thesis by auto
      qed
    qed
    with True base sound(2) show ?thesis
      by (auto simp: search_done)
  next
    case False
    define cur where "cur = last frontier"
    have cur: "cur \<in> set frontier" using False by (simp add: cur_def)
    then have "cur = start \<or> (start, cur) \<in> ?R\<^sup>+"
      using sound(1) by simp
    then have cur_node: "cur \<in> nodes s"
    proof
      assume "(start, cur) \<in> ?R\<^sup>+"
      then show ?thesis by (rule trancl_nodes [OF inv])
    qed (simp add: start)
    then obtain new where new: "set new \<subseteq> succ s cur" "mark s ` set new \<inter> seen = {}"
        "mark s ` succ s cur \<subseteq> seen \<union> mark s ` set new"
        "search s frontier seen = search s (butlast frontier @ new) (seen \<union> mark s ` set new)"
      using search_step [OF inv False] unfolding cur_def by blast
    define frontier' where "frontier' = butlast frontier @ new"
    define seen' where "seen' = seen \<union> mark s ` set new"
    have new_reach: "(start, n) \<in> ?R\<^sup>+" if "n \<in> set new" for n
    proof -
      have step: "(cur, n) \<in> ?R" using that new(1) cur_node by auto
      from sound(1) cur have "cur = start \<or> (start, cur) \<in> ?R\<^sup>+" by simp
      then show ?thesis
      proof
        assume "(start, cur) \<in> ?R\<^sup>+"
        then show ?thesis using step by (rule trancl_into_trancl)
      qed (use step in \<open>blast intro: r_into_trancl\<close>)
    qed
    have frontier_cases: "n \<in> set frontier \<longleftrightarrow> n \<in> set (butlast frontier) \<or> n = cur" for n
      using False unfolding cur_def by (cases frontier rule: rev_cases) auto
    have decr: "((card (mark s ` nodes s - seen'), length frontier'),
        (card (mark s ` nodes s - seen), length frontier)) \<in> less_than <*lex*> less_than"
    proof (cases "new = []")
      case True
      with False show ?thesis by (simp add: seen'_def frontier'_def)
    next
      case notnil: False
      have "set new \<subseteq> nodes s"
        using new(1) succ_nodes [OF inv cur_node] by (rule subset_trans)
      then have sub: "mark s ` set new \<subseteq> mark s ` nodes s" by (rule image_mono)
      have "mark s (hd new) \<in> mark s ` set new" using notnil by simp
      with sub new(2) have "mark s ` nodes s - seen' \<subset> mark s ` nodes s - seen"
        unfolding seen'_def by blast
      then have "card (mark s ` nodes s - seen') < card (mark s ` nodes s - seen)"
        by (intro psubset_card_mono) (simp_all add: finite_nodes)
      then show ?thesis by simp
    qed
    have "search s frontier' seen' = Some (B \<union> mark s ` {n. (start, n) \<in> ?R\<^sup>+})"
    proof (rule "1.hyps" [OF decr])
      show "B \<subseteq> seen'" using base by (auto simp: seen'_def)
      show "\<forall>n \<in> set frontier'. n = start \<or> (start, n) \<in> ?R\<^sup>+"
        using sound(1) new_reach by (auto simp: frontier'_def frontier_cases)
      show "seen' \<subseteq> B \<union> mark s ` {n. (start, n) \<in> ?R\<^sup>+}"
        using sound(2) new_reach by (auto simp: seen'_def)
      fix n
      assume n: "n = start \<or> (start, n) \<in> ?R\<^sup>+ \<and> mark s n \<in> seen' - B"
      then consider "n = start \<or> (start, n) \<in> ?R\<^sup>+ \<and> mark s n \<in> seen - B"
        | "(start, n) \<in> ?R\<^sup>+" "mark s n \<in> mark s ` set new"
        by (auto simp: seen'_def)
      then show "n \<in> set frontier' \<or> mark s ` succ s n \<subseteq> seen'"
      proof cases
        case 1
        then have "n \<in> set frontier \<or> mark s ` succ s n \<subseteq> seen" by (rule closure)
        with new(3) show ?thesis
          by (auto simp: frontier_cases frontier'_def seen'_def)
      next
        case 2
        then obtain m where "m \<in> set new" "mark s n = mark s m" by auto
        moreover have "n \<in> nodes s" by (rule trancl_nodes [OF inv 2(1)])
        moreover have "m \<in> nodes s"
          by (rule trancl_nodes [OF inv new_reach [OF \<open>m \<in> set new\<close>]])
        ultimately have "n \<in> set new" using inj_mark [OF inv] by (auto dest: inj_onD)
        then show ?thesis by (simp add: frontier'_def)
      qed
    qed
    with new(4) show ?thesis by (simp add: seen'_def frontier'_def)
  qed
qed

lemma search_from_unmarked:
  assumes "inv s" and "start \<in> nodes s"
  shows "search s [start] {} = Some (mark s ` {n. (start, n) \<in> (edge_rel s)\<^sup>+})"
  using search_finds [OF assms, of "{}" "{}" "[start]"] by simp

lemma search_from_marked:
  assumes "inv s" and "start \<in> nodes s"
  shows "search s [start] {mark s start} = Some (mark s ` {n. (start, n) \<in> (edge_rel s)\<^sup>*})"
proof -
  have "search s [start] {mark s start}
      = Some ({mark s start} \<union> mark s ` {n. (start, n) \<in> (edge_rel s)\<^sup>+})"
    using search_finds [OF assms, of "{mark s start}" "{mark s start}" "[start]"] by auto
  then show ?thesis
    by (auto simp: rtrancl_eq_or_trancl)
qed

end

section \<open>The two searches of the store\<close>

lemma visit_parents_new:
  assumes "well_formed s" and "set ps \<subseteq> goal_ids s"
  shows "\<exists>new. set new \<subseteq> set ps \<and> identity_of s ` set new \<inter> seen = {}
    \<and> identity_of s ` set ps \<subseteq> seen \<union> identity_of s ` set new
    \<and> visit_parents s ps frontier seen = Inr (frontier @ new, seen \<union> identity_of s ` set new)"
  using assms(2)
proof (induction ps arbitrary: frontier seen)
  case (Cons p ps)
  then have "p \<in> goal_ids s" by simp
  then obtain g where g: "get_goal s p = Inr g" using wf_get_goal by blast
  then have idg: "identity_of s p = g_identity g" by (rule identity_of_get)
  show ?case
  proof (cases "g_identity g \<in> seen")
    case True
    obtain new where "set new \<subseteq> set ps" "identity_of s ` set new \<inter> seen = {}"
        "identity_of s ` set ps \<subseteq> seen \<union> identity_of s ` set new"
        "visit_parents s ps frontier seen = Inr (frontier @ new, seen \<union> identity_of s ` set new)"
      using Cons.IH [of seen frontier] Cons.prems by auto
    with True g idg show ?thesis by (intro exI [of _ new]) auto
  next
    case False
    obtain new where "set new \<subseteq> set ps"
        "identity_of s ` set new \<inter> insert (g_identity g) seen = {}"
        "identity_of s ` set ps \<subseteq> insert (g_identity g) seen \<union> identity_of s ` set new"
        "visit_parents s ps (frontier @ [p]) (insert (g_identity g) seen)
          = Inr ((frontier @ [p]) @ new, insert (g_identity g) seen \<union> identity_of s ` set new)"
      using Cons.IH [of "insert (g_identity g) seen" "frontier @ [p]"] Cons.prems by auto
    note n = this
    show ?thesis
    proof (intro exI [of _ "p # new"] conjI)
      show "set (p # new) \<subseteq> set (p # ps)" using n(1) by auto
      show "identity_of s ` set (p # new) \<inter> seen = {}" using n(2) False by (simp add: idg)
      show "identity_of s ` set (p # ps) \<subseteq> seen \<union> identity_of s ` set (p # new)"
        using n(3) by (simp add: idg)
      show "visit_parents s (p # ps) frontier seen
          = Inr (frontier @ p # new, seen \<union> identity_of s ` set (p # new))"
        using n(4) False g by (simp add: idg)
    qed
  qed
qed auto

lemma visit_subgoals_new:
  "\<exists>new. set new \<subseteq> set gs \<and> set new \<inter> seen = {} \<and> set gs \<subseteq> seen \<union> set new
    \<and> visit_subgoals gs frontier seen = (frontier @ new, seen \<union> set new)"
proof (induction gs arbitrary: frontier seen)
  case (Cons g gs)
  show ?case
  proof (cases "g \<in> seen")
    case True
    obtain new where "set new \<subseteq> set gs" "set new \<inter> seen = {}" "set gs \<subseteq> seen \<union> set new"
        "visit_subgoals gs frontier seen = (frontier @ new, seen \<union> set new)"
      using Cons [of seen frontier] by auto
    with True show ?thesis by (intro exI [of _ new]) auto
  next
    case False
    obtain new where "set new \<subseteq> set gs" "set new \<inter> insert g seen = {}"
        "set gs \<subseteq> insert g seen \<union> set new"
        "visit_subgoals gs (frontier @ [g]) (insert g seen)
          = ((frontier @ [g]) @ new, insert g seen \<union> set new)"
      using Cons [of "insert g seen" "frontier @ [g]"] by auto
    with False show ?thesis by (intro exI [of _ "g # new"]) auto
  qed
qed auto

interpretation upward: exploration well_formed goal_ids "\<lambda>s g. set (parents_of s g)" identity_of
  "\<lambda>s frontier seen. case ancestors_loop s frontier seen of Inl _ \<Rightarrow> None | Inr x \<Rightarrow> Some x"
proof (unfold_locales, goal_cases)
  case (2 s n)
  then show ?case by (auto simp: set_parents_of dest: child_rel_nodes)
next
  case (3 s)
  then show ?case by (rule inj_identity_of)
next
  case (5 s frontier seen)
  then have "set (parents_of s (last frontier)) \<subseteq> goal_ids s"
    by (auto simp: set_parents_of dest: child_rel_nodes)
  from visit_parents_new [OF 5(1) this, of seen "butlast frontier"]
  obtain new where "set new \<subseteq> set (parents_of s (last frontier))"
      "identity_of s ` set new \<inter> seen = {}"
      "identity_of s ` set (parents_of s (last frontier)) \<subseteq> seen \<union> identity_of s ` set new"
      "visit_parents s (parents_of s (last frontier)) (butlast frontier) seen
        = Inr (butlast frontier @ new, seen \<union> identity_of s ` set new)"
    by blast
  with 5(2) show ?case
    by (intro exI [of _ new]) (simp add: ancestors_loop.simps [of s frontier])
qed (simp_all add: ancestors_loop.simps)

interpretation downward: exploration well_formed goal_ids "\<lambda>s g. set (subgoals_of s g)" "\<lambda>s g. g"
  "\<lambda>s frontier seen. Some (reachable_loop s frontier seen)"
proof (unfold_locales, goal_cases)
  case (2 s n)
  then show ?case by (auto simp: set_subgoals_of dest: child_rel_nodes)
next
  case (5 s frontier seen)
  obtain new where "set new \<subseteq> set (subgoals_of s (last frontier))" "set new \<inter> seen = {}"
      "set (subgoals_of s (last frontier)) \<subseteq> seen \<union> set new"
      "visit_subgoals (subgoals_of s (last frontier)) (butlast frontier) seen
        = (butlast frontier @ new, seen \<union> set new)"
    using visit_subgoals_new [of "subgoals_of s (last frontier)" seen "butlast frontier"] by blast
  with 5(2) show ?case
    by (intro exI [of _ new]) (simp add: reachable_loop.simps [of s frontier])
qed (simp_all add: reachable_loop.simps)

lemma edge_rel_up:
  "well_formed s \<Longrightarrow> {(a, b). a \<in> goal_ids s \<and> b \<in> set (parents_of s a)} = (child_rel s)\<inverse>"
  by (auto simp: set_parents_of dest: child_rel_nodes)

lemma edge_rel_down:
  "well_formed s \<Longrightarrow> {(a, b). a \<in> goal_ids s \<and> b \<in> set (subgoals_of s a)} = child_rel s"
  by (auto simp: set_subgoals_of dest: child_rel_nodes)

lemma ancestor_identities_eq:
  assumes "well_formed s" and "gid \<in> goal_ids s"
  shows "ancestor_identities s gid = Inr (identity_of s ` {p. (p, gid) \<in> (child_rel s)\<^sup>+})"
  using upward.search_from_unmarked [OF assms]
  by (auto simp: ancestor_identities_def edge_rel_up [OF assms(1)] trancl_converse
      split: sum.splits)

text \<open>
  In a well-formed store \<open>ancestor_identities\<close> answers, without an error, exactly the
  identities of the goals from which the goal can be reached by one or more decomposition steps:
  transitive, not only the parents.
\<close>

theorem ancestors_are_transitive:
  assumes "well_formed s" and "gid \<in> goal_ids s"
  shows "ancestor_identities s gid = Inr {g_identity p |p. p \<in> set (st_goals s)
    \<and> (g_id p, gid) \<in> (child_rel s)\<^sup>+}"
proof -
  have "identity_of s ` {p. (p, gid) \<in> (child_rel s)\<^sup>+} = {g_identity p |p. p \<in> set (st_goals s)
      \<and> (g_id p, gid) \<in> (child_rel s)\<^sup>+}"
  proof (rule set_eqI)
    fix i
    have "q \<in> goal_ids s" if "(q, gid) \<in> (child_rel s)\<^sup>+" for q
      using that child_rel_nodes [OF assms(1)] by (metis tranclD)
    then show "i \<in> identity_of s ` {p. (p, gid) \<in> (child_rel s)\<^sup>+}
        \<longleftrightarrow> i \<in> {g_identity p |p. p \<in> set (st_goals s) \<and> (g_id p, gid) \<in> (child_rel s)\<^sup>+}"
      using assms(1) by (auto simp: goal_ids_def identity_of_row image_iff)
        (metis (no_types, lifting) imageE identity_of_row)+
  qed
  then show ?thesis using ancestor_identities_eq [OF assms] by simp
qed

text \<open>
  In a well-formed store \<open>reachable_from\<close> answers exactly the goal itself and the goals below
  it through any number of decompositions.
\<close>

theorem reachable_from_is_reachability:
  assumes "well_formed s" and "gid \<in> goal_ids s"
  shows "reachable_from s gid = {c. (gid, c) \<in> (child_rel s)\<^sup>*}"
  using downward.search_from_marked [OF assms]
  by (simp add: reachable_from_def edge_rel_down [OF assms(1)])

section \<open>A concrete store\<close>

text \<open>
  A root goal with one accepted route through one subgoal, for which a proved attempt has just
  been recorded and not yet propagated.
\<close>

definition sample_row :: dec_row where
  "sample_row = \<lparr>r_id = ''dec_1'', r_goal_id = ''goal_a'', r_status = DAccepted, r_reason = [],
     r_sketch = None, r_created_at = 2\<rparr>"

definition sample_attempt :: attempt where
  "sample_attempt = \<lparr>a_id = ''att_1'', a_goal_id = ''goal_b'', a_outcome = OProved,
     a_proof_text = Some ''rfl'', a_run_dir = None, a_evidence_ref = None, a_cost = 1, a_note = [],
     a_created_at = 3\<rparr>"

definition sample_store :: graph_store where
  "sample_store = empty_store\<lparr>
     st_goals := [new_goal ''goal_a'' ''A'' ''theorem A'' 1, new_goal ''goal_b'' ''B'' ''theorem B'' 2],
     st_decs := [sample_row], st_edges := [(''dec_1'', 0, ''goal_b'')],
     st_attempts := [sample_attempt], st_roots := [(''goal_a'', ''root'')]\<rparr>"

lemma sample_goal_ids: "goal_ids sample_store = {''goal_a'', ''goal_b''}"
  by (simp add: sample_store_def goal_ids_def new_goal_def)

lemma sample_well_formed: "well_formed sample_store"
  unfolding well_formed_def sample_goal_ids
  by (simp add: sample_store_def empty_store_def new_goal_def sample_row_def sample_attempt_def)

lemma sample_child_rel: "child_rel sample_store = {(''goal_a'', ''goal_b'')}"
  by (simp add: child_rel_def sample_store_def empty_store_def sample_row_def)

lemma sample_acyclic: "acyclic (child_rel sample_store)"
  by (simp add: sample_child_rel wf_acyclic)

lemma ancestors_are_transitive_witness:
  "well_formed sample_store \<and> ''goal_b'' \<in> goal_ids sample_store \<and>
   ancestor_identities sample_store ''goal_b'' = Inr {''A''}"
proof -
  have up: "(x, ''goal_b'') \<in> {(''goal_a'', ''goal_b'')}\<^sup>+ \<longleftrightarrow> x = ''goal_a''" for x :: string
    by (subst trancl_insert) simp
  have "{g_identity p |p. p \<in> set (st_goals sample_store) \<and> (g_id p, ''goal_b'') \<in> (child_rel sample_store)\<^sup>+}
      = set (map g_identity (filter (\<lambda>p. g_id p = ''goal_a'') (st_goals sample_store)))"
    unfolding sample_child_rel up by auto
  also have "\<dots> = {''A''}" by (simp add: sample_store_def new_goal_def)
  finally show ?thesis
    using ancestors_are_transitive [OF sample_well_formed, of "''goal_b''"] sample_well_formed
    by (simp add: sample_goal_ids)
qed

lemma reachable_from_is_reachability_witness:
  "well_formed sample_store \<and> ''goal_a'' \<in> goal_ids sample_store \<and>
   reachable_from sample_store ''goal_a'' = {''goal_a'', ''goal_b''}"
proof -
  have "{c. (''goal_a'', c) \<in> {(''goal_a'', ''goal_b'')}\<^sup>*} = {''goal_a'', ''goal_b''}"
    by (subst rtrancl_insert) auto
  then show ?thesis
    using reachable_from_is_reachability [OF sample_well_formed, of "''goal_a''"] sample_well_formed
    by (simp add: sample_goal_ids sample_child_rel)
qed

end
