(* ===== verification/GraphWrites.thy ===== *)
theory GraphWrites
  imports GraphShape
begin

text \<open>
  What every write of the store keeps: the keys of the schema (\<open>well_formed\<close>) and an acyclic
  graph. The writes of any number of workers, in any order, are the steps of a relation on stores,
  and both hold in every store that is reachable from an empty one.
\<close>

named_theorems store_frame "what a write leaves alone"

section \<open>Frame facts\<close>

lemma goal_ids_cong: "map g_id (st_goals s') = map g_id (st_goals s) \<Longrightarrow> goal_ids s' = goal_ids s"
  unfolding goal_ids_def by (metis list.set_map)

lemma well_formed_draws [simp]: "well_formed (s\<lparr>st_draws := n\<rparr>) = well_formed s"
  by (simp add: well_formed_def goal_ids_def)

lemma child_rel_cong:
  assumes "map (\<lambda>r. (r_id r, r_goal_id r)) (st_decs s') = map (\<lambda>r. (r_id r, r_goal_id r)) (st_decs s)"
    and "st_edges s' = st_edges s"
  shows "child_rel s' = child_rel s"
proof -
  have keys: "(\<lambda>r. (r_id r, r_goal_id r)) ` set (st_decs s')
      = (\<lambda>r. (r_id r, r_goal_id r)) ` set (st_decs s)"
    using arg_cong [OF assms(1), of set] by simp
  have "(p, c) \<in> child_rel t \<longleftrightarrow> (\<exists>d i. (d, p) \<in> (\<lambda>r. (r_id r, r_goal_id r)) ` set (st_decs t)
      \<and> (d, i, c) \<in> set (st_edges t))" for p c t
    by (auto simp: child_rel_def)
  then show ?thesis using keys assms(2) by auto
qed

text \<open>
  Two stores that agree on the keys agree on well-formedness: this covers every write that only
  changes other columns.
\<close>

lemma well_formed_cong:
  assumes "map g_id (st_goals s') = map g_id (st_goals s)"
    and "map g_identity (st_goals s') = map g_identity (st_goals s)"
    and "map r_id (st_decs s') = map r_id (st_decs s)"
    and "map r_goal_id (st_decs s') = map r_goal_id (st_decs s)"
    and "st_edges s' = st_edges s"
    and "st_attempts s' = st_attempts s" and "st_certs s' = st_certs s"
    and "st_roots s' = st_roots s"
    and "well_formed s"
  shows "well_formed s'"
proof -
  have ids: "r_id ` set (st_decs s') = r_id ` set (st_decs s)"
    using arg_cong [OF assms(3), of set] by simp
  have gids: "r_goal_id ` set (st_decs s') = r_goal_id ` set (st_decs s)"
    using arg_cong [OF assms(4), of set] by simp
  show ?thesis
    using assms unfolding well_formed_def goal_ids_cong [OF assms(1)] by (simp add: ids gids)
qed

lemma set_decomposition_status_frame [store_frame, simp]:
  "st_goals (set_decomposition_status d x r s) = st_goals s"
  "st_edges (set_decomposition_status d x r s) = st_edges s"
  "st_attempts (set_decomposition_status d x r s) = st_attempts s"
  "st_certs (set_decomposition_status d x r s) = st_certs s"
  "st_roots (set_decomposition_status d x r s) = st_roots s"
  "map r_id (st_decs (set_decomposition_status d x r s)) = map r_id (st_decs s)"
  "map r_goal_id (st_decs (set_decomposition_status d x r s)) = map r_goal_id (st_decs s)"
  "map (\<lambda>q. (r_id q, r_goal_id q)) (st_decs (set_decomposition_status d x r s))
     = map (\<lambda>q. (r_id q, r_goal_id q)) (st_decs s)"
  by (simp_all add: set_decomposition_status_def upd_rows_def)

lemma well_formed_set_decomposition_status:
  "well_formed s \<Longrightarrow> well_formed (set_decomposition_status d x r s)"
  by (rule well_formed_cong) (simp_all add: store_frame)

lemma child_rel_set_decomposition_status [simp]:
  "child_rel (set_decomposition_status d x r s) = child_rel s"
  by (rule child_rel_cong) (simp_all add: store_frame)

text \<open>A write to columns of \<open>goals\<close> other than its keys.\<close>

definition goal_columns :: "(goal \<Rightarrow> goal) \<Rightarrow> bool" where
  "goal_columns f \<longleftrightarrow> (\<forall>g. g_id (f g) = g_id g \<and> g_identity (f g) = g_identity g
     \<and> g_statement (f g) = g_statement g \<and> g_created_at (f g) = g_created_at g)"

lemma well_formed_goal_columns:
  assumes "goal_columns f" and "well_formed s"
  shows "well_formed (s\<lparr>st_goals := map f (st_goals s)\<rparr>)"
    and "goal_ids (s\<lparr>st_goals := map f (st_goals s)\<rparr>) = goal_ids s"
    and "child_rel (s\<lparr>st_goals := map f (st_goals s)\<rparr>) = child_rel s"
proof -
  have m: "map g_id (map f (st_goals s)) = map g_id (st_goals s)"
    "map g_identity (map f (st_goals s)) = map g_identity (st_goals s)"
    using assms(1) by (simp_all add: goal_columns_def)
  show "well_formed (s\<lparr>st_goals := map f (st_goals s)\<rparr>)"
    by (rule well_formed_cong [OF _ _ _ _ _ _ _ _ assms(2)]) (simp_all add: m del: map_map)
  show "goal_ids (s\<lparr>st_goals := map f (st_goals s)\<rparr>) = goal_ids s"
    by (rule goal_ids_cong) (simp add: m del: map_map)
  show "child_rel (s\<lparr>st_goals := map f (st_goals s)\<rparr>) = child_rel s"
    by (rule child_rel_cong) simp_all
qed

text \<open>The columns a status change, a claim, a release and a note of a directory write.\<close>

lemma goal_writes:
  "\<exists>f. goal_columns f \<and> fst (claim gid owner ttl now s) = s\<lparr>st_goals := map f (st_goals s)\<rparr>"
  "\<exists>f. goal_columns f \<and> release gid owner s = s\<lparr>st_goals := map f (st_goals s)\<rparr>"
  "\<exists>f. goal_columns f \<and> force_release gid s = s\<lparr>st_goals := map f (st_goals s)\<rparr>"
  "\<exists>f. goal_columns f \<and> note_attempt_dir gid dir s = s\<lparr>st_goals := map f (st_goals s)\<rparr>"
  unfolding claim_def release_def force_release_def note_attempt_dir_def upd_rows_def Let_def fst_conv
  by (rule exI, rule conjI [OF _ refl], simp add: goal_columns_def drop_lease_def)+

section \<open>Inserting goals\<close>

lemma insert_goal_cases:
  assumes "insert_goal gid i st now s = Inr s'"
  obtains "s' = s" and "i \<in> g_identity ` set (st_goals s)"
  | "i \<notin> g_identity ` set (st_goals s)" and "gid \<notin> goal_ids s"
    and "s' = s\<lparr>st_goals := st_goals s @ [new_goal gid i st now]\<rparr>"
  using assms by (auto simp: insert_goal_def split: if_splits)

definition same_but_goals :: "graph_store \<Rightarrow> graph_store \<Rightarrow> bool" where
  "same_but_goals s s' \<longleftrightarrow> (\<exists>new. st_goals s' = st_goals s @ new \<and>
     (\<forall>g \<in> set new. g_status g = GOpen)) \<and> st_decs s' = st_decs s
     \<and> st_edges s' = st_edges s \<and> st_attempts s' = st_attempts s \<and> st_certs s' = st_certs s
     \<and> st_roots s' = st_roots s \<and> st_envelopes s' = st_envelopes s \<and> st_scope s' = st_scope s"

lemma same_but_goals_refl [simp]: "same_but_goals s s"
  by (simp add: same_but_goals_def)

lemma same_but_goals_draws [simp]: "same_but_goals s (s\<lparr>st_draws := n\<rparr>)"
  by (simp add: same_but_goals_def)

lemma same_but_goals_trans: "same_but_goals s t \<Longrightarrow> same_but_goals t w \<Longrightarrow> same_but_goals s w"
  unfolding same_but_goals_def by fastforce

lemma same_but_goals_ids: "same_but_goals s s' \<Longrightarrow> goal_ids s \<subseteq> goal_ids s'"
  by (auto simp: same_but_goals_def goal_ids_def)

lemma same_but_goals_child: "same_but_goals s s' \<Longrightarrow> child_rel s' = child_rel s"
  by (auto simp: same_but_goals_def child_rel_def)

lemma same_but_goals_identity:
  "same_but_goals s s' \<Longrightarrow> g \<in> goal_ids s \<Longrightarrow> identity_of s' g = identity_of s g"
  by (auto simp: same_but_goals_def identity_of_def goal_ids_def row_of_append row_of_None_iff
      split: option.splits)

lemma insert_goal_wf:
  assumes "insert_goal gid i st now s = Inr s'" and "well_formed s"
  shows "well_formed s' \<and> same_but_goals s s' \<and> i \<in> g_identity ` set (st_goals s')"
  using assms(1)
proof (cases rule: insert_goal_cases)
  case 1
  with assms(2) show ?thesis by simp
next
  case 2
  have "goal_ids s' = insert gid (goal_ids s)"
    by (auto simp: 2 goal_ids_def new_goal_def)
  moreover have "distinct (map g_id (st_goals s'))" "distinct (map g_identity (st_goals s'))"
    using 2(1,2) wf_distinct [OF assms(2)] by (auto simp: 2(3) new_goal_def goal_ids_def)
  ultimately have "well_formed s'"
    using assms(2) unfolding well_formed_def by (auto simp: 2(3))
  then show ?thesis
    by (auto simp: 2(3) same_but_goals_def new_goal_def)
qed

lemma goal_by_identity_row:
  "i \<in> g_identity ` set (st_goals s) \<Longrightarrow>
     \<exists>g. goal_by_identity s i = Some g \<and> g \<in> set (st_goals s) \<and> g_identity g = i"
  unfolding goal_by_identity_def using row_of_exists [of i g_identity "st_goals s"]
  by (blast dest: row_of_SomeD)

lemma new_id_eq [simp]: "new_id u p s = (p @ ''_'' @ u (st_draws s), s\<lparr>st_draws := Suc (st_draws s)\<rparr>)"
  by (simp add: new_id_def)

lemma insert_subgoals_wf:
  assumes "insert_subgoals u now subs s = (s', r)" and "well_formed s"
  shows "well_formed s' \<and> same_but_goals s s' \<and>
    (\<forall>ids. r = Inr ids \<longrightarrow> set ids \<subseteq> goal_ids s' \<and> map (identity_of s') ids = map fst subs)"
  using assms
proof (induction subs arbitrary: s s' r)
  case (Cons sub subs)
  obtain i st where sub: "sub = (i, st)" by (cases sub)
  define s1 where "s1 = s\<lparr>st_draws := Suc (st_draws s)\<rparr>"
  define gid where "gid = ''goal'' @ ''_'' @ u (st_draws s)"
  have s1: "well_formed s1" "same_but_goals s s1"
    using Cons.prems(2) by (simp_all add: s1_def)
  show ?case
  proof (cases "insert_goal gid i st now s1")
    case (Inl e)
    with Cons.prems(1) s1 show ?thesis
      by (auto simp: sub s1_def gid_def Let_def)
  next
    case (Inr s2)
    from insert_goal_wf [OF Inr s1(1)] have s2: "well_formed s2" "same_but_goals s1 s2"
        "i \<in> g_identity ` set (st_goals s2)" by auto
    from goal_by_identity_row [OF s2(3)] obtain g where g: "goal_by_identity s2 i = Some g"
        "g \<in> set (st_goals s2)" "g_identity g = i" by blast
    obtain s3 r3 where rec: "insert_subgoals u now subs s2 = (s3, r3)" by fastforce
    note IH = Cons.IH [OF rec s2(1)]
    have same: "same_but_goals s s3"
      using s1(2) s2(2) IH by (blast intro: same_but_goals_trans)
    have gid_in: "g_id g \<in> goal_ids s2" using g(2) by (auto simp: goal_ids_def)
    have "s' = s3" and r: "r = (case r3 of Inl e \<Rightarrow> Inl e | Inr ids \<Rightarrow> Inr (g_id g # ids))"
      using Cons.prems(1) Inr g(1) rec
      by (auto simp: sub s1_def gid_def Let_def split: sum.splits)
    moreover have "identity_of s3 (g_id g) = i"
      using same_but_goals_identity [of s2 s3, OF _ gid_in] IH identity_of_row [OF s2(1) g(2)] g(3)
      by auto
    moreover have "g_id g \<in> goal_ids s3"
      using IH gid_in same_but_goals_ids by blast
    ultimately show ?thesis
      using IH same by (auto simp: sub split: sum.splits)
  qed
qed auto

section \<open>Adding a decomposition\<close>

lemma acyclic_add_edges:
  assumes "finite C" and "acyclic R" and "\<And>c. c \<in> C \<Longrightarrow> (c, p) \<notin> R\<^sup>*"
  shows "acyclic (R \<union> {p} \<times> C)"
proof -
  have "acyclic (R \<union> {p} \<times> C) \<and> (\<forall>c. (c, p) \<in> (R \<union> {p} \<times> C)\<^sup>* \<longrightarrow> (c, p) \<in> R\<^sup>*)"
    using assms(1,3)
  proof (induction C)
    case (insert x C)
    let ?R = "R \<union> {p} \<times> C"
    have ins: "R \<union> {p} \<times> insert x C = insert (p, x) ?R" by auto
    from insert have IH: "acyclic ?R" "\<And>c. (c, p) \<in> ?R\<^sup>* \<Longrightarrow> (c, p) \<in> R\<^sup>*" by auto
    with insert.prems have "(x, p) \<notin> ?R\<^sup>*" by blast
    then have "acyclic (insert (p, x) ?R)" using IH(1) by simp
    moreover have "(c, p) \<in> R\<^sup>*" if "(c, p) \<in> (insert (p, x) ?R)\<^sup>*" for c
      using that IH(2) by (auto simp: rtrancl_insert)
    ultimately show ?case unfolding ins by blast
  qed (simp add: assms(2))
  then show ?thesis by simp
qed

lemma check_decomposition_Inr:
  assumes "check_decomposition gid subs s = Inr x" and "well_formed s"
  shows "subs \<noteq> [] \<and> gid \<in> goal_ids s \<and>
    (\<forall>c \<in> goal_ids s. identity_of s c \<in> fst ` set subs \<longrightarrow> (c, gid) \<notin> (child_rel s)\<^sup>*)"
proof -
  from assms(1) obtain parent anc where p: "get_goal s gid = Inr parent"
      and anc: "ancestor_identities s gid = Inr anc"
      and disj: "fst ` set subs \<inter> (anc \<union> {g_identity parent}) = {}" and ne: "subs \<noteq> []"
    by (auto simp: check_decomposition_def bindE_Inr_iff split: if_splits)
  have gid: "gid \<in> goal_ids s" using p by (rule get_goal_ids)
  have "(c, gid) \<notin> (child_rel s)\<^sup>*" if "identity_of s c \<in> fst ` set subs" for c
  proof
    assume "(c, gid) \<in> (child_rel s)\<^sup>*"
    then consider "c = gid" | "(c, gid) \<in> (child_rel s)\<^sup>+" by (auto simp: rtrancl_eq_or_trancl)
    then show False
    proof cases
      case 1
      with that disj identity_of_get [OF p] show False by auto
    next
      case 2
      with ancestor_identities_eq [OF assms(2) gid] anc have "identity_of s c \<in> anc" by auto
      with that disj show False by auto
    qed
  qed
  with gid ne show ?thesis by blast
qed

lemma write_decomposition_cases [consumes 2]:
  assumes "write_decomposition u now gid subs sk status s = (s', r)" and "well_formed s"
  obtains (failed) e n where "r = Inl e" and "s' = s\<lparr>st_draws := n\<rparr>"
  | (written) s2 did ids where "well_formed s2" and "same_but_goals s s2"
    and "set ids \<subseteq> goal_ids s2" and "map (identity_of s2) ids = map fst subs"
    and "did \<notin> r_id ` set (st_decs s2)" and "gid \<in> goal_ids s2"
    and "s' = s2\<lparr>st_decs := st_decs s2 @ [\<lparr>r_id = did, r_goal_id = gid, r_status = status,
            r_reason = [], r_sketch = map_option sketch_to_json sk, r_created_at = now\<rparr>],
          st_edges := st_edges s2 @ map (Pair did) (enumerate 0 ids)\<rparr>"
    and "r = get_decomposition s' did"
proof -
  define s1 where "s1 = s\<lparr>st_draws := Suc (st_draws s)\<rparr>"
  obtain s2 q where ins: "insert_subgoals u now subs s1 = (s2, q)" by fastforce
  have "well_formed s1" using assms(2) by (simp add: s1_def)
  from insert_subgoals_wf [OF ins this] have s2: "well_formed s2" "same_but_goals s1 s2"
      "\<And>ids. q = Inr ids \<Longrightarrow> set ids \<subseteq> goal_ids s2 \<and> map (identity_of s2) ids = map fst subs"
    by auto
  have same: "same_but_goals s s2"
    using s2(2) unfolding s1_def by (rule same_but_goals_trans [OF same_but_goals_draws])
  show thesis
  proof (cases q)
    case (Inl e)
    then show thesis
      using assms(1) ins by (intro failed) (auto simp: write_decomposition_def s1_def)
  next
    case (Inr ids)
    let ?did = "''dec'' @ ''_'' @ u (st_draws s)"
    show thesis
    proof (cases "?did \<in> r_id ` set (st_decs s2) \<or> gid \<notin> goal_ids s2")
      case True
      then show thesis
        using assms(1) ins Inr
        by (intro failed [of "projl r" "st_draws s2"])
          (auto simp: write_decomposition_def s1_def split: if_splits)
    next
      case False
      then show thesis
        using assms(1) ins Inr s2(3) [OF Inr]
        by (intro written [OF s2(1) same, of ids ?did])
          (auto simp: write_decomposition_def s1_def Let_def)
    qed
  qed
qed

lemma set_enumerated_edges:
  "Pair did ` set (enumerate 0 ids) = {(did, i, ids ! i) |i. i < length ids}"
  by (force simp: in_set_enumerate_eq image_iff)

lemma written_wf:
  assumes "well_formed s2" and "ids \<noteq> []" and "set ids \<subseteq> goal_ids s2"
    and "did \<notin> r_id ` set (st_decs s2)" and "gid \<in> goal_ids s2"
    and s': "s' = s2\<lparr>st_decs := st_decs s2 @ [r], st_edges := st_edges s2 @
      map (Pair did) (enumerate 0 ids)\<rparr>"
    and r: "r_id r = did" "r_goal_id r = gid"
  shows "well_formed s' \<and> child_rel s' = child_rel s2 \<union> {gid} \<times> set ids"
proof
  have gids: "goal_ids s' = goal_ids s2" by (simp add: s' goal_ids_def)
  have sub: "ids ! i \<in> goal_ids s2" if "i < length ids" for i
    using assms(3) that by (meson nth_mem subsetD)
  have "(did, 0, ids ! 0) \<in> {(did, i, ids ! i) |i. i < length ids}"
    using assms(2) by auto
  then have first: "did \<in> fst ` {(did, i, ids ! i) |i. i < length ids}"
    by (rule rev_image_eqI) simp
  have edges: "set (st_edges s') = set (st_edges s2) \<union> {(did, i, ids ! i) |i. i < length ids}"
    by (simp add: s' set_enumerated_edges)
  have "\<forall>(d, i, g) \<in> set (st_edges s'). d \<in> r_id ` set (st_decs s') \<and> g \<in> goal_ids s2"
  proof -
    have "\<forall>(d, i, g) \<in> set (st_edges s2). d \<in> r_id ` set (st_decs s') \<and> g \<in> goal_ids s2"
      using assms(1) by (auto simp: well_formed_def s')
    moreover have "\<forall>(d, i, g) \<in> {(did, i, ids ! i) |i. i < length ids}.
        d \<in> r_id ` set (st_decs s') \<and> g \<in> goal_ids s2"
      using sub by (auto simp: s' r)
    ultimately show ?thesis unfolding edges by blast
  qed
  moreover have "r_id ` set (st_decs s') \<subseteq> fst ` set (st_edges s')"
  proof -
    have "r_id ` set (st_decs s') = insert did (r_id ` set (st_decs s2))"
      by (simp add: s' r)
    moreover have "r_id ` set (st_decs s2) \<subseteq> fst ` set (st_edges s2)"
      using assms(1) by (simp add: well_formed_def)
    ultimately show ?thesis using first unfolding edges image_Un by blast
  qed
  moreover have "distinct (map r_id (st_decs s'))"
    using wf_distinct(3) [OF assms(1)] assms(4) by (simp add: s' r)
  moreover have "r_goal_id ` set (st_decs s') \<subseteq> goal_ids s2"
    using assms(1,5) by (simp add: well_formed_def s' r)
  moreover have "st_goals s' = st_goals s2" "st_attempts s' = st_attempts s2"
    "st_certs s' = st_certs s2" "st_roots s' = st_roots s2"
    by (simp_all add: s')
  ultimately show "well_formed s'"
    using assms(1) unfolding well_formed_def gids by simp
  have fresh: "(did, i, c) \<notin> set (st_edges s2)" for i c
    using assms(1,4) by (auto simp: well_formed_def)
  show "child_rel s' = child_rel s2 \<union> {gid} \<times> set ids"
  proof (rule set_eqI, clarify)
    fix p c
    have old: "r_id q \<noteq> did" if "q \<in> set (st_decs s2)" for q
      using that assms(4) by auto
    have decs: "q \<in> set (st_decs s') \<longleftrightarrow> q \<in> set (st_decs s2) \<or> q = r" for q
      by (auto simp: s')
    have edge: "(d, i, c) \<in> set (st_edges s') \<longleftrightarrow>
        (d, i, c) \<in> set (st_edges s2) \<or> d = did \<and> i < length ids \<and> c = ids ! i" for d i
      unfolding edges by blast
    have "c \<in> set ids \<longleftrightarrow> (\<exists>i. i < length ids \<and> c = ids ! i)"
      unfolding in_set_conv_nth by blast
    then show "(p, c) \<in> child_rel s' \<longleftrightarrow> (p, c) \<in> child_rel s2 \<union> {gid} \<times> set ids"
      unfolding child_rel_def mem_Collect_eq case_prod_conv decs edge Un_iff mem_Times_iff
      using old fresh r by (metis fst_conv singleton_iff snd_conv)
  qed
qed

theorem add_decomposition_keeps:
  assumes add: "add_decomposition u now gid subs sk status s = (s', r)"
    and "well_formed s" and "acyclic (child_rel s)"
  shows "well_formed s' \<and> acyclic (child_rel s')"
proof (cases "check_decomposition gid subs s")
  case (Inl e)
  with assms show ?thesis by (auto simp: add_decomposition_def)
next
  case (Inr x)
  with add have "write_decomposition u now gid subs sk status s = (s', r)"
    by (simp add: add_decomposition_def)
  then show ?thesis
    using assms(2)
  proof (cases rule: write_decomposition_cases)
    case (failed e n)
    with assms(2,3) show ?thesis by (simp add: child_rel_def)
  next
    case (written s2 did ids)
    note ok = check_decomposition_Inr [OF Inr assms(2)]
    from written(4) ok have "ids \<noteq> []" by auto
    note w = written_wf [OF written(1) this written(3,5,6,7)]
    have child: "child_rel s2 = child_rel s" using written(2) by (rule same_but_goals_child)
    have "(c, gid) \<notin> (child_rel s)\<^sup>*" if c: "c \<in> set ids" for c
    proof (cases "c \<in> goal_ids s")
      case True
      have "identity_of s2 c \<in> fst ` set subs"
        using c arg_cong [OF written(4), of set] by auto
      with ok True same_but_goals_identity [OF written(2) True] show ?thesis by simp
    next
      case False
      with ok have "c \<noteq> gid" by auto
      with False child_rel_nodes [OF assms(2)] show ?thesis
        by (meson converse_rtranclE)
    qed
    then have "acyclic (child_rel s \<union> {gid} \<times> set ids)"
      by (intro acyclic_add_edges assms(3)) auto
    with w child show ?thesis by simp
  qed
qed

end
