(* ===== verification/Propagation.thy ===== *)
theory Propagation
  imports GraphWrites
begin

text \<open>
  \<open>ProofGraphStore.propagate\<close>: recompute a goal and everything above it with a work queue. The
  loop ends on every store, cyclic ones included: a pass either completes a decomposition, or
  brings a goal to the status its attempts and decompositions give it, or shortens the queue.
\<close>

section \<open>The loop\<close>

text \<open>
  The inner \<open>for\<close> over the decompositions of the goal: the new status of each, written when it
  differs (which also clears the reason it was rejected for).
\<close>

fun advance_decompositions ::
  "decomposition list \<Rightarrow> graph_store \<Rightarrow> graph_store \<times> (proof_error + decomposition_status list)"
  where
  "advance_decompositions [] s = (s, Inr [])"
| "advance_decompositions (d # ds) s =
     (case mapE (\<lambda>sid. bindE (get_goal s sid) (\<lambda>g. Inr (g_status g))) (d_subgoal_ids d) of
        Inl e \<Rightarrow> (s, Inl e)
      | Inr subgoal_statuses \<Rightarrow>
          (let new_status = decomposition_status_from (d_status d) subgoal_statuses;
               s1 = (if new_status \<noteq> d_status d
                     then set_decomposition_status (d_id d) new_status [] s else s) in
           case advance_decompositions ds s1 of
             (s2, Inl e) \<Rightarrow> (s2, Inl e)
           | (s2, Inr rest) \<Rightarrow> (s2, Inr (new_status # rest))))"

definition set_goal_status ::
  "string \<Rightarrow> goal_status \<Rightarrow> real \<Rightarrow> string \<Rightarrow> graph_store \<Rightarrow> graph_store" where
  "set_goal_status gid status budget_spent solver_level s =
     s\<lparr>st_goals := upd_rows g_id gid (\<lambda>g.
        if status = GExhausted
        then g\<lparr>g_status := status, g_exhausted_at_budget := Some budget_spent,
               g_exhausted_at_solver := Some solver_level\<rparr>
        else g\<lparr>g_status := status, g_exhausted_at_budget := None,
               g_exhausted_at_solver := None\<rparr>) (st_goals s)\<rparr>"

definition outcomes_of :: "graph_store \<Rightarrow> string \<Rightarrow> outcome list" where
  "outcomes_of s gid = map a_outcome (attempts_of s gid)"

text \<open>The status that a goal's attempts and the statuses of its decompositions give it.\<close>

definition due_status :: "int \<Rightarrow> graph_store \<Rightarrow> string \<Rightarrow> goal_status" where
  "due_status m s gid = goal_status_from (outcomes_of s gid) (map d_status (decompositions_of s gid)) m"

definition incomplete :: "graph_store \<Rightarrow> nat" where
  "incomplete s = length (filter (\<lambda>r. r_status r \<noteq> DCompleted) (st_decs s))"

definition overdue :: "int \<Rightarrow> graph_store \<Rightarrow> nat" where
  "overdue m s = length (filter (\<lambda>g. g_status g \<noteq> due_status m s (g_id g)) (st_goals s))"

lemma incomplete_set_completed:
  "incomplete (set_decomposition_status did DCompleted x s) \<le> incomplete s"
  "q \<in> set (st_decs s) \<Longrightarrow> r_id q = did \<Longrightarrow> r_status q \<noteq> DCompleted \<Longrightarrow>
     incomplete (set_decomposition_status did DCompleted x s) < incomplete s"
  unfolding incomplete_def set_decomposition_status_def
  by (simp_all add: filter_upd_rows_le) (rule filter_upd_rows_less [of _ _ _ _ q]; simp)

lemma advance_frame:
  assumes "advance_decompositions ds s = (s', r)"
  shows "st_goals s' = st_goals s" "st_edges s' = st_edges s" "st_attempts s' = st_attempts s"
    "st_certs s' = st_certs s" "st_roots s' = st_roots s"
    "map r_id (st_decs s') = map r_id (st_decs s)"
    "map r_goal_id (st_decs s') = map r_goal_id (st_decs s)"
    "map (\<lambda>q. (r_id q, r_goal_id q)) (st_decs s') = map (\<lambda>q. (r_id q, r_goal_id q)) (st_decs s)"
  using assms
  by (induction ds s arbitrary: s' r rule: advance_decompositions.induct)
    (fastforce simp: Let_def split: sum.splits if_splits prod.splits)+

lemma advance_incomplete_le:
  assumes "advance_decompositions ds s = (s', r)"
  shows "incomplete s' \<le> incomplete s"
  using assms
proof (induction ds arbitrary: s s' r)
  case (Cons d ds)
  show ?case
  proof (cases "mapE (\<lambda>sid. bindE (get_goal s sid) (\<lambda>g. Inr (g_status g))) (d_subgoal_ids d)")
    case (Inl e)
    with Cons.prems show ?thesis by simp
  next
    case (Inr ss)
    define s1 where "s1 = (if decomposition_status_from (d_status d) ss \<noteq> d_status d
      then set_decomposition_status (d_id d) (decomposition_status_from (d_status d) ss) [] s else s)"
    have "incomplete s1 \<le> incomplete s"
      using decomposition_status_cases [of "d_status d" ss]
      by (auto simp: s1_def incomplete_set_completed)
    moreover obtain s2 r2 where "advance_decompositions ds s1 = (s2, r2)" by fastforce
    moreover from this have "s' = s2"
      using Cons.prems Inr by (auto simp: s1_def [symmetric] Let_def split: sum.splits)
    ultimately show ?thesis using Cons.IH by force
  qed
qed simp

lemma advance_progress:
  assumes "advance_decompositions ds s = (s', r)"
    and "\<And>d. d \<in> set ds \<Longrightarrow> \<exists>q \<in> set (st_decs s). r_id q = d_id d \<and> r_status q = d_status d"
  shows "incomplete s' < incomplete s
    \<or> s' = s \<and> (\<forall>advanced. r = Inr advanced \<longrightarrow> advanced = map d_status ds)"
  using assms
proof (induction ds arbitrary: s' r)
  case (Cons d ds)
  show ?case
  proof (cases "mapE (\<lambda>sid. bindE (get_goal s sid) (\<lambda>g. Inr (g_status g))) (d_subgoal_ids d)")
    case (Inl e)
    with Cons.prems(1) show ?thesis by auto
  next
    case (Inr ss)
    show ?thesis
    proof (cases "decomposition_status_from (d_status d) ss = d_status d")
      case True
      obtain s2 r2 where rec: "advance_decompositions ds s = (s2, r2)" by fastforce
      with Cons.prems Inr True have "s' = s2"
          "r = (case r2 of Inl e \<Rightarrow> Inl e | Inr rest \<Rightarrow> Inr (d_status d # rest))"
        by (auto simp: Let_def split: sum.splits)
      with Cons.IH [OF rec] Cons.prems(2) show ?thesis
        by (auto split: sum.splits)
    next
      case False
      then have new: "decomposition_status_from (d_status d) ss = DCompleted" "d_status d = DAccepted"
        using decomposition_status_cases [of "d_status d" ss] by auto
      define s1 where "s1 = set_decomposition_status (d_id d) DCompleted [] s"
      obtain q where "q \<in> set (st_decs s)" "r_id q = d_id d" "r_status q \<noteq> DCompleted"
        using Cons.prems(2) [of d] new(2) by auto
      then have less: "incomplete s1 < incomplete s"
        unfolding s1_def by (rule incomplete_set_completed)
      obtain s2 r2 where rec: "advance_decompositions ds s1 = (s2, r2)" by fastforce
      with Cons.prems(1) Inr new have "s' = s2"
        by (auto simp: s1_def Let_def split: sum.splits)
      with advance_incomplete_le [OF rec] less show ?thesis by simp
    qed
  qed
qed simp

lemma decompositions_of_rows:
  "d \<in> set (decompositions_of s gid) \<Longrightarrow>
     \<exists>q \<in> set (st_decs s). r_id q = d_id d \<and> r_status q = d_status d"
  by (auto simp: decompositions_of_def)

lemma set_goal_status_frame [simp]:
  "st_decs (set_goal_status gid x b l s) = st_decs s"
  "st_edges (set_goal_status gid x b l s) = st_edges s"
  "st_attempts (set_goal_status gid x b l s) = st_attempts s"
  "st_certs (set_goal_status gid x b l s) = st_certs s"
  "st_roots (set_goal_status gid x b l s) = st_roots s"
  "incomplete (set_goal_status gid x b l s) = incomplete s"
  by (simp_all add: set_goal_status_def incomplete_def)

lemma due_status_cong:
  assumes "st_attempts s' = st_attempts s" and "st_decs s' = st_decs s" and "st_edges s' = st_edges s"
  shows "due_status m s' gid = due_status m s gid"
  using assms
  by (simp add: due_status_def outcomes_of_def attempts_of_def decompositions_of_def comp_def)

lemma due_status_set_goal_status [simp]:
  "due_status m (set_goal_status gid x b l s) g = due_status m s g"
  by (rule due_status_cong) simp_all

lemma overdue_set_goal_status:
  assumes "get_goal s gid = Inr g" and "g_status g \<noteq> due_status m s gid"
  shows "overdue m (set_goal_status gid (due_status m s gid) b l s) < overdue m s"
proof -
  let ?f = "\<lambda>g. if due_status m s gid = GExhausted
        then g\<lparr>g_status := due_status m s gid, g_exhausted_at_budget := Some b,
               g_exhausted_at_solver := Some l\<rparr>
        else g\<lparr>g_status := due_status m s gid, g_exhausted_at_budget := None,
               g_exhausted_at_solver := None\<rparr>"
  have "length (filter (\<lambda>g. g_status g \<noteq> due_status m s (g_id g)) (upd_rows g_id gid ?f (st_goals s)))
      < length (filter (\<lambda>g. g_status g \<noteq> due_status m s (g_id g)) (st_goals s))"
    using get_goal_InrD [OF assms(1)] assms(2)
    by (intro filter_upd_rows_less [of _ _ _ _ g]) auto
  then show ?thesis
    unfolding overdue_def due_status_set_goal_status by (simp add: set_goal_status_def)
qed

text \<open>The two ways a pass of the loop goes on, and why both make progress.\<close>

lemma pass_progress:
  assumes "(s1, y) = advance_decompositions (decompositions_of s cur) s" and "y = Inr advanced"
  shows "incomplete s1 < incomplete s
    \<or> s1 = s \<and> goal_status_from (outcomes_of s1 cur) advanced m = due_status m s cur"
proof -
  have "advance_decompositions (decompositions_of s cur) s = (s1, Inr advanced)"
    using assms by simp
  from advance_progress [OF this] decompositions_of_rows show ?thesis
    by (auto simp: due_status_def)
qed

lemma pass_shortens:
  assumes "pending \<noteq> []" and "pending1 = butlast pending"
    and "(s1, y) = advance_decompositions (decompositions_of s cur) s" and "y = Inr advanced"
  shows "((m, b, l, pending1, s1), (m, b, l, pending, s)) \<in> measures [\<lambda>(m, b, l, pending, s). incomplete s,
    \<lambda>(m, b, l, pending, s). overdue m s, \<lambda>(m, b, l, pending, s). length pending]"
  using pass_progress [OF assms(3,4)] assms(1,2) by auto

lemma pass_settles:
  assumes "get_goal s cur = Inr current"
    and "(s1, y) = advance_decompositions (decompositions_of s cur) s" and "y = Inr advanced"
    and "status = goal_status_from (outcomes_of s1 cur) advanced m"
    and "status \<noteq> g_status current"
    and "s2 = set_goal_status cur status b l s1"
  shows "((m, b, l, pending', s2), (m, b, l, pending, s)) \<in> measures [\<lambda>(m, b, l, pending, s). incomplete s,
    \<lambda>(m, b, l, pending, s). overdue m s, \<lambda>(m, b, l, pending, s). length pending]"
proof (cases "incomplete s1 < incomplete s")
  case True
  then show ?thesis by (simp add: assms(6))
next
  case False
  with pass_progress [OF assms(2,3), of m] have "s1 = s" and status: "status = due_status m s cur"
    by (auto simp: assms(4))
  moreover have "overdue m (set_goal_status cur (due_status m s cur) b l s) < overdue m s"
    using assms(1,5) status by (intro overdue_set_goal_status) auto
  ultimately show ?thesis by (simp add: assms(6))
qed

text \<open>
  The \<open>while pending\<close> loop. An error leaves what was already written, so the store comes with the
  result either way. The queue is popped at its end.
\<close>

function propagate_loop ::
  "int \<Rightarrow> real \<Rightarrow> string \<Rightarrow> string list \<Rightarrow> graph_store \<Rightarrow> graph_store \<times> (proof_error + unit)" where
  "propagate_loop m budget_spent solver_level pending s =
     (if pending = [] then (s, Inr ())
      else let current_id = last pending; pending1 = butlast pending in
        case get_goal s current_id of
          Inl e \<Rightarrow> (s, Inl e)
        | Inr current \<Rightarrow>
            (case advance_decompositions (decompositions_of s current_id) s of
               (s1, Inl e) \<Rightarrow> (s1, Inl e)
             | (s1, Inr advanced) \<Rightarrow>
                 (let status = goal_status_from (outcomes_of s1 current_id) advanced m in
                  if status = g_status current
                  then propagate_loop m budget_spent solver_level pending1 s1
                  else let s2 = set_goal_status current_id status budget_spent solver_level s1 in
                    propagate_loop m budget_spent solver_level
                      (pending1 @ parents_of s2 current_id) s2)))"
  by pat_completeness auto
termination
proof (relation "measures [\<lambda>(m, b, l, pending, s). incomplete s,
    \<lambda>(m, b, l, pending, s). overdue m s, \<lambda>(m, b, l, pending, s). length pending]", goal_cases)
  case 1
  show ?case by simp
next
  case 2
  then show ?case by (intro pass_shortens)
next
  case 3
  then show ?case by (intro pass_settles)
qed

declare propagate_loop.simps [simp del]

definition propagate ::
  "int \<Rightarrow> real \<Rightarrow> string \<Rightarrow> string \<Rightarrow> graph_store \<Rightarrow> graph_store \<times> (proof_error + unit)" where
  "propagate m budget_spent solver_level gid s =
     propagate_loop m budget_spent solver_level [gid] s"

end
