(* ===== verification/GraphStatus.thy ===== *)
theory GraphStatus
  imports Propagation
begin

text \<open>
  What the statuses mean. \<open>derivable\<close> is the specification: a goal has a finite AND-OR proof, that
  is a proved attempt of its own or an accepted route whose subgoals all have one.
  \<open>propagate\<close> brings the whole graph to the fixpoint of the status rules, and at the fixpoint of a
  sound, acyclic graph a goal is \<open>proved\<close> exactly when it is derivable.
\<close>

section \<open>Statuses and the fixpoint\<close>

definition status_of :: "graph_store \<Rightarrow> string \<Rightarrow> goal_status" where
  "status_of s gid = (case row_of g_id gid (st_goals s) of None \<Rightarrow> GOpen | Some g \<Rightarrow> g_status g)"

definition due_dec :: "graph_store \<Rightarrow> dec_row \<Rightarrow> decomposition_status" where
  "due_dec s r = decomposition_status_from (r_status r)
     (map (status_of s) (d_subgoal_ids (row_dec s r)))"

text \<open>
  Settled up to a relation \<open>R\<close> between the due status and the status: equality for the fixpoint of
  \<open>propagate\<close>, and \<open>proof_settled\<close>, which only asks that a goal that is due to be proved is
  proved, for what holds between any two calls of the controller.
\<close>

definition settled_by ::
  "(goal_status \<Rightarrow> goal_status \<Rightarrow> bool) \<Rightarrow> int \<Rightarrow> graph_store \<Rightarrow> string \<Rightarrow> bool" where
  "settled_by R m s gid \<longleftrightarrow>
     (\<forall>r \<in> set (st_decs s). r_goal_id r = gid \<longrightarrow> due_dec s r = r_status r) \<and>
     R (due_status m s gid) (status_of s gid)"

definition settled :: "int \<Rightarrow> graph_store \<Rightarrow> string \<Rightarrow> bool" where
  "settled = settled_by (=)"

definition same_proved :: "goal_status \<Rightarrow> goal_status \<Rightarrow> bool" where
  "same_proved due status \<longleftrightarrow> (due = GProved \<longrightarrow> status = GProved)"

definition complete_store :: "graph_store \<Rightarrow> bool" where
  "complete_store s \<longleftrightarrow> (\<forall>gid \<in> goal_ids s. settled_by same_proved 0 s gid)"

definition all_settled :: "int \<Rightarrow> graph_store \<Rightarrow> bool" where
  "all_settled m s \<longleftrightarrow> (\<forall>gid \<in> goal_ids s. settled m s gid)"

lemma status_of_get: "get_goal s gid = Inr g \<Longrightarrow> status_of s gid = g_status g"
  by (simp add: status_of_def get_goal_Inr_iff)

lemma status_of_row: "well_formed s \<Longrightarrow> g \<in> set (st_goals s) \<Longrightarrow> status_of s (g_id g) = g_status g"
  by (simp add: status_of_def row_of_unique wf_distinct)

lemma status_of_cong: "st_goals s' = st_goals s \<Longrightarrow> status_of s' gid = status_of s gid"
  by (simp add: status_of_def)

lemma status_of_set_goal_status:
  "gid \<in> goal_ids s \<Longrightarrow> status_of (set_goal_status gid x b l s) g = (if g = gid then x else status_of s g)"
  by (auto simp: status_of_def set_goal_status_def row_of_upd_rows goal_ids_def
      dest!: row_of_exists split: option.splits)

lemma due_dec_cases: "due_dec s r = r_status r \<or> r_status r = DAccepted \<and> due_dec s r = DCompleted"
  unfolding due_dec_def by (rule decomposition_status_cases)

lemma due_dec_completed_iff:
  "due_dec s r = DCompleted \<longleftrightarrow> r_status r = DCompleted \<or>
     r_status r = DAccepted \<and> d_subgoal_ids (row_dec s r) \<noteq> [] \<and>
     (\<forall>c \<in> set (d_subgoal_ids (row_dec s r)). status_of s c = GProved)"
  by (auto simp: due_dec_def decomposition_status_completed_iff)

lemma subgoal_ids_cong: "st_edges s' = st_edges s \<Longrightarrow> r_id r' = r_id r \<Longrightarrow>
    d_subgoal_ids (row_dec s' r') = d_subgoal_ids (row_dec s r)"
  by (simp add: row_dec_def)

section \<open>One pass over the decompositions of a goal\<close>

definition advanced_row :: "graph_store \<Rightarrow> string \<Rightarrow> dec_row \<Rightarrow> dec_row" where
  "advanced_row s gid r =
     (if r_goal_id r = gid \<and> due_dec s r \<noteq> r_status r
      then r\<lparr>r_status := DCompleted, r_reason := []\<rparr> else r)"

lemma advanced_row_simps [simp]:
  "r_id (advanced_row s gid r) = r_id r"
  "r_goal_id (advanced_row s gid r) = r_goal_id r"
  "r_created_at (advanced_row s gid r) = r_created_at r"
  "r_sketch (advanced_row s gid r) = r_sketch r"
  by (simp_all add: advanced_row_def)

lemma status_advanced_row:
  "r_status (advanced_row s gid r) = (if r_goal_id r = gid then due_dec s r else r_status r)"
  using due_dec_cases [of s r] by (auto simp: advanced_row_def)

lemma subgoal_statuses:
  assumes "set cs \<subseteq> goal_ids s"
  shows "mapE (\<lambda>sid. bindE (get_goal s sid) (\<lambda>g. Inr (g_status g))) cs = Inr (map (status_of s) cs)"
proof (rule mapE_all_Inr)
  fix c
  assume "c \<in> set cs"
  with assms obtain g where "get_goal s c = Inr g" using wf_get_goal by blast
  then show "bindE (get_goal s c) (\<lambda>g. Inr (g_status g)) = Inr (status_of s c)"
    by (simp add: status_of_get)
qed

lemma advance_result:
  assumes "\<And>d. d \<in> set ds \<Longrightarrow> set (d_subgoal_ids d) \<subseteq> goal_ids s"
  shows "advance_decompositions ds s = (s\<lparr>st_decs := map (\<lambda>r.
      if \<exists>d \<in> set ds. d_id d = r_id r \<and>
           decomposition_status_from (d_status d) (map (status_of s) (d_subgoal_ids d)) \<noteq> d_status d
      then r\<lparr>r_status := DCompleted, r_reason := []\<rparr> else r) (st_decs s)\<rparr>,
    Inr (map (\<lambda>d. decomposition_status_from (d_status d) (map (status_of s) (d_subgoal_ids d))) ds))"
  using assms
proof (induction ds arbitrary: s)
  case (Cons d ds)
  let ?new = "decomposition_status_from (d_status d) (map (status_of s) (d_subgoal_ids d))"
  define s1 where "s1 = (if ?new \<noteq> d_status d then set_decomposition_status (d_id d) ?new [] s else s)"
  have goals: "st_goals s1 = st_goals s" by (simp add: s1_def)
  then have gids: "goal_ids s1 = goal_ids s" and stat: "status_of s1 = status_of s"
    by (simp_all add: goal_ids_def status_of_def fun_eq_iff)
  with Cons.prems have IH: "advance_decompositions ds s1 = (s1\<lparr>st_decs := map (\<lambda>r.
      if \<exists>d \<in> set ds. d_id d = r_id r \<and>
           decomposition_status_from (d_status d) (map (status_of s) (d_subgoal_ids d)) \<noteq> d_status d
      then r\<lparr>r_status := DCompleted, r_reason := []\<rparr> else r) (st_decs s1)\<rparr>,
    Inr (map (\<lambda>d. decomposition_status_from (d_status d) (map (status_of s) (d_subgoal_ids d))) ds))"
    using Cons.IH [of s1] by (simp add: stat)
  have subs: "mapE (\<lambda>sid. bindE (get_goal s sid) (\<lambda>g. Inr (g_status g))) (d_subgoal_ids d)
      = Inr (map (status_of s) (d_subgoal_ids d))"
    by (rule subgoal_statuses) (use Cons.prems in auto)
  have "advance_decompositions (d # ds) s = (fst (advance_decompositions ds s1),
      Inr (?new # map (\<lambda>d. decomposition_status_from (d_status d) (map (status_of s) (d_subgoal_ids d))) ds))"
    using subs IH by (simp add: s1_def Let_def)
  moreover have "?new \<noteq> d_status d \<Longrightarrow> ?new = DCompleted"
    using decomposition_status_cases by blast
  ultimately show ?case
    unfolding IH
    by (cases "?new = d_status d")
      (auto simp: s1_def set_decomposition_status_def upd_rows_def intro!: arg_cong2 [where f = Pair]
        graph_store.equality)
qed simp

lemma advance_of_goal:
  assumes wf: "well_formed s"
  shows "advance_decompositions (decompositions_of s gid) s =
    (s\<lparr>st_decs := map (advanced_row s gid) (st_decs s)\<rparr>,
     Inr (map d_status (decompositions_of (s\<lparr>st_decs := map (advanced_row s gid) (st_decs s)\<rparr>) gid)))"
proof -
  let ?s1 = "s\<lparr>st_decs := map (advanced_row s gid) (st_decs s)\<rparr>"
  have subs: "set (d_subgoal_ids d) \<subseteq> goal_ids s" if "d \<in> set (decompositions_of s gid)" for d
    using that wf by (auto simp: set_decompositions_of set_row_dec_subgoals well_formed_def)
  have changed: "(\<exists>d \<in> set (decompositions_of s gid). d_id d = r_id r \<and>
      decomposition_status_from (d_status d) (map (status_of s) (d_subgoal_ids d)) \<noteq> d_status d)
    \<longleftrightarrow> r_goal_id r = gid \<and> due_dec s r \<noteq> r_status r" if "r \<in> set (st_decs s)" for r
  proof -
    have "q = r" if "q \<in> set (st_decs s)" "r_id q = r_id r" for q
      using that \<open>r \<in> set (st_decs s)\<close> wf_distinct(3) [OF wf] by (metis row_of_unique option.inject)
    with that show ?thesis
      by (auto simp: set_decompositions_of due_dec_def)
  qed
  have rows: "map (\<lambda>r. if \<exists>d \<in> set (decompositions_of s gid). d_id d = r_id r \<and>
           decomposition_status_from (d_status d) (map (status_of s) (d_subgoal_ids d)) \<noteq> d_status d
      then r\<lparr>r_status := DCompleted, r_reason := []\<rparr> else r) (st_decs s)
    = map (advanced_row s gid) (st_decs s)"
    by (rule map_cong [OF refl]) (simp add: changed advanced_row_def)
  have "decompositions_of ?s1 gid = map (\<lambda>r. row_dec ?s1 (advanced_row s gid r))
      (sort_key r_created_at (filter (\<lambda>r. r_goal_id r = gid) (st_decs s)))"
    by (simp add: decompositions_of_def filter_map comp_def sort_key_map_same)
  then have "map d_status (decompositions_of ?s1 gid)
      = map (\<lambda>d. decomposition_status_from (d_status d) (map (status_of s) (d_subgoal_ids d)))
          (decompositions_of s gid)"
    by (auto simp: decompositions_of_def status_advanced_row due_dec_def)
  then show ?thesis
    using advance_result [of "decompositions_of s gid" s, OF subs] rows by simp
qed

text \<open>The store after the pass, and what it settles.\<close>

abbreviation advanced_store :: "graph_store \<Rightarrow> string \<Rightarrow> graph_store" where
  "advanced_store s gid \<equiv> s\<lparr>st_decs := map (advanced_row s gid) (st_decs s)\<rparr>"

lemma advanced_store_wf:
  "well_formed s \<Longrightarrow> well_formed (advanced_store s gid)"
  by (rule well_formed_cong) simp_all

lemma advanced_store_child: "child_rel (advanced_store s gid) = child_rel s"
  by (rule child_rel_cong) simp_all

lemma due_dec_advanced:
  "due_dec (advanced_store s gid) (advanced_row s gid r) =
     (if r_goal_id r = gid then r_status (advanced_row s gid r) else due_dec s r)"
proof -
  have subs: "d_subgoal_ids (row_dec (advanced_store s gid) (advanced_row s gid r))
      = d_subgoal_ids (row_dec s r)" by (rule subgoal_ids_cong) simp_all
  have stat: "status_of (advanced_store s gid) = status_of s"
    by (simp add: status_of_def fun_eq_iff)
  have "due_dec (advanced_store s gid) (advanced_row s gid r)
      = decomposition_status_from (r_status (advanced_row s gid r))
          (map (status_of s) (d_subgoal_ids (row_dec s r)))"
    unfolding due_dec_def subs stat ..
  then show ?thesis
    using due_dec_cases [of s r]
    by (auto simp: status_advanced_row due_dec_def)
qed

lemma due_status_advanced:
  assumes "g \<noteq> gid"
  shows "due_status m (advanced_store s gid) g = due_status m s g"
proof -
  have "map d_status (decompositions_of (advanced_store s gid) g) = map d_status (decompositions_of s g)"
    using assms by (simp add: decompositions_of_def filter_map comp_def sort_key_map_same
        status_advanced_row cong: filter_cong)
  then show ?thesis
    by (simp add: due_status_def outcomes_of_def attempts_of_def)
qed

lemma settled_advanced:
  assumes "settled_by R m s g" and "g \<noteq> gid"
  shows "settled_by R m (advanced_store s gid) g"
  using assms
  by (auto simp: settled_by_def due_dec_advanced due_status_advanced status_advanced_row
      status_of_cong [of "advanced_store s gid" s])

lemma settled_after_pass:
  assumes "status_of s gid = due_status m (advanced_store s gid) gid" and "\<And>x. R x x"
  shows "settled_by R m (advanced_store s gid) gid"
  using assms
  by (auto simp: settled_by_def due_dec_advanced status_of_cong [of "advanced_store s gid" s])

lemma settled_set_goal_status:
  assumes "gid \<in> goal_ids s" and "(g, gid) \<notin> child_rel s"
    and "settled_by R m s g \<or> g = gid \<and> x = due_status m s gid
      \<and> (\<forall>r \<in> set (st_decs s). r_goal_id r = gid \<longrightarrow> due_dec s r = r_status r)"
    and "g = gid \<longrightarrow> x = due_status m s gid" and "\<And>x. R x x"
  shows "settled_by R m (set_goal_status gid x b l s) g"
proof -
  let ?s = "set_goal_status gid x b l s"
  have "due_dec ?s r = due_dec s r" if "r \<in> set (st_decs s)" "r_goal_id r = g" for r
  proof -
    have "gid \<notin> set (d_subgoal_ids (row_dec s r))"
      using assms(2) that by (auto simp: child_rel_def set_row_dec_subgoals)
    then have "map (status_of ?s) (d_subgoal_ids (row_dec s r))
        = map (status_of s) (d_subgoal_ids (row_dec s r))"
      using assms(1) by (auto simp: status_of_set_goal_status)
    moreover have "d_subgoal_ids (row_dec ?s r) = d_subgoal_ids (row_dec s r)"
      by (rule subgoal_ids_cong) simp_all
    ultimately show ?thesis unfolding due_dec_def by (simp only: set_goal_status_frame)
  qed
  with assms show ?thesis
    by (auto simp: settled_by_def status_of_set_goal_status)
qed

lemma set_goal_status_columns:
  "\<exists>f. goal_columns f \<and> set_goal_status gid x b l s = s\<lparr>st_goals := map f (st_goals s)\<rparr>"
  unfolding set_goal_status_def upd_rows_def
  by (rule exI, rule conjI [OF _ refl]) (simp add: goal_columns_def)

lemma well_formed_set_goal_status:
  "well_formed s \<Longrightarrow> well_formed (set_goal_status gid x b l s)"
  using set_goal_status_columns [of gid x b l s] well_formed_goal_columns(1) by metis

lemma goal_ids_set_goal_status [simp]: "goal_ids (set_goal_status gid x b l s) = goal_ids s"
  unfolding goal_ids_def set_goal_status_def by (simp add: table_simps)

lemma child_rel_set_goal_status [simp]: "child_rel (set_goal_status gid x b l s) = child_rel s"
  by (rule child_rel_cong) simp_all

section \<open>The fixpoint\<close>

text \<open>
  What the queue of \<open>propagate\<close> keeps: every goal that is not on it is settled. One pass over the
  last goal settles it; a changed status unsettles only its parents, which go on the queue.
\<close>

definition queue_inv ::
  "(goal_status \<Rightarrow> goal_status \<Rightarrow> bool) \<Rightarrow> int \<Rightarrow> string list \<Rightarrow> graph_store \<Rightarrow> bool" where
  "queue_inv R m pending s \<longleftrightarrow> well_formed s \<and> set pending \<subseteq> goal_ids s \<and>
     (\<forall>g \<in> goal_ids s. g \<in> set pending \<or> settled_by R m s g)"

lemma goal_ids_advanced [simp]: "goal_ids (advanced_store s gid) = goal_ids s"
  by (simp add: goal_ids_def)

lemma advanced_due:
  "goal_status_from (outcomes_of s cur) (map d_status (decompositions_of (advanced_store s cur) cur)) m
     = due_status m (advanced_store s cur) cur"
  by (simp add: due_status_def outcomes_of_def attempts_of_def)

lemma queue_inv_same:
  assumes "queue_inv R m pending s" and "pending \<noteq> []" and "cur = last pending"
    and "status_of s cur = due_status m (advanced_store s cur) cur" and "\<And>x. R x x"
  shows "queue_inv R m (butlast pending) (advanced_store s cur)"
proof -
  have "g \<in> set pending \<longleftrightarrow> g \<in> set (butlast pending) \<or> g = cur" for g
    using assms(2,3) by (cases pending rule: rev_cases) auto
  then show ?thesis
    using assms(1) settled_after_pass [where R = R, OF assms(4,5)]
    by (auto simp: queue_inv_def advanced_store_wf dest: in_set_butlastD intro: settled_advanced)
qed

lemma advanced_rows_settled:
  assumes "r \<in> set (st_decs (advanced_store s cur))" and "r_goal_id r = cur"
  shows "due_dec (advanced_store s cur) r = r_status r"
proof -
  obtain q where "q \<in> set (st_decs s)" and r: "r = advanced_row s cur q"
    using assms(1) by auto
  then show ?thesis
    using due_dec_advanced [of s cur q] assms(2) by simp
qed

lemma queue_inv_changed:
  assumes "queue_inv R m pending s" and "pending \<noteq> []" and "cur = last pending"
    and s2: "s2 = set_goal_status cur (due_status m (advanced_store s cur) cur) b l (advanced_store s cur)"
    and reflR: "\<And>x. R x x"
  shows "queue_inv R m (butlast pending @ parents_of s2 cur) s2"
proof -
  let ?s1 = "advanced_store s cur"
  have mem: "g \<in> set pending \<longleftrightarrow> g \<in> set (butlast pending) \<or> g = cur" for g
    using assms(2,3) by (cases pending rule: rev_cases) auto
  have wf: "well_formed s2"
    using assms(1) by (simp add: s2 queue_inv_def advanced_store_wf well_formed_set_goal_status)
  have ids: "goal_ids s2 = goal_ids s" and child: "child_rel s2 = child_rel ?s1"
    by (simp_all add: s2)
  have cur: "cur \<in> goal_ids s" using assms(1) mem by (auto simp: queue_inv_def)
  have "settled_by R m s2 g" if "g \<in> goal_ids s" "g \<notin> set (butlast pending)" "(g, cur) \<notin> child_rel s2" for g
  proof -
    have "(g, cur) \<notin> child_rel ?s1" using that(3) by (simp add: child)
    moreover have "g \<noteq> cur \<Longrightarrow> settled_by R m ?s1 g"
      using that assms(1) mem by (auto simp: queue_inv_def intro: settled_advanced)
    ultimately show ?thesis
      unfolding s2 using cur advanced_rows_settled reflR
      by (intro settled_set_goal_status) auto
  qed
  moreover have "set (parents_of s2 cur) \<subseteq> goal_ids s"
    using child_rel_nodes [OF wf] by (auto simp: set_parents_of ids)
  ultimately show ?thesis
    using assms(1) wf by (auto simp: queue_inv_def ids set_parents_of dest: in_set_butlastD)
qed

section \<open>Provability\<close>

text \<open>
  The specification: a goal has a finite proof of attempts and accepted routes. Recorded attempts
  and the routes are what \<open>derivable\<close> reads, never a goal's status.
\<close>

inductive derivable :: "graph_store \<Rightarrow> string \<Rightarrow> bool" for s where
  by_attempt: "OProved \<in> set (outcomes_of s gid) \<Longrightarrow> derivable s gid"
| by_route: "r \<in> set (st_decs s) \<Longrightarrow> r_goal_id r = gid \<Longrightarrow>
    r_status r = DAccepted \<or> r_status r = DCompleted \<Longrightarrow>
    (\<forall>c \<in> set (d_subgoal_ids (row_dec s r)). derivable s c) \<Longrightarrow> derivable s gid"

text \<open>
  A store is sound when a proved goal has a proved attempt or a completed decomposition, and the
  subgoals of a completed decomposition are proved.
\<close>

definition sound_store :: "graph_store \<Rightarrow> bool" where
  "sound_store s \<longleftrightarrow>
     (\<forall>g \<in> goal_ids s. status_of s g = GProved \<longrightarrow> OProved \<in> set (outcomes_of s g) \<or>
        (\<exists>r \<in> set (st_decs s). r_goal_id r = g \<and> r_status r = DCompleted)) \<and>
     (\<forall>r \<in> set (st_decs s). r_status r = DCompleted \<longrightarrow>
        (\<forall>c \<in> set (d_subgoal_ids (row_dec s r)). status_of s c = GProved))"

lemma due_status_proved_iff:
  "due_status m s g = GProved \<longleftrightarrow> OProved \<in> set (outcomes_of s g) \<or>
     (\<exists>r \<in> set (st_decs s). r_goal_id r = g \<and> r_status r = DCompleted)"
  by (force simp: due_status_def set_decompositions_of)

lemma row_has_subgoals: "well_formed s \<Longrightarrow> r \<in> set (st_decs s) \<Longrightarrow> d_subgoal_ids (row_dec s r) \<noteq> []"
proof -
  assume "well_formed s" and "r \<in> set (st_decs s)"
  then have "r_id r \<in> fst ` set (st_edges s)" by (auto simp: well_formed_def)
  then obtain i c where "(r_id r, i, c) \<in> set (st_edges s)" by auto
  then have "c \<in> set (d_subgoal_ids (row_dec s r))" by (auto simp: set_row_dec_subgoals)
  then show ?thesis by auto
qed

lemma settled_proves_by:
  assumes wf: "well_formed s" and settled: "\<And>g. g \<in> goal_ids s \<Longrightarrow> settled_by R m s g"
    and R: "\<And>x. R GProved x \<Longrightarrow> x = GProved"
    and "derivable s g" and "g \<in> goal_ids s"
  shows "status_of s g = GProved"
  using assms(4,5)
proof (induction rule: derivable.induct)
  case (by_attempt gid)
  then have "due_status m s gid = GProved" by (simp add: due_status_proved_iff)
  with settled [OF by_attempt(2)] R show ?case by (auto simp: settled_by_def)
next
  case (by_route r gid)
  have "set (d_subgoal_ids (row_dec s r)) \<subseteq> goal_ids s"
    using wf by (auto simp: well_formed_def set_row_dec_subgoals)
  with by_route have "due_dec s r = DCompleted"
    using row_has_subgoals [OF wf] by (auto simp: due_dec_completed_iff)
  moreover from settled [OF by_route(5)] by_route(1,2) have "due_dec s r = r_status r"
    by (auto simp: settled_by_def)
  ultimately have "r_status r = DCompleted" by simp
  with by_route(1,2) have "due_status m s gid = GProved"
    by (auto simp: due_status_proved_iff)
  with settled [OF by_route(5)] R show ?case by (auto simp: settled_by_def)
qed

lemma settled_proves:
  assumes "well_formed s" and "all_settled m s" and "derivable s g" and "g \<in> goal_ids s"
  shows "status_of s g = GProved"
  using assms(1) _ _ assms(3,4)
  by (rule settled_proves_by [where R = "(=)" and m = m]) (use assms(2) in \<open>simp_all add: all_settled_def settled_def\<close>)

lemma complete_proves:
  assumes "well_formed s" and "complete_store s" and "derivable s g" and "g \<in> goal_ids s"
  shows "status_of s g = GProved"
  using assms(1) _ _ assms(3,4)
  by (rule settled_proves_by [where R = same_proved and m = 0])
    (use assms(2) in \<open>simp_all add: complete_store_def same_proved_def\<close>)

lemma finite_child_rel: "well_formed s \<Longrightarrow> finite (child_rel s)"
  by (rule finite_subset [of _ "goal_ids s \<times> goal_ids s"]) (auto dest: child_rel_nodes)

lemma sound_derivable:
  assumes wf: "well_formed s" and acyc: "acyclic (child_rel s)" and sound: "sound_store s"
    and "g \<in> goal_ids s" and "status_of s g = GProved"
  shows "derivable s g"
proof -
  have "wf ((child_rel s)\<inverse>)"
    using acyc finite_child_rel [OF wf] by (simp add: finite_acyclic_wf_converse)
  then show ?thesis
    using assms(4,5)
  proof (induction g rule: wf_induct_rule)
    case (less g)
    with sound consider "OProved \<in> set (outcomes_of s g)"
      | r where "r \<in> set (st_decs s)" "r_goal_id r = g" "r_status r = DCompleted"
      by (auto simp: sound_store_def)
    then show ?case
    proof cases
      case 1
      then show ?thesis by (rule by_attempt)
    next
      case (2 r)
      have "derivable s c" if c: "c \<in> set (d_subgoal_ids (row_dec s r))" for c
      proof (rule less.IH)
        show edge: "(c, g) \<in> (child_rel s)\<inverse>"
          using c 2 by (auto simp: child_rel_def set_row_dec_subgoals)
        show "c \<in> goal_ids s" using child_rel_nodes [OF wf] edge by blast
        show "status_of s c = GProved" using sound c 2 by (auto simp: sound_store_def)
      qed
      with 2 show ?thesis by (intro by_route) auto
    qed
  qed
qed

text \<open>What the two writes of the loop keep, and so the whole loop.\<close>

text \<open>\<open>s'\<close> has no other decompositions than \<open>s\<close>, and only accepted ones have a new status.\<close>

definition follows :: "graph_store \<Rightarrow> graph_store \<Rightarrow> bool" where
  "follows s s' \<longleftrightarrow> (\<forall>r' \<in> set (st_decs s'). \<exists>r \<in> set (st_decs s). r_id r = r_id r' \<and>
     r_goal_id r = r_goal_id r' \<and> (r_status r' = r_status r \<or> r_status r = DAccepted))"

lemma follows_refl: "follows s s"
  by (auto simp: follows_def)

lemma follows_trans: "follows s t \<Longrightarrow> follows t w \<Longrightarrow> follows s w"
  unfolding follows_def by metis

definition kept :: "graph_store \<Rightarrow> graph_store \<Rightarrow> bool" where
  "kept s s' \<longleftrightarrow> goal_ids s' = goal_ids s \<and> child_rel s' = child_rel s \<and>
     (\<forall>g. derivable s' g \<longleftrightarrow> derivable s g) \<and> follows s s' \<and>
     (sound_store s \<longrightarrow> sound_store s' \<and>
        (\<forall>g \<in> goal_ids s. status_of s g = GProved \<longrightarrow> status_of s' g = GProved))"

lemma kept_refl: "kept s s"
  by (simp add: kept_def follows_refl)

lemma kept_trans: "kept s t \<Longrightarrow> kept t w \<Longrightarrow> kept s w"
  using follows_trans [of s t w] by (auto simp: kept_def)

lemma derivable_mono:
  assumes "derivable s g"
    and "st_edges s' = st_edges s" and "st_attempts s' = st_attempts s"
    and rows: "\<And>r. r \<in> set (st_decs s) \<Longrightarrow> r_status r = DAccepted \<or> r_status r = DCompleted \<Longrightarrow>
      \<exists>r' \<in> set (st_decs s'). r_id r' = r_id r \<and> r_goal_id r' = r_goal_id r \<and>
        (r_status r' = DAccepted \<or> r_status r' = DCompleted)"
  shows "derivable s' g"
  using assms(1)
proof (induction rule: derivable.induct)
  case (by_attempt gid)
  then show ?case
    using assms(3) by (intro derivable.by_attempt) (simp add: outcomes_of_def attempts_of_def)
next
  case (by_route r gid)
  from rows [OF by_route(1,3)] obtain r' where r': "r' \<in> set (st_decs s')" "r_id r' = r_id r"
      "r_goal_id r' = gid" "r_status r' = DAccepted \<or> r_status r' = DCompleted"
    using by_route(2) by auto
  have "d_subgoal_ids (row_dec s' r') = d_subgoal_ids (row_dec s r)"
    by (rule subgoal_ids_cong) (simp_all add: assms(2) r'(2))
  with by_route r' show ?case by (intro derivable.by_route [of r']) auto
qed

lemma derivable_advanced: "derivable (advanced_store s cur) g \<longleftrightarrow> derivable s g"
proof
  assume "derivable (advanced_store s cur) g"
  then show "derivable s g"
  proof (rule derivable_mono)
    fix r
    assume "r \<in> set (st_decs (advanced_store s cur))"
      and st: "r_status r = DAccepted \<or> r_status r = DCompleted"
    then obtain q where "q \<in> set (st_decs s)" "r = advanced_row s cur q" by auto
    with st due_dec_cases [of s q]
    show "\<exists>r' \<in> set (st_decs s). r_id r' = r_id r \<and> r_goal_id r' = r_goal_id r \<and>
        (r_status r' = DAccepted \<or> r_status r' = DCompleted)"
      by (intro bexI [of _ q]) (auto simp: status_advanced_row split: if_splits)
  qed simp_all
next
  assume "derivable s g"
  then show "derivable (advanced_store s cur) g"
  proof (rule derivable_mono)
    fix r
    assume "r \<in> set (st_decs s)" and st: "r_status r = DAccepted \<or> r_status r = DCompleted"
    then show "\<exists>r' \<in> set (st_decs (advanced_store s cur)). r_id r' = r_id r \<and>
        r_goal_id r' = r_goal_id r \<and> (r_status r' = DAccepted \<or> r_status r' = DCompleted)"
      using due_dec_cases [of s r]
      by (intro bexI [of _ "advanced_row s cur r"]) (auto simp: status_advanced_row)
  qed simp_all
qed

lemma derivable_set_goal_status: "derivable (set_goal_status gid x b l s) g \<longleftrightarrow> derivable s g"
  by (rule iffI; erule derivable_mono) auto

lemma status_of_advanced [simp]: "status_of (advanced_store s cur) g = status_of s g"
  by (simp add: status_of_def)

lemma outcomes_of_advanced [simp]: "outcomes_of (advanced_store s cur) g = outcomes_of s g"
  by (simp add: outcomes_of_def attempts_of_def)

lemma outcomes_of_set_goal_status [simp]: "outcomes_of (set_goal_status gid x b l s) g = outcomes_of s g"
  by (simp add: outcomes_of_def attempts_of_def)

lemma sound_advanced:
  assumes "sound_store s"
  shows "sound_store (advanced_store s cur)"
proof -
  have "\<exists>r \<in> set (st_decs (advanced_store s cur)). r_goal_id r = g \<and> r_status r = DCompleted"
    if r: "r \<in> set (st_decs s)" "r_goal_id r = g" "r_status r = DCompleted" for r g
    using r due_dec_cases [of s r]
    by (intro bexI [of _ "advanced_row s cur r"]) (auto simp: status_advanced_row)
  moreover have "status_of s c = GProved"
    if "q \<in> set (st_decs s)" "r_status (advanced_row s cur q) = DCompleted"
      "c \<in> set (d_subgoal_ids (row_dec s q))" for q c
    using that assms by (auto simp: status_advanced_row due_dec_completed_iff sound_store_def
        split: if_splits)
  moreover have "d_subgoal_ids (row_dec (advanced_store s cur) (advanced_row s cur q))
      = d_subgoal_ids (row_dec s q)" for q
    by (rule subgoal_ids_cong) simp_all
  ultimately show ?thesis
    using assms unfolding sound_store_def by (fastforce simp: goal_ids_advanced)
qed

lemma follows_advanced: "follows s (advanced_store s cur)"
  unfolding follows_def
proof
  fix r'
  assume "r' \<in> set (st_decs (advanced_store s cur))"
  then obtain r where "r \<in> set (st_decs s)" "r' = advanced_row s cur r" by auto
  with due_dec_cases [of s r] show "\<exists>r \<in> set (st_decs s). r_id r = r_id r' \<and>
      r_goal_id r = r_goal_id r' \<and> (r_status r' = r_status r \<or> r_status r = DAccepted)"
    by (intro bexI [of _ r]) (auto simp: status_advanced_row)
qed

lemma kept_advanced: "kept s (advanced_store s cur)"
  by (auto simp: kept_def follows_advanced advanced_store_child derivable_advanced sound_advanced)

lemma kept_set_goal_status:
  assumes "gid \<in> goal_ids s" and "x = due_status m s gid"
  shows "kept s (set_goal_status gid x b l s)"
proof -
  let ?s = "set_goal_status gid x b l s"
  have subs: "d_subgoal_ids (row_dec ?s r) = d_subgoal_ids (row_dec s r)" for r
    by (rule subgoal_ids_cong) simp_all
  have stays: "status_of ?s g = GProved" if "sound_store s" "g \<in> goal_ids s" "status_of s g = GProved" for g
    using that assms by (auto simp: status_of_set_goal_status due_status_proved_iff sound_store_def)
  have "sound_store ?s" if sound: "sound_store s"
    unfolding sound_store_def
  proof (intro conjI ballI impI)
    fix g
    assume "g \<in> goal_ids ?s" and "status_of ?s g = GProved"
    with sound assms show "OProved \<in> set (outcomes_of ?s g) \<or>
        (\<exists>r \<in> set (st_decs ?s). r_goal_id r = g \<and> r_status r = DCompleted)"
      by (auto simp: status_of_set_goal_status sound_store_def due_status_proved_iff split: if_splits)
  next
    fix r c
    assume "r \<in> set (st_decs ?s)" "r_status r = DCompleted" "c \<in> set (d_subgoal_ids (row_dec ?s r))"
    with sound have "status_of s c = GProved" by (auto simp: sound_store_def subs)
    moreover from this have "c \<in> goal_ids s"
      by (auto simp: status_of_def goal_ids_def split: option.splits dest: row_of_SomeD)
    ultimately show "status_of ?s c = GProved" using stays sound by blast
  qed
  with stays show ?thesis
    by (auto simp: kept_def derivable_set_goal_status follows_def)
qed

section \<open>The whole loop\<close>

lemma pass_result:
  assumes "well_formed s" and "gid \<in> goal_ids s"
  obtains g where "get_goal s gid = Inr g" and "status_of s gid = g_status g"
    and "advance_decompositions (decompositions_of s gid) s = (advanced_store s gid,
      Inr (map d_status (decompositions_of (advanced_store s gid) gid)))"
  using wf_get_goal [OF assms(2)] advance_of_goal [OF assms(1)] by (auto simp: status_of_get)

lemma propagate_loop_settles:
  assumes "queue_inv R m pending s" and reflR: "\<And>x. R x x"
  shows "\<exists>s'. propagate_loop m b l pending s = (s', Inr ()) \<and> queue_inv R m [] s' \<and> kept s s'"
  using assms(1)
proof (induction m b l pending s rule: propagate_loop.induct)
  case (1 m b l pending s)
  show ?case
  proof (cases "pending = []")
    case True
    with 1(3) show ?thesis by (simp add: propagate_loop.simps kept_refl)
  next
    case False
    define cur where "cur = last pending"
    let ?s1 = "advanced_store s cur"
    have wf: "well_formed s" and cur: "cur \<in> goal_ids s"
      using 1(3) False by (auto simp: queue_inv_def cur_def)
    obtain g where g: "get_goal s cur = Inr g" "status_of s cur = g_status g"
      and pass: "advance_decompositions (decompositions_of s cur) s
        = (?s1, Inr (map d_status (decompositions_of ?s1 cur)))"
      by (rule pass_result [OF wf cur])
    show ?thesis
    proof (cases "due_status m ?s1 cur = g_status g")
      case True
      have step: "propagate_loop m b l pending s = propagate_loop m b l (butlast pending) ?s1"
        by (subst propagate_loop.simps)
          (simp add: False cur_def [symmetric] g pass advanced_due True Let_def)
      have "queue_inv R m (butlast pending) ?s1"
        using 1(3) False cur_def True g by (intro queue_inv_same reflR) auto
      with 1(1) [OF False refl refl g(1) [unfolded cur_def] pass [unfolded cur_def, symmetric] refl refl]
      have "\<exists>s'. propagate_loop m b l (butlast pending) ?s1 = (s', Inr ()) \<and> queue_inv R m [] s' \<and> kept ?s1 s'"
        using True by (simp add: cur_def [symmetric] advanced_due)
      with step kept_trans [OF kept_advanced] show ?thesis by metis
    next
      case change: False
      define s2 where "s2 = set_goal_status cur (due_status m ?s1 cur) b l ?s1"
      have step: "propagate_loop m b l pending s
          = propagate_loop m b l (butlast pending @ parents_of s2 cur) s2"
        by (subst propagate_loop.simps)
          (simp add: False cur_def [symmetric] g pass advanced_due change s2_def Let_def)
      have inv: "queue_inv R m (butlast pending @ parents_of s2 cur) s2"
        using 1(3) False cur_def s2_def reflR by (rule queue_inv_changed)
      have "\<exists>s'. propagate_loop m b l (butlast pending @ parents_of s2 cur) s2 = (s', Inr ())
          \<and> queue_inv R m [] s' \<and> kept s2 s'"
        using 1(2) [OF False refl refl g(1) [unfolded cur_def] pass [unfolded cur_def, symmetric] refl refl]
          change inv by (simp add: cur_def [symmetric] advanced_due s2_def)
      moreover have "kept s s2"
        unfolding s2_def
        by (rule kept_trans [OF kept_advanced], rule kept_set_goal_status [where m = m])
          (simp_all add: cur)
      ultimately show ?thesis
        using step kept_trans by metis
    qed
  qed
qed

lemma propagate_settles_by:
  assumes "well_formed s" and "gid \<in> goal_ids s" and "\<And>x. R x x"
    and "\<And>g. g \<in> goal_ids s \<Longrightarrow> g \<noteq> gid \<Longrightarrow> settled_by R m s g"
  obtains s' where "propagate m b l gid s = (s', Inr ())" and "well_formed s'"
    and "\<forall>g \<in> goal_ids s'. settled_by R m s' g" and "kept s s'"
proof -
  have "queue_inv R m [gid] s" using assms by (auto simp: queue_inv_def)
  from propagate_loop_settles [OF this assms(3), of b l] obtain s' where s':
      "propagate_loop m b l [gid] s = (s', Inr ())" "queue_inv R m [] s'" "kept s s'" by blast
  then show thesis
    by (intro that [of s']) (auto simp: propagate_def queue_inv_def)
qed

lemma propagate_settles:
  assumes "well_formed s" and "gid \<in> goal_ids s"
    and "\<And>g. g \<in> goal_ids s \<Longrightarrow> g \<noteq> gid \<Longrightarrow> settled m s g"
  obtains s' where "propagate m b l gid s = (s', Inr ())" and "well_formed s'"
    and "all_settled m s'" and "kept s s'"
  using propagate_settles_by [of s gid "(=)" m b l] assms
  by (auto simp: settled_def all_settled_def)

lemma same_proved_any: "settled_by same_proved m s g \<longleftrightarrow> settled_by same_proved m' s g"
  by (simp add: settled_by_def same_proved_def due_status_proved_iff)

lemma propagate_completes:
  assumes "well_formed s" and "gid \<in> goal_ids s"
    and "\<And>g. g \<in> goal_ids s \<Longrightarrow> g \<noteq> gid \<Longrightarrow> settled_by same_proved 0 s g"
  obtains s' where "propagate m b l gid s = (s', Inr ())" and "well_formed s'"
    and "complete_store s'" and "kept s s'"
  using propagate_settles_by [of s gid same_proved m b l] assms same_proved_any [of 0 _ _ m]
  by (auto simp: complete_store_def same_proved_def [of x x for x])



text \<open>
  A proof is never lost: on a sound store, a goal that is \<open>proved\<close> before \<open>propagate\<close> is still
  \<open>proved\<close> after it.
\<close>

theorem proved_is_kept:
  assumes "well_formed s" and "sound_store s" and "gid \<in> goal_ids s"
    and "\<forall>g \<in> goal_ids s - {gid}. settled m s g"
    and "g \<in> goal_ids s" and "status_of s g = GProved"
  shows "status_of (fst (propagate m b l gid s)) g = GProved"
proof -
  obtain s' where s': "propagate m b l gid s = (s', Inr ())" "well_formed s'" "all_settled m s'" "kept s s'"
    using propagate_settles [of s gid m b l] assms by blast
  then show ?thesis using assms by (auto simp: kept_def)
qed

section \<open>The sample store\<close>

lemma sample_status: "status_of sample_store g = GOpen"
  by (simp add: status_of_def sample_store_def new_goal_def empty_store_def)

lemma sample_sound: "sound_store sample_store"
  unfolding sound_store_def sample_goal_ids
  by (simp add: sample_status) (simp add: sample_store_def empty_store_def sample_row_def)

lemma sample_settled: "settled 3 sample_store ''goal_a''"
proof -
  have "decompositions_of sample_store ''goal_a'' = [row_dec sample_store sample_row]"
    by (simp add: decompositions_of_def sample_store_def empty_store_def sample_row_def)
  moreover have "d_status (row_dec sample_store sample_row) = DAccepted"
    by (simp add: sample_row_def)
  moreover have "attempts_of sample_store ''goal_a'' = []"
    by (simp add: attempts_of_def sample_store_def empty_store_def sample_attempt_def)
  ultimately have "due_status 3 sample_store ''goal_a'' = GOpen"
    by (simp add: due_status_def outcomes_of_def goal_status_from_def live_decompositions_def)
  moreover have "due_dec sample_store sample_row = DAccepted"
  proof -
    have "d_subgoal_ids (row_dec sample_store sample_row) = [''goal_b'']"
      by (simp add: row_dec_def sample_store_def sample_row_def)
    then show ?thesis
      by (simp add: due_dec_def sample_status decomposition_status_from_def terminal_decompositions_def)
        (simp add: sample_row_def)
  qed
  ultimately show ?thesis
    by (simp add: settled_def settled_by_def sample_status) (simp add: sample_store_def empty_store_def sample_row_def)
qed

lemma sample_premises:
  "''goal_b'' \<in> goal_ids sample_store"
  "\<forall>g \<in> goal_ids sample_store - {''goal_b''}. settled 3 sample_store g"
  using sample_settled by (auto simp: sample_goal_ids)


lemma sample_derivable: "derivable sample_store ''goal_a''"
proof (rule by_route)
  show "sample_row \<in> set (st_decs sample_store)" by (simp add: sample_store_def)
  show "r_goal_id sample_row = ''goal_a''"
    and "r_status sample_row = DAccepted \<or> r_status sample_row = DCompleted"
    by (simp_all add: sample_row_def)
  have "OProved \<in> set (outcomes_of sample_store ''goal_b'')"
    by (simp add: outcomes_of_def attempts_of_def sample_store_def sample_attempt_def)
  then have "derivable sample_store ''goal_b''" by (rule by_attempt)
  then show "\<forall>c \<in> set (d_subgoal_ids (row_dec sample_store sample_row)). derivable sample_store c"
    by (simp add: row_dec_def sample_store_def sample_row_def)
qed


lemma proved_is_kept_witness:
  "\<exists>s. well_formed s \<and> sound_store s \<and> status_of s ''goal_a'' = GProved \<and>
     status_of (fst (propagate 3 1 ''m'' ''goal_b'' s)) ''goal_a'' = GProved"
proof -
  obtain s where s: "well_formed s" "all_settled 3 s" "kept sample_store s"
    using propagate_settles [OF sample_well_formed sample_premises(1)] sample_premises(2) by blast
  then have s': "goal_ids s = {''goal_a'', ''goal_b''}" "sound_store s" "derivable s ''goal_a''"
    using sample_sound sample_derivable by (auto simp: kept_def sample_goal_ids)
  with settled_proves [OF s(1,2)] have "status_of s ''goal_a'' = GProved" by simp
  moreover have "\<forall>g \<in> goal_ids s - {''goal_b''}. settled 3 s g"
    using s(2) by (auto simp: all_settled_def)
  ultimately show ?thesis
    using proved_is_kept [OF s(1) s'(2), of "''goal_b''" 3 "''goal_a''" 1 "''m''"] s(1) s'(1,2) by auto
qed

end
