(* ===== verification/GraphSteps.thy ===== *)
theory GraphSteps
  imports GraphStatus
begin

text \<open>
  All writes of the store as the steps of one relation, by any worker and in any order, and the
  invariant of the stores they reach: the keys of the schema, an acyclic graph, and statuses that
  a proof backs. The interleaving of two workers whose checks run before their transactions is not
  such a sequence, and can leave a cycle.
\<close>

section \<open>The invariant\<close>

definition good_store :: "graph_store \<Rightarrow> bool" where
  "good_store s \<longleftrightarrow> well_formed s \<and> acyclic (child_rel s) \<and> sound_store s"

lemma good_storeD:
  assumes "good_store s"
  shows "well_formed s" "acyclic (child_rel s)" "sound_store s"
  using assms by (simp_all add: good_store_def)

lemma good_empty: "good_store empty_store"
  by (simp add: good_store_def sound_store_def goal_ids_def empty_store_def child_rel_def wf_acyclic
      well_formed_empty [unfolded empty_store_def])

text \<open>
  Soundness survives a write that keeps the statuses of the goals, keeps the completed
  decompositions with their edges, and forgets no outcome.
\<close>

lemma sound_mono:
  assumes sound: "sound_store s"
    and status: "\<And>g. g \<in> goal_ids s \<Longrightarrow> status_of s' g = status_of s g"
    and new: "\<And>g. g \<in> goal_ids s' \<Longrightarrow> g \<notin> goal_ids s \<Longrightarrow> status_of s' g \<noteq> GProved"
    and outs: "\<And>g. g \<in> goal_ids s \<Longrightarrow> set (outcomes_of s g) \<subseteq> set (outcomes_of s' g)"
    and kept: "\<And>r. r \<in> set (st_decs s) \<Longrightarrow> r_status r = DCompleted \<Longrightarrow> \<exists>r' \<in> set (st_decs s').
      r_goal_id r' = r_goal_id r \<and> r_status r' = DCompleted"
    and old: "\<And>r. r \<in> set (st_decs s') \<Longrightarrow> r_status r = DCompleted \<Longrightarrow>
      r \<in> set (st_decs s) \<and> d_subgoal_ids (row_dec s' r) = d_subgoal_ids (row_dec s r)"
  shows "sound_store s'"
  unfolding sound_store_def
proof (intro conjI ballI impI)
  fix g
  assume "g \<in> goal_ids s'" "status_of s' g = GProved"
  with new status have "g \<in> goal_ids s" "status_of s g = GProved" by metis+
  with sound consider "OProved \<in> set (outcomes_of s g)"
    | r where "r \<in> set (st_decs s)" "r_goal_id r = g" "r_status r = DCompleted"
    by (auto simp: sound_store_def)
  then show "OProved \<in> set (outcomes_of s' g) \<or>
      (\<exists>r \<in> set (st_decs s'). r_goal_id r = g \<and> r_status r = DCompleted)"
    using outs \<open>g \<in> goal_ids s\<close> kept by cases blast+
next
  fix r c
  assume "r \<in> set (st_decs s')" "r_status r = DCompleted" "c \<in> set (d_subgoal_ids (row_dec s' r))"
  with old sound have "status_of s c = GProved" by (auto simp: sound_store_def)
  moreover from this have "c \<in> goal_ids s"
    by (auto simp: status_of_def goal_ids_def split: option.splits dest: row_of_SomeD)
  ultimately show "status_of s' c = GProved" using status by simp
qed

lemma sound_cong:
  assumes "sound_store s" and "st_goals s' = st_goals s" and "st_decs s' = st_decs s"
    and "st_edges s' = st_edges s" and "set (st_attempts s) \<subseteq> set (st_attempts s')"
  shows "sound_store s'"
  using assms(1)
proof (rule sound_mono)
  fix g
  show "set (outcomes_of s g) \<subseteq> set (outcomes_of s' g)"
    using assms(5) by (auto simp: outcomes_of_def attempts_of_def)
  show "status_of s' g = status_of s g" "g \<in> goal_ids s' \<Longrightarrow> g \<notin> goal_ids s \<Longrightarrow> status_of s' g \<noteq> GProved"
    using assms(2) by (simp_all add: status_of_def goal_ids_def)
next
  fix r
  show "r \<in> set (st_decs s') \<Longrightarrow> r_status r = DCompleted \<Longrightarrow>
      r \<in> set (st_decs s) \<and> d_subgoal_ids (row_dec s' r) = d_subgoal_ids (row_dec s r)"
    using assms(3) subgoal_ids_cong [OF assms(4) refl] by simp
qed (use assms(3) in auto)

lemma same_but_goals_sound:
  assumes "sound_store s" and same: "same_but_goals s s'"
  shows "sound_store s'"
  using assms(1)
proof (rule sound_mono)
  fix g
  obtain new where new: "st_goals s' = st_goals s @ new" "\<forall>g \<in> set new. g_status g = GOpen"
    using same by (auto simp: same_but_goals_def)
  show "g \<in> goal_ids s \<Longrightarrow> status_of s' g = status_of s g"
    by (auto simp: status_of_def new(1) row_of_append goal_ids_def dest!: row_of_exists)
  show "g \<notin> goal_ids s \<Longrightarrow> status_of s' g \<noteq> GProved"
    using new(2) by (auto simp: status_of_def new(1) row_of_append goal_ids_def
        row_of_None_iff [THEN iffD2] split: option.splits dest: row_of_SomeD)
  show "set (outcomes_of s g) \<subseteq> set (outcomes_of s' g)"
    using same by (simp add: same_but_goals_def outcomes_of_def attempts_of_def)
next
  fix r
  have same': "st_edges s' = st_edges s" "st_decs s' = st_decs s"
    using same by (simp_all add: same_but_goals_def)
  show "r \<in> set (st_decs s') \<Longrightarrow> r_status r = DCompleted \<Longrightarrow>
      r \<in> set (st_decs s) \<and> d_subgoal_ids (row_dec s' r) = d_subgoal_ids (row_dec s r)"
    using subgoal_ids_cong [OF same'(1) refl] same'(2) by simp
  show "r \<in> set (st_decs s) \<Longrightarrow> r_status r = DCompleted \<Longrightarrow>
      \<exists>r' \<in> set (st_decs s'). r_goal_id r' = r_goal_id r \<and> r_status r' = DCompleted"
    unfolding same' by blast
qed

lemma same_but_goals_good:
  "good_store s \<Longrightarrow> well_formed s' \<Longrightarrow> same_but_goals s s' \<Longrightarrow> good_store s'"
  using same_but_goals_sound same_but_goals_child unfolding good_store_def by metis

lemma good_draws: "good_store s \<Longrightarrow> good_store (s\<lparr>st_draws := n\<rparr>)"
  by (rule same_but_goals_good [of s]) (simp_all add: good_store_def)

section \<open>One write at a time\<close>

lemma upsert_goal_good:
  assumes "upsert_goal u now i st s = (s', r)" and "good_store s"
  shows "good_store s'"
proof -
  define s1 where "s1 = s\<lparr>st_draws := Suc (st_draws s)\<rparr>"
  have s1: "good_store s1" using assms(2) by (simp add: s1_def good_draws)
  show ?thesis
  proof (cases "insert_goal (''goal'' @ ''_'' @ u (st_draws s)) i st now s1")
    case (Inl e)
    with assms(1) s1 show ?thesis by (auto simp: upsert_goal_def s1_def Let_def)
  next
    case (Inr s2)
    have "good_store s2"
      using insert_goal_wf [OF Inr good_storeD(1) [OF s1]] same_but_goals_good [OF s1] by blast
    with assms(1) Inr show ?thesis
      by (auto simp: upsert_goal_def s1_def Let_def split: option.splits)
  qed
qed

lemma add_root_good:
  assumes "add_root gid label s = Inr s'" and "good_store s"
  shows "good_store s'"
proof -
  have s': "gid \<in> goal_ids s" "s' = s\<lparr>st_roots := filter (\<lambda>r. fst r \<noteq> gid) (st_roots s) @ [(gid, label)]\<rparr>"
    using assms(1) by (auto simp: add_root_def split: if_splits)
  then have "well_formed s'"
    using assms(2) by (auto simp: good_store_def well_formed_def goal_ids_def)
  moreover have "sound_store s'"
    using good_storeD(3) [OF assms(2)] by (rule sound_cong) (simp_all add: s')
  moreover have "child_rel s' = child_rel s" by (rule child_rel_cong) (simp_all add: s')
  ultimately show ?thesis using assms(2) by (simp add: good_store_def)
qed

lemma goal_columns_good:
  assumes "goal_columns f" and "\<And>g. g_status (f g) = g_status g" and "good_store s"
  shows "good_store (s\<lparr>st_goals := map f (st_goals s)\<rparr>)"
proof -
  let ?s = "s\<lparr>st_goals := map f (st_goals s)\<rparr>"
  note wf = well_formed_goal_columns [OF assms(1) good_storeD(1) [OF assms(3)]]
  have "row_of g_id g (map f xs) = map_option f (row_of g_id g xs)" for g xs
    using assms(1) by (induction xs) (auto simp: goal_columns_def)
  then have status: "status_of ?s g = status_of s g" for g
    by (simp add: status_of_def assms(2) split: option.splits)
  have "sound_store ?s"
    using good_storeD(3) [OF assms(3)]
  proof (rule sound_mono)
    fix r
    show "r \<in> set (st_decs ?s) \<Longrightarrow> r_status r = DCompleted \<Longrightarrow>
        r \<in> set (st_decs s) \<and> d_subgoal_ids (row_dec ?s r) = d_subgoal_ids (row_dec s r)"
      by (simp add: row_dec_def)
  qed (auto simp: status wf(2) outcomes_of_def attempts_of_def)
  with wf assms(3) show ?thesis by (simp add: good_store_def)
qed

lemma lease_writes_good:
  assumes "good_store s"
  shows "good_store (fst (claim gid owner ttl now s))"
    "good_store (release gid owner s)"
    "good_store (force_release gid s)"
    "good_store (note_attempt_dir gid dir s)"
  unfolding claim_def release_def force_release_def note_attempt_dir_def upd_rows_def Let_def fst_conv
  by (rule goal_columns_good [OF _ _ assms]; simp add: goal_columns_def drop_lease_def)+

lemma if_split_or: "(if p then x else if q then x else y) = (if p \<or> q then x else y)"
  by simp

lemma record_attempt_good:
  assumes "record_attempt u now gid res pt rd ev cost note s = (s', r)" and "good_store s"
  shows "good_store s'"
proof -
  define s1 where "s1 = s\<lparr>st_draws := Suc (st_draws s)\<rparr>"
  have s1: "good_store s1" using assms(2) by (simp add: s1_def good_draws)
  have "\<exists>b a. fst (record_attempt u now gid res pt rd ev cost note s) =
      (if b \<or> gid \<notin> goal_ids s1 then s1 else s1\<lparr>st_attempts := st_attempts s1 @ [a]\<rparr>) \<and> a_goal_id a = gid"
    unfolding record_attempt_def Let_def new_id_eq prod.case s1_def [symmetric] if_distrib [of fst] fst_conv
    unfolding if_split_or by (intro exI conjI, rule refl, simp)
  then consider "s' = s1"
    | a where "gid \<in> goal_ids s1" "a_goal_id a = gid" "s' = s1\<lparr>st_attempts := st_attempts s1 @ [a]\<rparr>"
    unfolding assms(1) fst_conv by (metis (full_types))
  then show ?thesis
  proof cases
    case (2 a)
    have "well_formed s'"
      using s1 2 by (auto simp: good_store_def well_formed_def goal_ids_def)
    moreover have "sound_store s'"
      using good_storeD(3) [OF s1] by (rule sound_cong) (auto simp: 2)
    moreover have "child_rel s' = child_rel s1" by (rule child_rel_cong) (simp_all add: 2)
    ultimately show ?thesis using s1 by (simp add: good_store_def)
  qed (simp add: s1)
qed

lemma record_certification_good:
  assumes "record_certification u now gid ok axs reason sha did trust s = (s', r)" and "good_store s"
  shows "good_store s'"
proof -
  define s1 where "s1 = s\<lparr>st_draws := Suc (st_draws s)\<rparr>"
  have s1: "good_store s1" using assms(2) by (simp add: s1_def good_draws)
  have "\<exists>b c. fst (record_certification u now gid ok axs reason sha did trust s) =
      (if b \<or> gid \<notin> goal_ids s1 then s1 else s1\<lparr>st_certs := st_certs s1 @ [c]\<rparr>) \<and> c_goal_id c = gid"
    unfolding record_certification_def Let_def new_id_eq prod.case s1_def [symmetric] if_distrib [of fst] fst_conv
    unfolding if_split_or by (intro exI conjI, rule refl, simp)
  then consider "s' = s1"
    | c where "gid \<in> goal_ids s1" "c_goal_id c = gid" "s' = s1\<lparr>st_certs := st_certs s1 @ [c]\<rparr>"
    unfolding assms(1) fst_conv by (metis (full_types))
  then show ?thesis
  proof cases
    case (2 c)
    have "well_formed s'"
      using s1 2 by (auto simp: good_store_def well_formed_def goal_ids_def)
    moreover have "sound_store s'"
      using good_storeD(3) [OF s1] by (rule sound_cong) (auto simp: 2)
    moreover have "child_rel s' = child_rel s1" by (rule child_rel_cong) (simp_all add: 2)
    ultimately show ?thesis using s1 by (simp add: good_store_def)
  qed (simp add: s1)
qed

lemma record_envelope_good:
  assumes "record_envelope now digest text sha path s = (s', r)" and "good_store s"
  shows "good_store s'"
proof -
  obtain es where s': "s' = s\<lparr>st_envelopes := es\<rparr>"
  proof -
    define s1 where "s1 = (if digest \<in> e_hash ` set (st_envelopes s) then s
          else s\<lparr>st_envelopes := st_envelopes s @ [\<lparr>e_hash = digest, e_json = text,
            e_candidate_sha256 = sha, e_candidate_path = path, e_created_at = now\<rparr>]\<rparr>)"
    have "fst (record_envelope now digest text sha path s) = s1"
      unfolding record_envelope_def s1_def [symmetric] Let_def by (simp split: option.split)
    with assms(1) have "s' = s1" by simp
    moreover have "s1 = s\<lparr>st_envelopes := st_envelopes s1\<rparr>" by (simp add: s1_def)
    ultimately show thesis by (intro that [of "st_envelopes s1"]) simp
  qed
  have "well_formed s'" by (rule well_formed_cong [of _ s]) (simp_all add: s' good_storeD [OF assms(2)])
  moreover have "sound_store s'"
    using good_storeD(3) [OF assms(2)] by (rule sound_cong) (auto simp: s')
  moreover have "child_rel s' = child_rel s" by (rule child_rel_cong) (simp_all add: s')
  ultimately show ?thesis using assms(2) by (simp add: good_store_def)
qed

lemma written_sound:
  assumes "sound_store s2" and "did \<notin> r_id ` set (st_decs s2)" and "r_id r = did"
    and "r_status r \<noteq> DCompleted"
  shows "sound_store (s2\<lparr>st_decs := st_decs s2 @ [r],
    st_edges := st_edges s2 @ map (Pair did) (enumerate 0 ids)\<rparr>)" (is "sound_store ?s")
  using assms(1)
proof (rule sound_mono)
  fix q
  have old: "filter (\<lambda>(d, _, _). d = r_id q) (map (Pair did) (enumerate 0 ids)) = []"
    if "q \<in> set (st_decs s2)"
    using that assms(2) by (auto simp: filter_empty_conv)
  assume "q \<in> set (st_decs ?s)" "r_status q = DCompleted"
  with assms(4) have "q \<in> set (st_decs s2)" by auto
  with old show "q \<in> set (st_decs s2) \<and> d_subgoal_ids (row_dec ?s q) = d_subgoal_ids (row_dec s2 q)"
    by (simp add: row_dec_def)
qed (auto simp: status_of_def goal_ids_def outcomes_of_def attempts_of_def)

lemma write_decomposition_sound:
  assumes "write_decomposition u now gid subs sk status s = (s', r)" and "well_formed s"
    and sound: "sound_store s" and "status \<noteq> DCompleted"
  shows "sound_store s'"
  using assms(1,2)
proof (cases rule: write_decomposition_cases)
  case (failed e n)
  then show ?thesis using same_but_goals_sound [OF sound same_but_goals_draws [of s n]] by simp
next
  case (written s2 did ids)
  show ?thesis
    unfolding written(7)
    using same_but_goals_sound [OF sound written(2)] written(5) assms(4)
    by (intro written_sound) simp_all
qed

lemma add_decomposition_good:
  assumes add: "add_decomposition u now gid subs sk status s = (s', r)" and "good_store s"
    and "status \<noteq> DCompleted"
  shows "good_store s'"
proof -
  have "sound_store s'"
  proof (cases "check_decomposition gid subs s")
    case (Inl e)
    with assms show ?thesis by (auto simp: add_decomposition_def good_store_def)
  next
    case (Inr x)
    with add have "write_decomposition u now gid subs sk status s = (s', r)"
      by (simp add: add_decomposition_def)
    then show ?thesis
      using good_storeD(1,3) [OF assms(2)] assms(3) by (rule write_decomposition_sound)
  qed
  with add_decomposition_keeps [OF add] assms(2) show ?thesis by (simp add: good_store_def)
qed

lemma set_decomposition_status_good:
  assumes "good_store s" and "status \<noteq> DCompleted"
    and "\<forall>r \<in> set (st_decs s). r_id r = did \<longrightarrow> r_status r \<noteq> DCompleted"
  shows "good_store (set_decomposition_status did status reason s)" (is "good_store ?s")
proof -
  have rows: "r \<in> set (st_decs ?s) \<and> r_status r = DCompleted \<longleftrightarrow> r \<in> set (st_decs s) \<and> r_status r = DCompleted" for r
    unfolding set_decomposition_status_def using assms(2,3) by (auto simp: in_upd_rows)
  have edges: "d_subgoal_ids (row_dec ?s r) = d_subgoal_ids (row_dec s r)" for r
    by (simp add: row_dec_def)
  have "sound_store ?s"
    using good_storeD(3) [OF assms(1)]
  proof (rule sound_mono)
    fix r
    show "r \<in> set (st_decs ?s) \<Longrightarrow> r_status r = DCompleted \<Longrightarrow>
        r \<in> set (st_decs s) \<and> d_subgoal_ids (row_dec ?s r) = d_subgoal_ids (row_dec s r)"
      using rows [of r] edges [of r] by blast
    show "r \<in> set (st_decs s) \<Longrightarrow> r_status r = DCompleted \<Longrightarrow>
        \<exists>r' \<in> set (st_decs ?s). r_goal_id r' = r_goal_id r \<and> r_status r' = DCompleted"
      using rows [of r] by blast
  qed (simp_all add: status_of_def goal_ids_def outcomes_of_def attempts_of_def)
  then show ?thesis
    using assms(1) by (simp add: good_store_def well_formed_set_decomposition_status)
qed

text \<open>\<open>propagate\<close> from any queue, settled or not, and also when it stops with an error.\<close>

lemma propagate_loop_kept:
  "well_formed s \<Longrightarrow> well_formed (fst (propagate_loop m b l pending s))
     \<and> kept s (fst (propagate_loop m b l pending s))"
proof (induction m b l pending s rule: propagate_loop.induct)
  case (1 m b l pending s)
  note wf = 1(3)
  define cur where "cur = last pending"
  let ?s1 = "advanced_store s cur"
  show ?case
  proof (cases "pending = [] \<or> cur \<notin> goal_ids s")
    case True
    then have "fst (propagate_loop m b l pending s) = s"
      by (subst propagate_loop.simps) (auto simp: get_goal_Inl cur_def)
    with wf show ?thesis by (simp add: kept_refl)
  next
    case False
    then have ne: "pending \<noteq> []" and cur: "cur \<in> goal_ids s" by simp_all
    obtain g where g: "get_goal s cur = Inr g" "status_of s cur = g_status g"
      and pass: "advance_decompositions (decompositions_of s cur) s
        = (?s1, Inr (map d_status (decompositions_of ?s1 cur)))"
      by (rule pass_result [OF wf cur])
    show ?thesis
    proof (cases "due_status m ?s1 cur = g_status g")
      case True
      have step: "propagate_loop m b l pending s = propagate_loop m b l (butlast pending) ?s1"
        by (subst propagate_loop.simps)
          (simp add: ne cur_def [symmetric] g pass advanced_due True Let_def)
      have "well_formed (fst (propagate_loop m b l (butlast pending) ?s1))
          \<and> kept ?s1 (fst (propagate_loop m b l (butlast pending) ?s1))"
        using 1(1) [OF ne refl refl g(1) [unfolded cur_def] pass [unfolded cur_def, symmetric] refl refl]
          True advanced_store_wf [OF wf] by (simp add: cur_def [symmetric] advanced_due)
      with step kept_trans [OF kept_advanced] show ?thesis by metis
    next
      case change: False
      define s2 where "s2 = set_goal_status cur (due_status m ?s1 cur) b l ?s1"
      have step: "propagate_loop m b l pending s
          = propagate_loop m b l (butlast pending @ parents_of s2 cur) s2"
        by (subst propagate_loop.simps)
          (simp add: ne cur_def [symmetric] g pass advanced_due change s2_def Let_def)
      have wf2: "well_formed s2"
        unfolding s2_def by (rule well_formed_set_goal_status [OF advanced_store_wf [OF wf]])
      have "well_formed (fst (propagate_loop m b l (butlast pending @ parents_of s2 cur) s2))
          \<and> kept s2 (fst (propagate_loop m b l (butlast pending @ parents_of s2 cur) s2))"
        using 1(2) [OF ne refl refl g(1) [unfolded cur_def] pass [unfolded cur_def, symmetric] refl refl]
          change wf2 by (simp add: cur_def [symmetric] advanced_due s2_def)
      moreover have "kept s s2"
        unfolding s2_def
        by (rule kept_trans [OF kept_advanced], rule kept_set_goal_status [where m = m])
          (simp_all add: cur)
      ultimately show ?thesis using step kept_trans by metis
    qed
  qed
qed

lemma propagate_good:
  assumes "good_store s"
  shows "good_store (fst (propagate m b l gid s))"
  using propagate_loop_kept [OF good_storeD(1) [OF assms], of m b l "[gid]"] assms
  by (simp add: good_store_def propagate_def kept_def)

section \<open>The steps\<close>

text \<open>
  A step is one call of one worker: ids come from the common stream \<open>u\<close>, the other arguments are
  free. A decomposition is never added or marked as completed from outside (only \<open>propagate\<close> does),
  and a verdict is given to a proposed one.
\<close>

inductive graph_step :: "(nat \<Rightarrow> string) \<Rightarrow> graph_store \<Rightarrow> graph_store \<Rightarrow> bool" for u where
  upsert: "upsert_goal u now i st s = (s', r) \<Longrightarrow> graph_step u s s'"
| root: "add_root gid label s = Inr s' \<Longrightarrow> graph_step u s s'"
| decompose: "add_decomposition u now gid subs sk status s = (s', r) \<Longrightarrow> status \<noteq> DCompleted \<Longrightarrow>
    graph_step u s s'"
| verdict: "status \<in> {DAccepted, DRejectedByVerifier, DRejectedByReviewer} \<Longrightarrow>
    \<forall>r \<in> set (st_decs s). r_id r = did \<longrightarrow> r_status r = DProposed \<Longrightarrow>
    graph_step u s (set_decomposition_status did status reason s)"
| attempted: "record_attempt u now gid res pt rd ev cost note s = (s', r) \<Longrightarrow> graph_step u s s'"
| certified: "record_certification u now gid ok axs reason sha did trust s = (s', r) \<Longrightarrow>
    graph_step u s s'"
| enveloped: "record_envelope now digest text sha path s = (s', r) \<Longrightarrow> graph_step u s s'"
| claimed: "graph_step u s (fst (claim gid owner ttl now s))"
| noted: "graph_step u s (note_attempt_dir gid dir s)"
| released: "graph_step u s (release gid owner s)"
| forced: "graph_step u s (force_release gid s)"
| propagated: "graph_step u s (fst (propagate m b l gid s))"

inductive_cases graph_stepE: "graph_step u s s'"

lemma graph_step_good:
  assumes "graph_step u s s'" and "good_store s"
  shows "good_store s'"
  using assms
proof cases
  case (verdict status did reason)
  then show ?thesis
    using set_decomposition_status_good [OF assms(2), of status did reason] by auto
qed (auto intro: upsert_goal_good add_root_good add_decomposition_good record_attempt_good
    record_certification_good record_envelope_good lease_writes_good propagate_good)


section \<open>Two workers\<close>

text \<open>
  A store with two roots, \<open>goal_\<close> of identity \<open>A\<close> and \<open>goal_x\<close> of identity \<open>B\<close>, and the two
  transactions of workers that decompose \<open>A\<close> into \<open>B\<close> and \<open>B\<close> into \<open>A\<close>.
\<close>

definition race_ids :: "nat \<Rightarrow> string" where
  "race_ids n = replicate n (CHR ''x'')"

definition race_store :: graph_store where
  "race_store = fst (upsert_goal race_ids 1 ''B'' ''theorem B''
     (fst (upsert_goal race_ids 0 ''A'' ''theorem A'' empty_store)))"

definition race_first :: "graph_store \<times> (proof_error + decomposition)" where
  "race_first = write_decomposition race_ids 2 ''goal_'' [(''B'', ''theorem B'')] None DProposed
     race_store"

definition race_second :: "graph_store \<times> (proof_error + decomposition)" where
  "race_second = write_decomposition race_ids 3 ''goal_x'' [(''A'', ''theorem A'')] None DProposed
     (fst race_first)"

lemmas race_eval = write_decomposition_def race_ids_def insert_goal_def empty_store_def goal_ids_def
  goal_by_identity_def new_goal_def get_decomposition_def row_dec_def numeral_eq_Suc

lemma race_store_eq: "race_store = empty_store\<lparr>st_goals := [new_goal ''goal_'' ''A'' ''theorem A'' 0,
    new_goal ''goal_x'' ''B'' ''theorem B'' 1], st_draws := 2\<rparr>"
  by (simp add: race_store_def upsert_goal_def race_eval)

lemma race_first_eq: "race_first = (race_store\<lparr>st_decs := [\<lparr>r_id = ''dec_xx'', r_goal_id = ''goal_'',
      r_status = DProposed, r_reason = [], r_sketch = None, r_created_at = 2\<rparr>],
    st_edges := [(''dec_xx'', 0, ''goal_x'')], st_draws := 4\<rparr>,
  Inr \<lparr>d_id = ''dec_xx'', d_goal_id = ''goal_'', d_subgoal_ids = [''goal_x''], d_status = DProposed,
    d_rejected_reason = []\<rparr>)"
  by (simp add: race_first_def race_store_eq race_eval)

lemma race_second_eq: "race_second = (race_store\<lparr>st_decs := [\<lparr>r_id = ''dec_xx'', r_goal_id = ''goal_'',
      r_status = DProposed, r_reason = [], r_sketch = None, r_created_at = 2\<rparr>,
     \<lparr>r_id = ''dec_xxxx'', r_goal_id = ''goal_x'',
      r_status = DProposed, r_reason = [], r_sketch = None, r_created_at = 3\<rparr>],
    st_edges := [(''dec_xx'', 0, ''goal_x''), (''dec_xxxx'', 0, ''goal_'')], st_draws := 6\<rparr>,
  Inr \<lparr>d_id = ''dec_xxxx'', d_goal_id = ''goal_x'', d_subgoal_ids = [''goal_''], d_status = DProposed,
    d_rejected_reason = []\<rparr>)"
  by (simp add: race_second_def race_first_eq race_store_eq race_eval)

lemma child_rel_iff: "(p, c) \<in> child_rel s \<longleftrightarrow>
    (\<exists>r \<in> set (st_decs s). r_goal_id r = p \<and> (\<exists>i. (r_id r, i, c) \<in> set (st_edges s)))"
  by (auto simp: child_rel_def)

lemmas check_eval = check_decomposition_def get_goal_def new_goal_def ancestor_identities_def
  ancestors_loop.simps parents_of_def empty_store_def

lemma race_checks:
  "check_decomposition ''goal_'' [(''B'', st)] race_store = Inr ()"
  "check_decomposition ''goal_x'' [(''A'', st)] race_store = Inr ()"
  "check_decomposition ''goal_x'' [(''A'', st)] (fst race_first) = Inl (CycleError [''A''])"
  by (simp_all add: race_first_eq race_store_eq check_eval check_acyclic_cases sorted_set_def)

text \<open>
  C18: The ancestor check of \<open>add_decomposition\<close> is not part of its transaction. Two workers who both
  pass the check before either writes commit two decompositions that close a cycle, which the
  same two calls one after the other cannot: the second is then refused with a cycle error.
\<close>

theorem interleaved_checks_close_a_cycle:
  "check_decomposition ''goal_'' [(''B'', ''theorem B'')] race_store = Inr () \<and>
   check_decomposition ''goal_x'' [(''A'', ''theorem A'')] race_store = Inr () \<and>
   (\<exists>d. snd race_first = Inr d) \<and> (\<exists>d. snd race_second = Inr d) \<and>
   \<not> acyclic (child_rel (fst race_second)) \<and>
   snd (add_decomposition race_ids 3 ''goal_x'' [(''A'', ''theorem A'')] None DProposed (fst race_first))
     = Inl (CycleError [''A''])"
proof -
  have "(''goal_'', ''goal_x'') \<in> child_rel (fst race_second)"
    "(''goal_x'', ''goal_'') \<in> child_rel (fst race_second)"
    by (simp_all add: race_second_eq child_rel_iff)
  then have "(''goal_'', ''goal_'') \<in> (child_rel (fst race_second))\<^sup>+" by (rule trancl.intros(2) [OF r_into_trancl])
  then have "\<not> acyclic (child_rel (fst race_second))" by (auto simp: acyclic_def)
  then show ?thesis
    by (simp add: race_checks add_decomposition_def) (simp add: race_first_eq race_second_eq)
qed

lemma race_reachable: "(graph_step race_ids)\<^sup>*\<^sup>* empty_store
    (fst (add_decomposition race_ids 2 ''goal_'' [(''B'', ''theorem B'')] None DProposed race_store))"
proof -
  have up: "graph_step race_ids s (fst (upsert_goal race_ids now i st s))" for s now i st
    by (rule upsert [OF prod.collapse [symmetric]])
  have "(graph_step race_ids)\<^sup>*\<^sup>* empty_store race_store"
    unfolding race_store_def using up by (blast intro: rtranclp.intros)
  moreover have "graph_step race_ids race_store
      (fst (add_decomposition race_ids 2 ''goal_'' [(''B'', ''theorem B'')] None DProposed race_store))"
    by (rule decompose [OF prod.collapse [symmetric]]) simp
  ultimately show ?thesis by (rule rtranclp.rtrancl_into_rtrancl)
qed


end
