(* ===== verification/Leases.thy ===== *)
theory Leases
  imports GraphSteps
begin

text \<open>
  Leases: who may work on a goal. The interface is a table of holders that depends on the time;
  its client lemma is mutual exclusion over any interleaving of claims and releases. The rows of
  \<open>goals\<close> with \<open>claim\<close> and \<open>release\<close> provide it.
\<close>

section \<open>The interface\<close>

datatype ('k, 'o) lease_event = Claim 'k 'o real real | Release 'k 'o

text \<open>Running a sequence of events: the state at the end and the keys that a claim obtained.\<close>

fun run_events ::
  "('k \<Rightarrow> 'o \<Rightarrow> real \<Rightarrow> real \<Rightarrow> 's \<Rightarrow> 's \<times> bool) \<Rightarrow> ('k \<Rightarrow> 'o \<Rightarrow> 's \<Rightarrow> 's) \<Rightarrow>
     ('k, 'o) lease_event list \<Rightarrow> 's \<Rightarrow> 's \<times> ('k \<times> 'o) list" where
  "run_events acquire drp [] s = (s, [])"
| "run_events acquire drp (Claim k w ttl now # es) s =
     (case acquire k w ttl now s of (s1, won) \<Rightarrow>
        (case run_events acquire drp es s1 of (s2, ws) \<Rightarrow> (s2, if won then (k, w) # ws else ws)))"
| "run_events acquire drp (Release k w # es) s = run_events acquire drp es (drp k w s)"

fun before :: "real \<Rightarrow> ('k, 'o) lease_event \<Rightarrow> bool" where
  "before limit (Claim k w ttl now) \<longleftrightarrow> now < limit"
| "before limit (Release k w) \<longleftrightarrow> True"

locale lease =
  fixes inv :: "'s \<Rightarrow> bool"
    and keys :: "'s \<Rightarrow> 'k set"
    and holder :: "'s \<Rightarrow> 'k \<Rightarrow> real \<Rightarrow> 'o option"
    and acquire :: "'k \<Rightarrow> 'o \<Rightarrow> real \<Rightarrow> real \<Rightarrow> 's \<Rightarrow> 's \<times> bool"
    and drp :: "'k \<Rightarrow> 'o \<Rightarrow> 's \<Rightarrow> 's"
  assumes acquire_iff: "inv s \<Longrightarrow> snd (acquire k w ttl now s) \<longleftrightarrow> k \<in> keys s \<and> holder s k now = None"
    and acquire_holder: "inv s \<Longrightarrow> holder (fst (acquire k w ttl now s)) j t =
      (if j = k \<and> snd (acquire k w ttl now s) then (if t < now + ttl then Some w else None)
       else holder s j t)"
    and drop_holder: "inv s \<Longrightarrow> holder (drp k w s) j t =
      (if j = k \<and> holder s k t = Some w then None else holder s j t)"
    and acquire_inv: "inv s \<Longrightarrow> inv (fst (acquire k w ttl now s))"
    and drop_inv: "inv s \<Longrightarrow> inv (drp k w s)"
    and acquire_keys: "inv s \<Longrightarrow> keys (fst (acquire k w ttl now s)) = keys s"
    and drop_keys: "inv s \<Longrightarrow> keys (drp k w s) = keys s"
begin

lemma exclusion:
  assumes "inv s" and "\<And>t. t < limit \<Longrightarrow> holder s k t = Some w"
    and "\<forall>e \<in> set es. before limit e" and "Release k w \<notin> set es"
  shows "k \<notin> fst ` set (snd (run_events acquire drp es s))
    \<and> (\<forall>t < limit. holder (fst (run_events acquire drp es s)) k t = Some w)"
  using assms
proof (induction es arbitrary: s)
  case (Cons e es)
  show ?case
  proof (cases e)
    case (Claim j v ttl now)
    let ?s = "fst (acquire j v ttl now s)"
    have lost: "j = k \<Longrightarrow> \<not> snd (acquire j v ttl now s)"
      using Cons.prems Claim by (auto simp: acquire_iff)
    then have "holder ?s k t = Some w" if "t < limit" for t
      using that Cons.prems by (auto simp: acquire_holder)
    with Cons.IH [of ?s] Cons.prems lost show ?thesis
      by (auto simp: Claim acquire_inv split_beta)
  next
    case (Release j v)
    have "holder (drp j v s) k t = Some w" if "t < limit" for t
      using that Cons.prems Release by (auto simp: drop_holder)
    with Cons.IH [of "drp j v s"] Cons.prems show ?thesis
      by (auto simp: Release drop_inv)
  qed
qed simp

lemma exclusion_after_claim:
  assumes "inv s" and "snd (acquire k w ttl now s)"
    and "\<forall>e \<in> set es. before (now + ttl) e" and "Release k w \<notin> set es"
  shows "k \<notin> fst ` set (snd (run_events acquire drp es (fst (acquire k w ttl now s))))
    \<and> (\<forall>t < now + ttl. holder (fst (run_events acquire drp es (fst (acquire k w ttl now s)))) k t = Some w)"
  using assms by (intro exclusion) (auto simp: acquire_inv acquire_holder)

lemma reclaim_after_release:
  assumes "inv s" and "k \<in> keys s" and "holder s k now = Some w \<or> holder s k now = None"
  shows "snd (acquire k v ttl now (drp k w s))"
  using assms by (auto simp: acquire_iff drop_inv drop_keys drop_holder)

end

section \<open>The leases of the store\<close>

definition lease_holder :: "graph_store \<Rightarrow> string \<Rightarrow> real \<Rightarrow> string option" where
  "lease_holder s gid now = (case row_of g_id gid (st_goals s) of None \<Rightarrow> None
     | Some g \<Rightarrow> if claimable now g then None else g_lease_owner g)"

definition unique_goals :: "graph_store \<Rightarrow> bool" where
  "unique_goals s \<longleftrightarrow> distinct (map g_id (st_goals s))"

lemma row_of_map_same:
  "(\<And>r. key (f r) = key r) \<Longrightarrow> row_of key k (map f rs) = map_option f (row_of key k rs)"
  by (induction rs) auto

lemma filter_one_row:
  assumes "distinct (map key rs)"
  shows "length (filter (\<lambda>r. key r = k \<and> P r) rs) = 1 \<longleftrightarrow> (\<exists>r. row_of key k rs = Some r \<and> P r)"
  using assms
proof (induction rs)
  case (Cons r rs)
  show ?case
  proof (cases "key r = k")
    case True
    with Cons.prems have "filter (\<lambda>r. key r = k \<and> P r) rs = []"
      by (auto simp: filter_empty_conv image_iff)
    with True show ?thesis by simp
  next
    case False
    with Cons show ?thesis by simp
  qed
qed simp

lemma claimed_iff:
  assumes "unique_goals s"
  shows "snd (claim gid owner ttl now s) \<longleftrightarrow> (\<exists>g. row_of g_id gid (st_goals s) = Some g \<and> claimable now g)"
  using filter_one_row [of g_id "st_goals s" gid "claimable now"] assms
  by (simp add: claim_def unique_goals_def)

lemma lease_write_ids:
  "map g_id (st_goals (fst (claim k w ttl now s))) = map g_id (st_goals s)"
  "map g_id (st_goals (release k w s)) = map g_id (st_goals s)"
  unfolding claim_def release_def Let_def fst_conv by (auto simp: drop_lease_def)

interpretation goal_lease: lease unique_goals goal_ids lease_holder claim release
proof (unfold_locales, goal_cases)
  case (1 s k w ttl now)
  then show ?case
    by (auto simp: claimed_iff lease_holder_def goal_ids_def claimable_def split: option.splits
        simp: row_of_None_iff dest: row_of_SomeD)
next
  case (2 s k w ttl now j t)
  have "row_of g_id j (st_goals (fst (claim k w ttl now s)))
      = map_option (\<lambda>g. if g_id g = k \<and> claimable now g then g\<lparr>g_lease_owner := Some w,
           g_lease_expires_at := Some (now + ttl), g_lease_run_dir := None\<rparr> else g)
         (row_of g_id j (st_goals s))"
    unfolding claim_def Let_def by (simp add: row_of_map_same)
  note row = this
  show ?case
  proof (cases "row_of g_id j (st_goals s)")
    case None
    then show ?thesis by (auto simp: claimed_iff [OF 2] lease_holder_def row)
  next
    case (Some g)
    then have "g_id g = j" using row_of_SomeD by metis
    show ?thesis
    proof (cases "j = k \<and> claimable now g")
      case True
      with Some row have "row_of g_id k (st_goals (fst (claim k w ttl now s))) = Some (g\<lparr>g_lease_owner := Some w,
          g_lease_expires_at := Some (now + ttl), g_lease_run_dir := None\<rparr>)"
        using \<open>g_id g = j\<close> by simp
      with True Some show ?thesis
        by (simp add: claimed_iff [OF 2] lease_holder_def) (simp add: claimable_def not_le)
    next
      case False
      with Some row have "row_of g_id j (st_goals (fst (claim k w ttl now s))) = Some g"
        using \<open>g_id g = j\<close> by auto
      with False Some show ?thesis by (auto simp: claimed_iff [OF 2] lease_holder_def)
    qed
  qed
next
  case (3 s k w j t)
  have "row_of g_id j (st_goals (release k w s))
      = map_option (\<lambda>g. if g_id g = k \<and> g_lease_owner g = Some w then drop_lease g else g)
         (row_of g_id j (st_goals s))"
    unfolding release_def by (simp add: row_of_map_same drop_lease_def)
  note row = this
  show ?case
  proof (cases "row_of g_id j (st_goals s)")
    case None
    then show ?thesis by (simp add: lease_holder_def row)
  next
    case (Some g)
    then have "g_id g = j" using row_of_SomeD by metis
    show ?thesis
    proof (cases "j = k \<and> g_lease_owner g = Some w")
      case True
      with Some row have "row_of g_id k (st_goals (release k w s)) = Some (drop_lease g)"
        using \<open>g_id g = j\<close> by simp
      with True Some show ?thesis by (simp add: lease_holder_def claimable_def drop_lease_def)
    next
      case False
      with Some row have "row_of g_id j (st_goals (release k w s)) = Some g"
        using \<open>g_id g = j\<close> by auto
      with False Some show ?thesis by (auto simp: lease_holder_def)
    qed
  qed
next
  case (4 s k w ttl now)
  then show ?case by (simp add: unique_goals_def lease_write_ids)
next
  case (5 s k w)
  then show ?case by (simp add: unique_goals_def lease_write_ids)
next
  case (6 s k w ttl now)
  show ?case by (rule goal_ids_cong) (rule lease_write_ids)
next
  case (7 s k w)
  show ?case by (rule goal_ids_cong) (rule lease_write_ids)
qed

text \<open>
  C10: Mutual exclusion. After a successful \<open>claim\<close>, through any sequence of further claims and
  releases by any workers, as long as the lease has not expired and its owner has not released it,
  no claim of that goal succeeds and the owner still holds it.
\<close>

theorem lease_is_exclusive:
  assumes "unique_goals s" and "snd (claim gid owner ttl now s)"
    and "\<forall>e \<in> set es. before (now + ttl) e" and "Release gid owner \<notin> set es"
  shows "gid \<notin> fst ` set (snd (run_events claim release es (fst (claim gid owner ttl now s))))
    \<and> (\<forall>t < now + ttl.
        lease_holder (fst (run_events claim release es (fst (claim gid owner ttl now s)))) gid t = Some owner)"
  using assms by (rule goal_lease.exclusion_after_claim)

lemma lease_is_exclusive_witness:
  "snd (claim ''goal_a'' ''w1'' 10 0 sample_store) \<and>
   ''goal_a'' \<notin> fst ` set (snd (run_events claim release
      [Claim ''goal_a'' ''w2'' 5 3, Release ''goal_a'' ''w2'', Claim ''goal_a'' ''w3'' 5 9]
      (fst (claim ''goal_a'' ''w1'' 10 0 sample_store))))"
proof -
  have u: "unique_goals sample_store"
    using sample_well_formed by (simp add: unique_goals_def well_formed_def)
  have won: "snd (claim ''goal_a'' ''w1'' 10 0 sample_store)"
    by (simp add: claim_def sample_store_def new_goal_def claimable_def)
  then show ?thesis
    using lease_is_exclusive [OF u won, of "[Claim ''goal_a'' ''w2'' 5 3, Release ''goal_a'' ''w2'',
      Claim ''goal_a'' ''w3'' 5 9]"] by simp
qed

text \<open>
  A claim succeeds exactly when the goal exists and nobody holds it at that time, and then the
  owner holds it until \<open>now + ttl\<close> and no longer; a claim that fails changes no lease.
\<close>

theorem claim_characterisation:
  assumes "unique_goals s"
  shows "(snd (claim gid owner ttl now s) \<longleftrightarrow> gid \<in> goal_ids s \<and> lease_holder s gid now = None) \<and>
    lease_holder (fst (claim gid owner ttl now s)) j t =
      (if j = gid \<and> snd (claim gid owner ttl now s) then (if t < now + ttl then Some owner else None)
       else lease_holder s j t)"
  using goal_lease.acquire_iff [OF assms] goal_lease.acquire_holder [OF assms] by simp

lemma claim_characterisation_witness:
  "lease_holder (fst (claim ''goal_a'' ''w1'' 10 0 sample_store)) ''goal_a'' 9 = Some ''w1'' \<and>
   lease_holder (fst (claim ''goal_a'' ''w1'' 10 0 sample_store)) ''goal_a'' 10 = None"
proof -
  have u: "unique_goals sample_store"
    using sample_well_formed by (simp add: unique_goals_def well_formed_def)
  have "snd (claim ''goal_a'' ''w1'' 10 0 sample_store)"
    by (simp add: claim_def sample_store_def new_goal_def claimable_def)
  then show ?thesis
    using claim_characterisation [OF u, of "''goal_a''" "''w1''" 10 0 "''goal_a''"] by simp
qed

end
