(* ===== verification/Solver.thy ===== *)
theory Solver
  imports ProofGraph
begin

text \<open>
  \<open>proof/solver.py\<close>: how one attempt at a goal ended. The constructor of \<open>AttemptResult\<close> refuses a
  proved attempt without its text and a text without a proof; \<open>from_run_report\<close> reads the outcome
  off a finished run, \<open>interrupted\<close> records one that never returned, and the stub solver replays a
  script. How a number is printed in a note is a parameter.
\<close>

section \<open>Attempt results\<close>

definition infra_reasons :: "string list" where
  "infra_reasons = [''eval_infra'', ''proposer_dead'']"

definition budget_reasons :: "string list" where
  "budget_reasons = [''budget'', ''llm_billing'']"

record attempt_result =
  ar_outcome :: outcome
  ar_proof_text :: "string option"
  ar_run_dir :: "string option"
  ar_evidence :: "string option"
  ar_cost :: real
  ar_note :: string

text \<open>An optional text is false when it is \<open>None\<close> or empty.\<close>

definition truthy :: "string option \<Rightarrow> bool" where
  "truthy t \<longleftrightarrow> t \<noteq> None \<and> t \<noteq> Some []"

definition mk_attempt_result ::
  "outcome \<Rightarrow> string option \<Rightarrow> string option \<Rightarrow> string option \<Rightarrow> real \<Rightarrow> string
     \<Rightarrow> proof_error + attempt_result" where
  "mk_attempt_result res proof_text run_dir evidence cost note =
     (if res = OProved \<and> \<not> truthy proof_text
      then Inl (ValueError (''a PROVED attempt must carry its proof text; without it the '' @
        ''graph holds a proved goal with nothing to assemble''))
      else if res \<noteq> OProved \<and> truthy proof_text
      then Inl (ValueError (''a '' @ outcome_value res @ '' attempt cannot carry proof text''))
      else Inr \<lparr>ar_outcome = res, ar_proof_text = proof_text, ar_run_dir = run_dir,
        ar_evidence = evidence, ar_cost = cost, ar_note = note\<rparr>)"

text \<open>What is read off a run report; an absent attribute reads as its default.\<close>

record run_report =
  rr_stopped_reason :: string
  rr_best_fitness :: "real option"
  rr_total_llm_cost :: "real option"

definition from_run_report ::
  "(real option \<Rightarrow> string) \<Rightarrow> run_report \<Rightarrow> string option \<Rightarrow> real \<Rightarrow> string option \<Rightarrow> string option
     \<Rightarrow> proof_error + attempt_result" where
  "from_run_report fmt report run_dir solved_at proof_text evidence =
     (let reason = rr_stopped_reason report;
          cost = (case rr_total_llm_cost report of None \<Rightarrow> 0 | Some c \<Rightarrow> c) in
      if (case rr_best_fitness report of None \<Rightarrow> False | Some f \<Rightarrow> f \<ge> solved_at)
      then if \<not> truthy proof_text
        then Inl (SolverError (''run reached the solved threshold but no proof text was '' @
          ''extracted from its best candidate''))
        else mk_attempt_result OProved proof_text run_dir evidence cost (''stopped_reason='' @ reason)
      else if reason \<in> set infra_reasons
      then mk_attempt_result OInfraFailed None run_dir None cost (''stopped_reason='' @ reason)
      else if reason \<in> set budget_reasons
      then mk_attempt_result OBudgetExhausted None run_dir None cost (''stopped_reason='' @ reason)
      else mk_attempt_result OTaskFailed None run_dir None cost
        (''stopped_reason='' @ reason @ '' best_fitness='' @ fmt (rr_best_fitness report)))"

definition interrupted :: "string option \<Rightarrow> string \<Rightarrow> proof_error + attempt_result" where
  "interrupted run_dir note = mk_attempt_result OInterrupted None run_dir None 0
     (str_or (Some note) ''run did not return; manifest not finalized'')"

section \<open>The stub solver\<close>

record stub_solver =
  ss_script :: "string \<rightharpoonup> outcome list"
  ss_proofs :: "string \<rightharpoonup> string"
  ss_default :: outcome
  ss_cost :: real
  ss_calls :: "string list"
  ss_cursor :: "string \<rightharpoonup> nat"

definition stub_proof :: "goal \<Rightarrow> string" where
  "stub_proof g = ''-- stub proof for '' @ g_identity g @ nl @ g_statement g"

definition stub_attack ::
  "(real \<Rightarrow> string) \<Rightarrow> goal \<Rightarrow> real \<Rightarrow> stub_solver \<Rightarrow> stub_solver \<times> (proof_error + attempt_result)" where
  "stub_attack fmt g budget ss =
     (let ss1 = ss\<lparr>ss_calls := ss_calls ss @ [g_identity g]\<rparr> in
      if budget < ss_cost ss
      then (ss1, mk_attempt_result OBudgetExhausted None None None 0
        (''budget '' @ fmt budget @ '' below '' @ fmt (ss_cost ss)))
      else let planned = (case ss_script ss (g_identity g) of None \<Rightarrow> [] | Some p \<Rightarrow> p);
               index = (case ss_cursor ss (g_identity g) of None \<Rightarrow> 0 | Some i \<Rightarrow> i);
               res = (if index < length planned then planned ! index else ss_default ss);
               proof_text = (if res = OProved
                 then Some (str_or (ss_proofs ss (g_identity g)) (stub_proof g)) else None) in
        (ss1\<lparr>ss_cursor := (ss_cursor ss)(g_identity g \<mapsto> index + 1)\<rparr>,
         mk_attempt_result res proof_text None None (ss_cost ss)
           (''stub attempt '' @ nat_str (index + 1) @ '' for '' @ g_identity g)))"

section \<open>What an attempt promises\<close>

lemma mk_attempt_result_Inr:
  "mk_attempt_result res pt rd ev c n = Inr r \<longleftrightarrow> (res = OProved \<longleftrightarrow> truthy pt) \<and>
     r = \<lparr>ar_outcome = res, ar_proof_text = pt, ar_run_dir = rd, ar_evidence = ev, ar_cost = c, ar_note = n\<rparr>"
  unfolding mk_attempt_result_def by (cases "res = OProved"; cases "truthy pt"; auto)

lemma truthy_None [simp]: "\<not> truthy None"
  by (simp add: truthy_def)

text \<open>
  The verdict of a finished run. It is proved exactly when the fitness reached the threshold,
  whatever stopped the run; otherwise an infrastructure reason gives \<open>infra-failed\<close>, a budget reason
  \<open>budget-exhausted\<close>, and every other reason \<open>task-failed\<close>: a finished run is never interrupted
  and never timed out, and carries a text exactly when it is proved.
\<close>

theorem run_report_verdict:
  assumes "from_run_report fmt report run_dir solved_at proof_text evidence = Inr r"
  defines "solved \<equiv> \<exists>f. rr_best_fitness report = Some f \<and> f \<ge> solved_at"
  shows "ar_outcome r = (if solved then OProved
      else if rr_stopped_reason report \<in> set infra_reasons then OInfraFailed
      else if rr_stopped_reason report \<in> set budget_reasons then OBudgetExhausted
      else OTaskFailed) \<and> (truthy (ar_proof_text r) \<longleftrightarrow> solved)"
proof -
  have solved: "(case rr_best_fitness report of None \<Rightarrow> False | Some f \<Rightarrow> f \<ge> solved_at) \<longleftrightarrow> solved"
    by (auto simp: solved_def split: option.splits)
  show ?thesis
    using assms(1) unfolding from_run_report_def Let_def solved
    by (cases solved; cases "rr_stopped_reason report \<in> set infra_reasons";
        cases "rr_stopped_reason report \<in> set budget_reasons")
      (auto simp: mk_attempt_result_Inr split: if_splits)
qed

lemma run_report_verdict_witness:
  "\<exists>r. from_run_report (\<lambda>_. ''1.0'') \<lparr>rr_stopped_reason = ''eval_infra'', rr_best_fitness = Some 1,
      rr_total_llm_cost = None\<rparr> None 1 (Some ''rfl'') None = Inr r \<and> ar_outcome r = OProved"
proof -
  let ?rep = "\<lparr>rr_stopped_reason = ''eval_infra'', rr_best_fitness = Some (1::real), rr_total_llm_cost = None\<rparr>"
  have "\<exists>r. from_run_report (\<lambda>_. ''1.0'') ?rep None 1 (Some ''rfl'') None = Inr r"
    by (simp add: from_run_report_def mk_attempt_result_def truthy_def)
  then show ?thesis using run_report_verdict [of "\<lambda>_. ''1.0''" ?rep None 1 "Some ''rfl''" None] by fastforce
qed

end
