(* ===== verification/SteadyStores.thy ===== *)
theory SteadyStores
  imports Leases
begin

text \<open>
  What holds of the store between any two calls of the controller. A store is \<open>steady\<close> when it
  satisfies the invariant of its writes and every goal that its attempts and routes prove is marked
  so; it is \<open>nearly\<close> steady at a goal when only that goal may be behind, which is the state between
  a write and the \<open>propagate\<close> that follows it.
\<close>

definition steady :: "graph_store \<Rightarrow> bool" where
  "steady s \<longleftrightarrow> good_store s \<and> complete_store s"

definition nearly :: "string \<Rightarrow> graph_store \<Rightarrow> bool" where
  "nearly gid s \<longleftrightarrow> good_store s \<and> gid \<in> goal_ids s \<and>
     (\<forall>g \<in> goal_ids s - {gid}. settled_by same_proved 0 s g)"

lemma steady_empty: "steady empty_store"
  using good_empty by (simp add: steady_def complete_store_def goal_ids_def) (simp add: empty_store_def)

lemma steadyD: "steady s \<Longrightarrow> good_store s" "steady s \<Longrightarrow> well_formed s"
  by (simp_all add: steady_def good_store_def)

lemma steady_nearly: "steady s \<Longrightarrow> gid \<in> goal_ids s \<Longrightarrow> nearly gid s"
  by (simp add: steady_def nearly_def complete_store_def)

text \<open>
  A goal stays settled when the statuses of the old goals stay, no proved outcome is added to it,
  and each of its rows is an old one or one that no proof can advance.
\<close>

lemma settled_mono:
  assumes old: "settled_by same_proved 0 s g" and wf: "well_formed s"
    and status: "\<And>c. c \<in> goal_ids s \<Longrightarrow> status_of s' c = status_of s c" and g: "g \<in> goal_ids s"
    and outs: "OProved \<in> set (outcomes_of s' g) \<Longrightarrow> OProved \<in> set (outcomes_of s g)"
    and rows: "\<And>r. r \<in> set (st_decs s') \<Longrightarrow> r_goal_id r = g \<Longrightarrow>
      r_status r \<in> {DProposed, DRejectedByVerifier, DRejectedByReviewer} \<or>
      r \<in> set (st_decs s) \<and> d_subgoal_ids (row_dec s' r) = d_subgoal_ids (row_dec s r)"
  shows "settled_by same_proved 0 s' g"
proof -
  have due: "due_dec s' r = r_status r" if r: "r \<in> set (st_decs s')" "r_goal_id r = g" for r
  proof (cases "r_status r \<in> {DProposed, DRejectedByVerifier, DRejectedByReviewer}")
    case True
    then show ?thesis by (auto simp: due_dec_def)
  next
    case False
    with rows [OF r] have q: "r \<in> set (st_decs s)" "d_subgoal_ids (row_dec s' r) = d_subgoal_ids (row_dec s r)"
      by auto
    have "set (d_subgoal_ids (row_dec s r)) \<subseteq> goal_ids s"
      using wf by (auto simp: well_formed_def set_row_dec_subgoals)
    then have "map (status_of s') (d_subgoal_ids (row_dec s r)) = map (status_of s) (d_subgoal_ids (row_dec s r))"
      using status by auto
    then have "due_dec s' r = due_dec s r" unfolding due_dec_def q(2) by (rule arg_cong)
    with old q(1) r(2) show ?thesis by (simp add: settled_by_def)
  qed
  have "\<exists>r \<in> set (st_decs s). r_goal_id r = g \<and> r_status r = DCompleted"
    if "r \<in> set (st_decs s')" "r_goal_id r = g" "r_status r = DCompleted" for r
    using rows [OF that(1,2)] that by auto
  with old outs have "same_proved (due_status 0 s' g) (status_of s' g)"
    unfolding settled_by_def same_proved_def due_status_proved_iff status [OF g] by blast
  with due show ?thesis by (simp add: settled_by_def)
qed

lemma settled_cong:
  assumes "st_decs s' = st_decs s" and "st_edges s' = st_edges s" and "st_attempts s' = st_attempts s"
    and "\<And>c. status_of s' c = status_of s c"
  shows "settled_by R m s' g \<longleftrightarrow> settled_by R m s g"
proof -
  have "due_dec s' r = due_dec s r" for r
  proof -
    have "status_of s' = status_of s" using assms(4) by (rule ext)
    then show ?thesis unfolding due_dec_def subgoal_ids_cong [OF assms(2) refl, of r] by simp
  qed
  then show ?thesis
    by (simp add: settled_by_def assms(1,4) due_status_cong [OF assms(3,1,2)])
qed

lemma nearly_cong:
  assumes "nearly gid s" and "good_store s'" and "goal_ids s' = goal_ids s"
    and "st_decs s' = st_decs s" and "st_edges s' = st_edges s" and "st_attempts s' = st_attempts s"
    and "\<And>c. status_of s' c = status_of s c"
  shows "nearly gid s'"
  using assms(1,2,3) settled_cong [OF assms(4-7)] by (simp add: nearly_def)

lemma steady_cong:
  assumes "steady s" and "good_store s'" and "goal_ids s' = goal_ids s"
    and "st_decs s' = st_decs s" and "st_edges s' = st_edges s" and "st_attempts s' = st_attempts s"
    and "\<And>c. status_of s' c = status_of s c"
  shows "steady s'"
  using assms(1,2,3) settled_cong [OF assms(4-7)] by (simp add: steady_def complete_store_def)

section \<open>The writes of the controller\<close>

text \<open>The lease columns.\<close>

lemma status_of_goal_columns:
  assumes "\<And>g. g_id (f g) = g_id g" and "\<And>g. g_status (f g) = g_status g"
  shows "status_of (s\<lparr>st_goals := map f (st_goals s)\<rparr>) c = status_of s c"
  by (simp add: status_of_def row_of_map_same assms split: option.split)

lemma lease_writes_frame:
  fixes s :: graph_store
  assumes "s' \<in> {fst (claim gid owner ttl now s), release gid owner s, force_release gid s}"
  shows "goal_ids s' = goal_ids s" "st_decs s' = st_decs s" "st_edges s' = st_edges s"
    "st_attempts s' = st_attempts s" "status_of s' c = status_of s c" "good_store s \<Longrightarrow> good_store s'"
proof -
  obtain f where f: "s' = s\<lparr>st_goals := map f (st_goals s)\<rparr>" "\<And>g. g_id (f g) = g_id g"
      "\<And>g. g_status (f g) = g_status g"
    using assms unfolding claim_def release_def force_release_def upd_rows_def Let_def fst_conv
    by (auto simp: drop_lease_def)
  then show "goal_ids s' = goal_ids s" "st_decs s' = st_decs s" "st_edges s' = st_edges s"
    "st_attempts s' = st_attempts s" "status_of s' c = status_of s c"
    by (simp_all add: goal_ids_def image_image status_of_goal_columns)
  show "good_store s \<Longrightarrow> good_store s'" using assms lease_writes_good by auto
qed

lemma lease_write_steady:
  assumes "s' \<in> {fst (claim gid owner ttl now s), release gid owner s, force_release gid s}"
  shows "steady s \<Longrightarrow> steady s'" "nearly g s \<Longrightarrow> nearly g s'"
proof -
  note frame = lease_writes_frame [OF assms]
  show "steady s \<Longrightarrow> steady s'"
    by (rule steady_cong [OF _ _ frame(1-5)]) (simp_all add: steadyD frame(6))
  show "nearly g s \<Longrightarrow> nearly g s'"
    by (rule nearly_cong [OF _ _ frame(1-5)]) (simp_all add: nearly_def frame(6))
qed

lemma lease_writes_steady:
  "steady s \<Longrightarrow> steady (fst (claim gid owner ttl now s))"
  "steady s \<Longrightarrow> steady (release gid owner s)"
  "nearly g s \<Longrightarrow> nearly g (force_release gid s)"
  using lease_write_steady [of _ gid _ _ _ s] by blast+

lemma draws_steady: "steady s \<Longrightarrow> steady (s\<lparr>st_draws := n\<rparr>)"
  by (rule steady_cong) (simp_all add: steadyD good_draws goal_ids_def status_of_def)

lemma propagate_nearly:
  assumes "nearly gid s"
  obtains s' where "propagate m b l gid s = (s', Inr ())" and "steady s'" and "kept s s'"
proof -
  have good: "good_store s" and "gid \<in> goal_ids s"
    "\<And>g. g \<in> goal_ids s \<Longrightarrow> g \<noteq> gid \<Longrightarrow> settled_by same_proved 0 s g"
    using assms by (auto simp: nearly_def)
  then obtain s' where s': "propagate m b l gid s = (s', Inr ())" "complete_store s'" "kept s s'"
    using propagate_completes [of s gid m b l] good_storeD(1) [OF good] by blast
  moreover have "good_store s'" using propagate_good [OF good, of m b l gid] s'(1) by simp
  ultimately show thesis by (intro that) (simp_all add: steady_def)
qed

lemma record_attempt_cases:
  assumes "record_attempt u now gid res pt rd ev cost note s = (s', r)"
  obtains (refused) e where "r = Inl e" and "s' = s\<lparr>st_draws := Suc (st_draws s)\<rparr>"
  | (recorded) a where "gid \<in> goal_ids s" and "a_goal_id a = gid" and "a_outcome a = res" and "r = Inr a"
    and "s' = s\<lparr>st_draws := Suc (st_draws s), st_attempts := st_attempts s @ [a]\<rparr>"
proof -
  define s1 where "s1 = s\<lparr>st_draws := Suc (st_draws s)\<rparr>"
  have ids: "goal_ids s1 = goal_ids s" by (simp add: s1_def goal_ids_def)
  have "(\<exists>e. record_attempt u now gid res pt rd ev cost note s = (s1, Inl e)) \<or>
    (\<exists>a. gid \<in> goal_ids s1 \<and> a_goal_id a = gid \<and> a_outcome a = res \<and>
      record_attempt u now gid res pt rd ev cost note s = (s1\<lparr>st_attempts := st_attempts s1 @ [a]\<rparr>, Inr a))"
    unfolding record_attempt_def Let_def new_id_eq prod.case s1_def [symmetric]
    by (simp del: append.simps)
  with assms refused recorded show thesis by (auto simp: ids) (auto simp: s1_def)
qed

lemma record_attempt_nearly:
  assumes rec: "record_attempt u now gid res pt rd ev cost note s = (s', r)" and "steady s"
  shows "case r of Inl e \<Rightarrow> steady s' | Inr a \<Rightarrow> nearly gid s'"
  using rec
proof (cases rule: record_attempt_cases)
  case (refused e)
  with assms(2) show ?thesis by (simp add: draws_steady)
next
  case (recorded a)
  have ids: "goal_ids s' = goal_ids s" by (simp add: recorded goal_ids_def)
  have "settled_by same_proved 0 s' g" if g: "g \<in> goal_ids s" "g \<noteq> gid" for g
  proof (rule settled_mono [of s g])
    show "settled_by same_proved 0 s g" using assms(2) g by (simp add: steady_def complete_store_def)
    show "OProved \<in> set (outcomes_of s g)" if "OProved \<in> set (outcomes_of s' g)"
      using that g recorded by (simp add: outcomes_of_def attempts_of_def)
    show "\<And>r. r \<in> set (st_decs s') \<Longrightarrow> r_goal_id r = g \<Longrightarrow>
      r_status r \<in> {DProposed, DRejectedByVerifier, DRejectedByReviewer} \<or>
      r \<in> set (st_decs s) \<and> d_subgoal_ids (row_dec s' r) = d_subgoal_ids (row_dec s r)"
      by (simp add: recorded row_dec_def)
  qed (use g assms(2) steadyD in \<open>simp_all add: recorded status_of_def\<close>)
  moreover have "good_store s'" using record_attempt_good [OF rec] assms(2) by (simp add: steady_def)
  ultimately show ?thesis using recorded(1,4) by (auto simp: nearly_def ids)
qed

lemma same_but_goals_settled:
  assumes wf: "well_formed s" and same: "same_but_goals s s'" and steady: "complete_store s"
  shows "complete_store s'"
  unfolding complete_store_def
proof
  fix g
  assume "g \<in> goal_ids s'"
  obtain new where new: "st_goals s' = st_goals s @ new" "st_decs s' = st_decs s"
      "st_edges s' = st_edges s" "st_attempts s' = st_attempts s"
    using same by (auto simp: same_but_goals_def)
  show "settled_by same_proved 0 s' g"
  proof (cases "g \<in> goal_ids s")
    case True
    show ?thesis
    proof (rule settled_mono [of s g])
      show "settled_by same_proved 0 s g" using steady True by (simp add: complete_store_def)
      show "status_of s' c = status_of s c" if "c \<in> goal_ids s" for c
        using that by (auto simp: status_of_def new(1) row_of_append goal_ids_def dest!: row_of_exists)
      show "OProved \<in> set (outcomes_of s g)" if "OProved \<in> set (outcomes_of s' g)"
        using that by (simp add: outcomes_of_def attempts_of_def new)
      show "\<And>r. r \<in> set (st_decs s') \<Longrightarrow> r_goal_id r = g \<Longrightarrow>
        r_status r \<in> {DProposed, DRejectedByVerifier, DRejectedByReviewer} \<or>
        r \<in> set (st_decs s) \<and> d_subgoal_ids (row_dec s' r) = d_subgoal_ids (row_dec s r)"
        by (simp add: new row_dec_def)
    qed (simp_all add: wf True)
  next
    case False
    have "\<forall>r \<in> set (st_decs s'). r_goal_id r \<noteq> g" "\<forall>a \<in> set (st_attempts s'). a_goal_id a \<noteq> g"
      using wf False by (auto simp: well_formed_def new)
    then show ?thesis
      by (auto simp: settled_by_def same_proved_def due_status_proved_iff outcomes_of_def attempts_of_def)
  qed
qed

text \<open>\<open>did\<close> names proposed decompositions of the goal \<open>gid\<close> only.\<close>

definition proposed_for :: "string \<Rightarrow> string \<Rightarrow> graph_store \<Rightarrow> bool" where
  "proposed_for did gid s \<longleftrightarrow> (\<forall>r \<in> set (st_decs s). r_id r = did \<longrightarrow>
     r_status r = DProposed \<and> r_goal_id r = gid)"

lemma written_complete:
  assumes "complete_store s2" and "well_formed s2" and "did \<notin> r_id ` set (st_decs s2)"
    and "r_id r = did" and "r_status r = DProposed"
  shows "complete_store (s2\<lparr>st_decs := st_decs s2 @ [r],
    st_edges := st_edges s2 @ map (Pair did) (enumerate 0 ids)\<rparr>)" (is "complete_store ?s")
  unfolding complete_store_def
proof
  fix g
  assume "g \<in> goal_ids ?s"
  then have g: "g \<in> goal_ids s2" by (simp add: goal_ids_def)
  show "settled_by same_proved 0 ?s g"
  proof (rule settled_mono [of s2 g])
    fix q
    assume q: "q \<in> set (st_decs ?s)" "r_goal_id q = g"
    show "r_status q \<in> {DProposed, DRejectedByVerifier, DRejectedByReviewer} \<or>
        q \<in> set (st_decs s2) \<and> d_subgoal_ids (row_dec ?s q) = d_subgoal_ids (row_dec s2 q)"
    proof (cases "q \<in> set (st_decs s2)")
      case True
      then have "filter (\<lambda>(d, _, _). d = r_id q) (map (Pair did) (enumerate 0 ids)) = []"
        using assms(3) by (auto simp: filter_empty_conv)
      with True show ?thesis by (simp add: row_dec_def)
    next
      case False
      with q assms(5) show ?thesis by simp
    qed
  qed (use assms g in \<open>simp_all add: complete_store_def status_of_def outcomes_of_def attempts_of_def\<close>)
qed

lemma add_decomposition_steady:
  assumes add: "add_decomposition u now gid subs sk DProposed s = (s', r)" and "steady s"
  shows "steady s' \<and> (case r of Inl e \<Rightarrow> True
    | Inr d \<Rightarrow> gid \<in> goal_ids s' \<and> proposed_for (d_id d) gid s')"
proof (cases "check_decomposition gid subs s")
  case (Inl e)
  with assms show ?thesis by (auto simp: add_decomposition_def)
next
  case (Inr x)
  with add have "write_decomposition u now gid subs sk DProposed s = (s', r)"
    by (simp add: add_decomposition_def)
  then show ?thesis
    using steadyD(2) [OF assms(2)]
  proof (cases rule: write_decomposition_cases)
    case (failed e n)
    with assms(2) show ?thesis by (simp add: draws_steady)
  next
    case (written s2 did ids)
    let ?r = "\<lparr>r_id = did, r_goal_id = gid, r_status = DProposed, r_reason = [],
        r_sketch = map_option sketch_to_json sk, r_created_at = now\<rparr>"
    have "complete_store s2"
      using same_but_goals_settled [OF steadyD(2) [OF assms(2)] written(2)] assms(2)
      by (simp add: steady_def)
    then have "complete_store s'"
      unfolding written(7) using written(1,5) by (rule written_complete) simp_all
    moreover have "good_store s'"
      using add_decomposition_good [OF add] steadyD(1) [OF assms(2)] by simp
    moreover have "gid \<in> goal_ids s'" using written(6) by (simp add: written(7) goal_ids_def)
    moreover have "row_of r_id did (st_decs s2) = None" using written(5) by (simp add: row_of_None_iff)
    then have "row_of r_id did (st_decs s') = Some ?r"
      by (simp add: written(7) row_of_append)
    then have "r = Inr (row_dec s' ?r)" by (simp add: written(8) get_decomposition_def)
    moreover have "proposed_for did gid s'"
      using written(5) by (auto simp: proposed_for_def written(7))
    ultimately show ?thesis by (simp add: steady_def)
  qed
qed

lemma set_decomposition_status_nearly:
  assumes "steady s" and "proposed_for did gid s" and "gid \<in> goal_ids s"
    and "status \<in> {DAccepted, DRejectedByVerifier}"
  shows "nearly gid (set_decomposition_status did status reason s)"
    "status = DRejectedByVerifier \<Longrightarrow> steady (set_decomposition_status did status reason s)"
proof -
  let ?s = "set_decomposition_status did status reason s"
  have ids: "goal_ids ?s = goal_ids s" by (simp add: goal_ids_def)
  have good: "good_store ?s"
    using set_decomposition_status_good [OF steadyD(1) [OF assms(1)], of status did reason] assms(2,4)
    by (auto simp: proposed_for_def)
  have settled: "settled_by same_proved 0 ?s g"
    if g: "g \<in> goal_ids s" "g \<noteq> gid \<or> status = DRejectedByVerifier" for g
  proof (rule settled_mono [of s g])
    fix r
    assume r: "r \<in> set (st_decs ?s)" "r_goal_id r = g"
    then have "r \<in> set (st_decs s) \<or> r_goal_id r = gid \<and> r_status r = status"
      using assms(2) unfolding set_decomposition_status_def
      by (auto simp: in_upd_rows proposed_for_def)
    then show "r_status r \<in> {DProposed, DRejectedByVerifier, DRejectedByReviewer} \<or>
        r \<in> set (st_decs s) \<and> d_subgoal_ids (row_dec ?s r) = d_subgoal_ids (row_dec s r)"
      using g r by (auto simp: row_dec_def)
  qed (use assms g steadyD in \<open>simp_all add: steady_def complete_store_def status_of_def
      outcomes_of_def attempts_of_def\<close>)
  show "nearly gid ?s" using good assms(3) settled by (simp add: nearly_def ids)
  show "status = DRejectedByVerifier \<Longrightarrow> steady ?s"
    using good settled ids unfolding steady_def complete_store_def by blast
qed

text \<open>A proposed decomposition is still proposed after a \<open>propagate\<close> and after a verdict on another.\<close>

lemma proposed_for_follows: "follows s s' \<Longrightarrow> proposed_for did gid s \<Longrightarrow> proposed_for did gid s'"
  unfolding follows_def proposed_for_def by (metis decomposition_status.distinct(1))

lemma proposed_for_other: "proposed_for did gid s \<Longrightarrow> other \<noteq> did \<Longrightarrow>
    proposed_for did gid (set_decomposition_status other status reason s)"
  unfolding proposed_for_def set_decomposition_status_def by (auto simp: in_upd_rows)

end
