(* ===== verification/Controller.thy ===== *)
theory Controller
  imports SteadyStores Solver
begin

text \<open>
  \<open>proof/controller.py\<close>: the loop that picks a goal, attacks it, propagates, and asks for a route
  when a direct attempt failed. A method is a function from the state (the store and the number of
  consultations of the outside world so far) to the state afterwards and a result or an error. The
  outside world, that is the solver, the source of routes, the sketch check, the clock and the
  random ids, is a record of functions of the consultation number, so it may answer differently
  every time.
\<close>

section \<open>State, errors and the outside world\<close>

record control =
  k_store :: graph_store
  k_tick :: nat

type_synonym 'a run = "control \<Rightarrow> control \<times> (proof_error + 'a)"

datatype sketch_check = Verdict validation | SketchUnavailable

record world =
  w_owner :: string
  w_lease_ttl :: real
  w_max_capability :: int
  w_max_infra :: int
  w_root_first :: bool
  w_level :: string
  w_select :: "goal list \<Rightarrow> goal option"
  w_attack :: "nat \<Rightarrow> goal \<Rightarrow> real \<Rightarrow> proof_error + attempt_result"
  w_propose :: "nat \<Rightarrow> goal \<Rightarrow> sketch option"
  w_validate :: "nat \<Rightarrow> goal \<Rightarrow> sketch \<Rightarrow> sketch_check"
  w_clock :: "nat \<Rightarrow> real"
  w_ids :: "nat \<Rightarrow> string"

definition ret :: "'a \<Rightarrow> 'a run" where
  "ret a k = (k, Inr a)"

definition fail :: "proof_error \<Rightarrow> 'a run" where
  "fail e k = (k, Inl e)"

definition andThen :: "'a run \<Rightarrow> ('a \<Rightarrow> 'b run) \<Rightarrow> 'b run" where
  "andThen m f k = (case m k of (k1, Inl e) \<Rightarrow> (k1, Inl e) | (k1, Inr a) \<Rightarrow> f a k1)"

text \<open>\<open>try: m finally: w\<close>.\<close>

definition finally_do :: "'a run \<Rightarrow> (graph_store \<Rightarrow> graph_store) \<Rightarrow> 'a run" where
  "finally_do m w k = (case m k of (k1, r) \<Rightarrow> (k1\<lparr>k_store := w (k_store k1)\<rparr>, r))"

text \<open>A query, a write, a write with a result, and one consultation of the world.\<close>

definition query :: "(graph_store \<Rightarrow> proof_error + 'a) \<Rightarrow> 'a run" where
  "query q k = (k, q (k_store k))"

definition ask :: "(graph_store \<Rightarrow> 'a) \<Rightarrow> 'a run" where
  "ask q k = (k, Inr (q (k_store k)))"

definition modify :: "(graph_store \<Rightarrow> graph_store) \<Rightarrow> unit run" where
  "modify f k = (k\<lparr>k_store := f (k_store k)\<rparr>, Inr ())"

definition perform :: "(graph_store \<Rightarrow> graph_store \<times> (proof_error + 'a)) \<Rightarrow> 'a run" where
  "perform f k = (case f (k_store k) of (s, r) \<Rightarrow> (k\<lparr>k_store := s\<rparr>, r))"

definition consult :: "(nat \<Rightarrow> 'a) \<Rightarrow> 'a run" where
  "consult f k = (k\<lparr>k_tick := Suc (k_tick k)\<rparr>, Inr (f (k_tick k)))"

text \<open>A \<open>for\<close> loop whose body folds over an accumulator.\<close>

fun for_each :: "'a list \<Rightarrow> ('a \<Rightarrow> 'b \<Rightarrow> 'b run) \<Rightarrow> 'b \<Rightarrow> 'b run" where
  "for_each [] body acc = ret acc"
| "for_each (x # xs) body acc = andThen (body x acc) (for_each xs body)"

section \<open>Scheduling\<close>

definition route_in_progress :: "decomposition_status list" where
  "route_in_progress = [DProposed, DAccepted]"

definition select_first_open :: "goal list \<Rightarrow> goal option" where
  "select_first_open goals = (case goals of [] \<Rightarrow> None | g # _ \<Rightarrow> Some g)"

text \<open>A table of routes by identity, each offered once: the state is the set of used identities.\<close>

definition fixed_propose ::
  "(string \<rightharpoonup> sketch) \<Rightarrow> goal \<Rightarrow> string set \<Rightarrow> string set \<times> sketch option" where
  "fixed_propose table g used =
     (if g_identity g \<in> used then (used, None)
      else case table (g_identity g) of
        None \<Rightarrow> (used, None)
      | Some sk \<Rightarrow> (insert (g_identity g) used, Some sk))"

definition actionable_goals :: "string set option \<Rightarrow> graph_store \<Rightarrow> goal list" where
  "actionable_goals scope s = filter (\<lambda>g. (case scope of None \<Rightarrow> True | Some ids \<Rightarrow> g_id g \<in> ids) \<and>
     \<not> (\<exists>d \<in> set (decompositions_of s (g_id g)). d_status d \<in> set route_in_progress)) (open_goals s)"

record route_counts =
  rc_accepted :: int
  rc_rejected :: int
  rc_cycles :: int
  rc_deferred :: int

definition no_routes :: route_counts where
  "no_routes = \<lparr>rc_accepted = 0, rc_rejected = 0, rc_cycles = 0, rc_deferred = 0\<rparr>"

text \<open>The call of \<open>propagate\<close> that follows every write of a verdict or an attempt.\<close>

definition propagate_now :: "world \<Rightarrow> string \<Rightarrow> unit run" where
  "propagate_now w gid = perform (\<lambda>s. propagate (w_max_capability w) (total_cost s) (w_level w) gid s)"

definition record_result :: "world \<Rightarrow> string \<Rightarrow> attempt_result \<Rightarrow> attempt run" where
  "record_result w gid res = andThen (consult (w_clock w)) (\<lambda>now. perform (record_attempt (w_ids w) now gid
     (ar_outcome res) (ar_proof_text res) (ar_run_dir res) (ar_evidence res) (ar_cost res) (ar_note res)))"

definition verdict_status :: "validation \<Rightarrow> decomposition_status" where
  "verdict_status v = (if v_ok v then DAccepted else DRejectedByVerifier)"

section \<open>Recovery\<close>

text \<open>
  The step that the recheck and a new decomposition share: ask for the verdict on the sketch, write
  it, propagate. \<open>None\<close> is the check that could not run, which writes nothing.
\<close>

definition settle_route :: "world \<Rightarrow> string \<Rightarrow> goal \<Rightarrow> sketch \<Rightarrow> bool option run" where
  "settle_route w did g sk =
     andThen (consult (\<lambda>t. w_validate w t g sk)) (\<lambda>check. case check of
       SketchUnavailable \<Rightarrow> ret None
     | Verdict v \<Rightarrow>
         andThen (modify (set_decomposition_status did (verdict_status v) (v_reason v))) (\<lambda>_.
         andThen (propagate_now w (g_id g)) (\<lambda>_. ret (Some (v_ok v)))))"

fun add_answer :: "bool option \<Rightarrow> route_counts \<Rightarrow> route_counts" where
  "add_answer None rc = rc\<lparr>rc_deferred := rc_deferred rc + 1\<rparr>"
| "add_answer (Some True) rc = rc\<lparr>rc_accepted := rc_accepted rc + 1\<rparr>"
| "add_answer (Some False) rc = rc\<lparr>rc_rejected := rc_rejected rc + 1\<rparr>"

definition revalidate_one :: "world \<Rightarrow> decomposition \<Rightarrow> route_counts \<Rightarrow> route_counts run" where
  "revalidate_one w d totals =
     andThen (query (\<lambda>s. sketch_of s (d_id d))) (\<lambda>sk. case sk of
       None \<Rightarrow> andThen (modify (set_decomposition_status (d_id d) DRejectedByVerifier
           ''the decomposition was recorded without a sketch''))
         (\<lambda>_. ret (totals\<lparr>rc_rejected := rc_rejected totals + 1\<rparr>))
     | Some sk \<Rightarrow>
         andThen (query (\<lambda>s. get_goal s (d_goal_id d))) (\<lambda>g.
         andThen (settle_route w (d_id d) g sk) (\<lambda>answer. ret (add_answer answer totals))))"

definition revalidate_proposed :: "world \<Rightarrow> route_counts run" where
  "revalidate_proposed w = andThen (ask proposed_decompositions)
     (\<lambda>ds. for_each ds (revalidate_one w) no_routes)"

definition recover_one :: "world \<Rightarrow> goal \<Rightarrow> string list \<Rightarrow> string list run" where
  "recover_one w g recovered =
     (case interrupted (g_lease_run_dir g)
         (''lease held by '' @ str_or (g_lease_owner g) [] @ '' expired without release'') of
        Inl e \<Rightarrow> fail e
      | Inr res \<Rightarrow>
          andThen (record_result w (g_id g) res) (\<lambda>_.
          andThen (modify (force_release (g_id g))) (\<lambda>_.
          andThen (propagate_now w (g_id g)) (\<lambda>_. ret (recovered @ [g_id g])))))"

definition recover :: "world \<Rightarrow> string list run" where
  "recover w = andThen (revalidate_proposed w) (\<lambda>_.
     andThen (consult (w_clock w)) (\<lambda>now.
     andThen (ask (stale_leases now)) (\<lambda>goals. for_each goals (recover_one w) [])))"

section \<open>Decomposition\<close>

definition record_decomposition :: "world \<Rightarrow> goal \<Rightarrow> sketch \<Rightarrow> route_counts run" where
  "record_decomposition w g sk k =
     andThen (consult (w_clock w)) (\<lambda>now k1.
       case perform (add_decomposition (w_ids w) now (g_id g)
           (map (\<lambda>sp. (sp_identity sp, sp_signature sp)) (sk_subgoals sk)) (Some sk) DProposed) k1 of
         (k2, Inl (CycleError _)) \<Rightarrow> (k2, Inr (no_routes\<lparr>rc_cycles := 1\<rparr>))
       | (k2, Inl e) \<Rightarrow> (k2, Inl e)
       | (k2, Inr d) \<Rightarrow>
           andThen (settle_route w (d_id d) g sk) (\<lambda>answer. ret (add_answer answer no_routes)) k2) k"

definition maybe_decompose :: "world \<Rightarrow> goal \<Rightarrow> route_counts run" where
  "maybe_decompose w g = andThen (consult (\<lambda>t. w_propose w t g)) (\<lambda>sk. case sk of
     None \<Rightarrow> ret no_routes
   | Some sk \<Rightarrow> record_decomposition w g sk)"

section \<open>The loop\<close>

record counters =
  n_iterations :: int
  n_attempts :: int
  n_accepted :: int
  n_rejected :: int
  n_cycles :: int
  n_deferred :: int
  n_infra :: int
  n_scope :: "string set"

record solve_report =
  root_proved :: bool
  stopped_reason :: string
  iterations :: int
  spent_total :: real
  attempts_made :: int
  decompositions_accepted :: int
  decompositions_rejected :: int
  cycles_refused :: int

definition count_routes :: "route_counts \<Rightarrow> counters \<Rightarrow> counters" where
  "count_routes rc c = c\<lparr>n_accepted := n_accepted c + rc_accepted rc,
     n_rejected := n_rejected c + rc_rejected rc, n_cycles := n_cycles c + rc_cycles rc,
     n_deferred := n_deferred c + rc_deferred rc\<rparr>"

text \<open>
  The inner \<open>while candidates\<close>: try to claim the selected goal, and on failure drop its id from the
  candidates. A selection outside the candidates would repeat for ever, so the loop is bounded by a
  fuel; running out of it is the error \<open>GraphError\<close> of a loop that did not end.
\<close>

fun claim_first :: "world \<Rightarrow> nat \<Rightarrow> goal list \<Rightarrow> goal option run" where
  "claim_first w 0 candidates =
     (if candidates = [] then ret None else fail (GraphError ''the claim loop did not end''))"
| "claim_first w (Suc fuel) candidates =
     (if candidates = [] then ret None
      else case w_select w candidates of
        None \<Rightarrow> ret None
      | Some choice \<Rightarrow>
          andThen (consult (w_clock w)) (\<lambda>now.
          andThen (perform (\<lambda>s. case claim (g_id choice) (w_owner w) (w_lease_ttl w) now s of
              (s1, won) \<Rightarrow> (s1, Inr won))) (\<lambda>won.
          if won then ret (Some choice)
          else claim_first w fuel (filter (\<lambda>c. g_id c \<noteq> g_id choice) candidates))))"

text \<open>
  What happens to a claimed goal, between \<open>try\<close> and \<open>finally\<close>: the result is the reason to stop, or
  \<open>None\<close> to go on, with the counters.
\<close>

definition decompose_and_count :: "world \<Rightarrow> string \<Rightarrow> goal \<Rightarrow> counters \<Rightarrow> (route_counts \<times> counters) run"
  where
  "decompose_and_count w root_id g c = andThen (maybe_decompose w g) (\<lambda>rc.
     andThen (ask (\<lambda>s. reachable_from s root_id)) (\<lambda>scope.
       ret (rc, count_routes rc (c\<lparr>n_scope := scope\<rparr>))))"

definition attack_goal ::
  "world \<Rightarrow> real \<Rightarrow> string \<Rightarrow> goal \<Rightarrow> counters \<Rightarrow> (string option \<times> counters) run" where
  "attack_goal w money root_id g c =
     andThen (\<lambda>k. (k\<lparr>k_tick := Suc (k_tick k)\<rparr>, w_attack w (k_tick k) g money)) (\<lambda>res.
     andThen (record_result w (g_id g) res) (\<lambda>_.
     let c1 = c\<lparr>n_attempts := n_attempts c + 1\<rparr> in
     andThen (propagate_now w (g_id g)) (\<lambda>_.
     if ar_outcome res \<in> set no_verdict_outcomes
     then
       (if ar_outcome res = OInfraFailed
        then let c2 = c1\<lparr>n_infra := n_infra c1 + 1\<rparr> in
          if n_infra c2 \<ge> w_max_infra w then ret (Some ''infra'', c2) else ret (None, c2)
        else if ar_outcome res = OBudgetExhausted then ret (Some ''budget'', c1)
        else ret (None, c1))
     else
       let c2 = c1\<lparr>n_infra := 0\<rparr> in
       if ar_outcome res = OProved then ret (None, c2)
       else andThen (decompose_and_count w root_id g c2) (\<lambda>(_, c3). ret (None, c3)))))"

definition work_on ::
  "world \<Rightarrow> real \<Rightarrow> string \<Rightarrow> goal \<Rightarrow> counters \<Rightarrow> (string option \<times> counters) run" where
  "work_on w money root_id g c =
     andThen (ask (\<lambda>s. w_root_first w \<and> g_id g = root_id \<and> decompositions_of s (g_id g) = [])) (\<lambda>first.
     if first
     then andThen (decompose_and_count w root_id g c) (\<lambda>(rc, c1).
       if rc_accepted rc \<noteq> 0 then ret (None, c1) else attack_goal w money root_id g c1)
     else attack_goal w money root_id g c)"

text \<open>One iteration, from the test of the root to the \<open>finally\<close> that releases the goal.\<close>

definition iterate ::
  "world \<Rightarrow> real \<Rightarrow> string \<Rightarrow> counters \<Rightarrow> (string option \<times> counters) run" where
  "iterate w budget root_id c =
     andThen (query (\<lambda>s. get_goal s root_id)) (\<lambda>rg.
     if g_status rg = GProved then ret (Some ''proved'', c)
     else andThen (ask total_cost) (\<lambda>spent.
     if spent \<ge> budget then ret (Some ''budget'', c)
     else andThen (ask (actionable_goals (Some (n_scope c)))) (\<lambda>candidates.
     if candidates = [] then ret (Some ''no_actionable_goal'', c)
     else andThen (claim_first w (length candidates) candidates) (\<lambda>claimed. case claimed of
       None \<Rightarrow> ret (Some ''goal_leased_elsewhere'', c)
     | Some g \<Rightarrow> finally_do
         (work_on w (budget - spent) root_id g (c\<lparr>n_iterations := n_iterations c + 1\<rparr>))
         (release (g_id g) (w_owner w))))))"

text \<open>\<open>while iterations < max_iterations\<close>: every iteration that goes on has counted itself.\<close>

fun solve_loop ::
  "world \<Rightarrow> real \<Rightarrow> string \<Rightarrow> nat \<Rightarrow> counters \<Rightarrow> (string \<times> counters) run" where
  "solve_loop w budget root_id 0 c = ret (''max_iterations'', c)"
| "solve_loop w budget root_id (Suc left) c =
     andThen (iterate w budget root_id c) (\<lambda>(stop, c1). case stop of
       Some reason \<Rightarrow> ret (reason, c1)
     | None \<Rightarrow> solve_loop w budget root_id left c1)"

definition no_counters :: "string set \<Rightarrow> counters" where
  "no_counters scope = \<lparr>n_iterations = 0, n_attempts = 0, n_accepted = 0, n_rejected = 0, n_cycles = 0,
     n_deferred = 0, n_infra = 0, n_scope = scope\<rparr>"

definition solve :: "world \<Rightarrow> string \<Rightarrow> real \<Rightarrow> int \<Rightarrow> solve_report run" where
  "solve w root_id budget max_iterations =
     andThen (recover w) (\<lambda>_.
     andThen (ask (\<lambda>s. reachable_from s root_id)) (\<lambda>scope.
     andThen (solve_loop w budget root_id (nat max_iterations) (no_counters scope)) (\<lambda>(stopped, c).
     andThen (query (\<lambda>s. get_goal s root_id)) (\<lambda>rg.
     andThen (ask total_cost) (\<lambda>spent.
       ret \<lparr>root_proved = (g_status rg = GProved), stopped_reason = stopped, iterations = n_iterations c,
         spent_total = spent, attempts_made = n_attempts c, decompositions_accepted = n_accepted c,
         decompositions_rejected = n_rejected c, cycles_refused = n_cycles c\<rparr>)))))"

end
