(* ===== verification/ControllerProofs.thy ===== *)
theory ControllerProofs
  imports Controller
begin

text \<open>
  What the loop of the controller guarantees, whatever the solver, the source of routes and the
  sketch check answer. \<open>valid P m Q E\<close> is a triple on the store: from \<open>P\<close>, the run \<open>m\<close> ends with
  a result and \<open>Q\<close>, or with an error and \<open>E\<close>.
\<close>

section \<open>Triples\<close>

definition valid ::
  "(graph_store \<Rightarrow> bool) \<Rightarrow> 'a run \<Rightarrow> ('a \<Rightarrow> graph_store \<Rightarrow> bool) \<Rightarrow> (graph_store \<Rightarrow> bool) \<Rightarrow> bool" where
  "valid P m Q E \<longleftrightarrow> (\<forall>k. P (k_store k) \<longrightarrow>
     (case m k of (k1, Inl e) \<Rightarrow> E (k_store k1) | (k1, Inr a) \<Rightarrow> Q a (k_store k1)))"

lemma valid_andThen:
  assumes "valid P m R E" and "\<And>a. valid (R a) (f a) Q E"
  shows "valid P (andThen m f) Q E"
  using assms unfolding valid_def andThen_def by (fastforce split: prod.splits sum.splits)

lemma valid_ret: "(\<And>s. P s \<Longrightarrow> Q a s) \<Longrightarrow> valid P (ret a) Q E"
  by (simp add: valid_def ret_def)

lemma valid_fail: "(\<And>s. P s \<Longrightarrow> E s) \<Longrightarrow> valid P (fail e) Q E"
  by (simp add: valid_def fail_def)

lemma valid_ask: "(\<And>s. P s \<Longrightarrow> Q (q s) s) \<Longrightarrow> valid P (ask q) Q E"
  by (simp add: valid_def ask_def)

lemma valid_query:
  "(\<And>s. P s \<Longrightarrow> case q s of Inl e \<Rightarrow> E s | Inr a \<Rightarrow> Q a s) \<Longrightarrow> valid P (query q) Q E"
  by (auto simp: valid_def query_def split: sum.splits)

lemma valid_modify: "(\<And>s. P s \<Longrightarrow> Q () (f s)) \<Longrightarrow> valid P (modify f) Q E"
  by (simp add: valid_def modify_def)

lemma valid_perform:
  "(\<And>s s' r. P s \<Longrightarrow> f s = (s', r) \<Longrightarrow> case r of Inl e \<Rightarrow> E s' | Inr a \<Rightarrow> Q a s') \<Longrightarrow>
   valid P (perform f) Q E"
  unfolding valid_def perform_def by (fastforce split: prod.splits sum.splits)

lemma valid_consult: "(\<And>a s. P s \<Longrightarrow> Q a s) \<Longrightarrow> valid P (consult f) Q E"
  by (simp add: valid_def consult_def)

lemma valid_finally:
  assumes "valid P m R F" and "\<And>a s. R a s \<Longrightarrow> Q a (w s)" and "\<And>s. F s \<Longrightarrow> E (w s)"
  shows "valid P (finally_do m w) Q E"
  using assms unfolding valid_def finally_do_def by (fastforce split: prod.splits sum.splits)

lemma valid_pre: "valid R m Q E \<Longrightarrow> (\<And>s. P s \<Longrightarrow> R s) \<Longrightarrow> valid P m Q E"
  by (simp add: valid_def)

lemma valid_post:
  "valid P m R F \<Longrightarrow> (\<And>a s. R a s \<Longrightarrow> Q a s) \<Longrightarrow> (\<And>s. F s \<Longrightarrow> E s) \<Longrightarrow> valid P m Q E"
  unfolding valid_def by (fastforce split: prod.splits sum.splits)

lemma valid_pure: "valid P m Q E \<Longrightarrow> valid (\<lambda>s. p \<and> P s) m (\<lambda>a s. p \<and> Q a s) E"
  unfolding valid_def by (fastforce split: prod.splits sum.splits)

lemma valid_for_each:
  assumes "\<And>x xs acc. valid (I (x # xs) acc) (body x acc) (\<lambda>acc'. I xs acc') E"
  shows "valid (I xs acc) (for_each xs body acc) (\<lambda>acc'. I [] acc') E"
proof (induction xs arbitrary: acc)
  case Nil
  then show ?case by (simp add: valid_ret)
next
  case (Cons x xs)
  show ?case by (simp, rule valid_andThen [OF assms Cons.IH])
qed

lemma validD_Inr: "valid P m Q E \<Longrightarrow> P (k_store k) \<Longrightarrow> m k = (k1, Inr a) \<Longrightarrow> Q a (k_store k1)"
  unfolding valid_def by fastforce

lemma validD: "valid P m (\<lambda>_. Q) Q \<Longrightarrow> P (k_store k) \<Longrightarrow> Q (k_store (fst (m k)))"
  unfolding valid_def by (fastforce split: prod.splits sum.splits)

section \<open>The store stays steady\<close>

abbreviation steady_run :: "'a run \<Rightarrow> bool" where
  "steady_run m \<equiv> valid steady m (\<lambda>_. steady) steady"

lemma propagate_now_valid:
  "valid (nearly gid) (propagate_now w gid) (\<lambda>_. steady) E"
  unfolding propagate_now_def
  by (rule valid_perform) (metis propagate_nearly prod.inject sum.case(2))

lemma propagate_now_follows:
  "valid (\<lambda>s. nearly gid s \<and> (\<forall>d \<in> D. proposed_for (f d) (h d) s)) (propagate_now w gid)
     (\<lambda>_ s. steady s \<and> (\<forall>d \<in> D. proposed_for (f d) (h d) s)) E"
  unfolding propagate_now_def
proof (rule valid_perform)
  fix s s' r
  assume s: "nearly gid s \<and> (\<forall>d \<in> D. proposed_for (f d) (h d) s)"
    and eq: "propagate (w_max_capability w) (total_cost s) (w_level w) gid s = (s', r)"
  from s obtain t where t: "propagate (w_max_capability w) (total_cost s) (w_level w) gid s = (t, Inr ())"
      "steady t" "kept s t"
    by (blast elim: propagate_nearly)
  with eq have "s' = t" "r = Inr ()" by simp_all
  moreover have "follows s t" using t(3) by (simp add: kept_def)
  ultimately show "case r of Inl e \<Rightarrow> E s' | Inr a \<Rightarrow> steady s' \<and> (\<forall>d \<in> D. proposed_for (f d) (h d) s')"
    using s t(2) proposed_for_follows by auto
qed

lemma record_result_valid:
  "valid steady (record_result w gid res) (\<lambda>_. nearly gid) steady"
  unfolding record_result_def
  by (rule valid_andThen [where R = "\<lambda>_. steady"], rule valid_consult, assumption, rule valid_perform)
    (metis record_attempt_nearly)

lemma steady_ask: "steady_run (ask q)"
  by (rule valid_ask)

lemma steady_consult: "steady_run (consult f)"
  by (rule valid_consult)

lemma verdict_status_cases: "verdict_status v \<in> {DAccepted, DRejectedByVerifier}"
  by (simp add: verdict_status_def)

text \<open>The loop invariant of the recheck: the decompositions still to visit are proposed.\<close>

definition awaiting :: "decomposition list \<Rightarrow> graph_store \<Rightarrow> bool" where
  "awaiting ds s \<longleftrightarrow> steady s \<and> distinct (map d_id ds) \<and>
     (\<forall>d \<in> set ds. proposed_for (d_id d) (d_goal_id d) s)"

lemma awaiting_rest: "awaiting (d # ds) s \<Longrightarrow> awaiting ds s"
  by (simp add: awaiting_def)

text \<open>The shared step, for a route \<open>did\<close> of the goal while the routes \<open>D\<close> stay proposed.\<close>

lemma settle_route_valid:
  assumes "did \<notin> f ` D"
  shows "valid (\<lambda>s. steady s \<and> proposed_for did (g_id g) s \<and> g_id g \<in> goal_ids s \<and>
      (\<forall>d \<in> D. proposed_for (f d) (h d) s))
    (settle_route w did g sk) (\<lambda>_ s. steady s \<and> (\<forall>d \<in> D. proposed_for (f d) (h d) s)) steady"
  unfolding settle_route_def
proof (rule valid_andThen, rule valid_consult, assumption)
  fix check
  let ?P = "\<lambda>s. steady s \<and> proposed_for did (g_id g) s \<and> g_id g \<in> goal_ids s \<and>
      (\<forall>d \<in> D. proposed_for (f d) (h d) s)"
  have verdict: "valid ?P (andThen (modify (set_decomposition_status did (verdict_status v) (v_reason v))) (\<lambda>_.
         andThen (propagate_now w (g_id g)) (\<lambda>_. ret (Some (v_ok v)))))
      (\<lambda>_ s. steady s \<and> (\<forall>d \<in> D. proposed_for (f d) (h d) s)) steady" for v
  proof (rule valid_andThen, rule valid_modify)
    fix s
    assume s: "?P s"
    then have "nearly (g_id g) (set_decomposition_status did (verdict_status v) (v_reason v) s)"
      using verdict_status_cases [of v] by (intro set_decomposition_status_nearly) simp_all
    moreover have "\<forall>d \<in> D. proposed_for (f d) (h d) (set_decomposition_status did (verdict_status v) (v_reason v) s)"
      using s assms by (auto intro!: proposed_for_other)
    ultimately show "nearly (g_id g) (set_decomposition_status did (verdict_status v) (v_reason v) s) \<and>
        (\<forall>d \<in> D. proposed_for (f d) (h d) (set_decomposition_status did (verdict_status v) (v_reason v) s))"
      by simp
  qed (rule valid_andThen, rule propagate_now_follows, rule valid_ret, assumption)
  show "valid ?P (case check of SketchUnavailable \<Rightarrow> ret None
     | Verdict v \<Rightarrow>
         andThen (modify (set_decomposition_status did (verdict_status v) (v_reason v))) (\<lambda>_.
         andThen (propagate_now w (g_id g)) (\<lambda>_. ret (Some (v_ok v)))))
      (\<lambda>_ s. steady s \<and> (\<forall>d \<in> D. proposed_for (f d) (h d) s)) steady"
  proof (cases check)
    case (Verdict v)
    show ?thesis by (simp add: Verdict, rule verdict)
  next
    case SketchUnavailable
    show ?thesis by (simp add: SketchUnavailable, rule valid_ret, blast)
  qed
qed

lemma awaiting_reject:
  assumes "awaiting (d # ds) s"
  shows "awaiting ds (set_decomposition_status (d_id d) DRejectedByVerifier reason s)"
proof -
  have pending: "proposed_for (d_id d) (d_goal_id d) s" and "steady s" and ids: "d_id d \<notin> d_id ` set ds"
    using assms by (simp_all add: awaiting_def)
  have "steady (set_decomposition_status (d_id d) DRejectedByVerifier reason s)"
  proof (cases "d_goal_id d \<in> goal_ids s")
    case True
    then show ?thesis using set_decomposition_status_nearly(2) [OF \<open>steady s\<close> pending True] by simp
  next
    case False
    then have "d_id d \<notin> r_id ` set (st_decs s)"
      using pending steadyD(2) [OF \<open>steady s\<close>] by (auto simp: proposed_for_def well_formed_def)
    then have "set_decomposition_status (d_id d) DRejectedByVerifier reason s = s"
      by (simp add: set_decomposition_status_def upd_rows_idle)
    then show ?thesis using \<open>steady s\<close> by simp
  qed
  then show ?thesis
    using assms ids by (auto simp: awaiting_def intro!: proposed_for_other)
qed

lemma revalidate_one_valid:
  "valid (awaiting (d # ds)) (revalidate_one w d totals) (\<lambda>_. awaiting ds) steady"
  unfolding revalidate_one_def
proof (rule valid_andThen [where R = "\<lambda>_. awaiting (d # ds)"])
  show "valid (awaiting (d # ds)) (query (\<lambda>s. sketch_of s (d_id d))) (\<lambda>_. awaiting (d # ds)) steady"
    by (rule valid_query) (simp add: awaiting_def split: sum.split)
next
  fix found
  have check: "valid (awaiting (d # ds)) (andThen (query (\<lambda>s. get_goal s (d_goal_id d))) (\<lambda>g.
      andThen (settle_route w (d_id d) g sk) (\<lambda>answer. ret (add_answer answer totals))))
      (\<lambda>_. awaiting ds) steady" for sk
  proof (rule valid_andThen)
    show "valid (awaiting (d # ds)) (query (\<lambda>s. get_goal s (d_goal_id d)))
        (\<lambda>g s. awaiting (d # ds) s \<and> g_id g = d_goal_id d \<and> d_goal_id d \<in> goal_ids s) steady"
      by (rule valid_query)
        (auto simp: awaiting_def split: sum.split dest: get_goal_InrD get_goal_ids)
  next
    fix g
    show "valid (\<lambda>s. awaiting (d # ds) s \<and> g_id g = d_goal_id d \<and> d_goal_id d \<in> goal_ids s)
        (andThen (settle_route w (d_id d) g sk) (\<lambda>answer. ret (add_answer answer totals)))
        (\<lambda>_. awaiting ds) steady"
    proof (cases "d_id d \<notin> d_id ` set ds \<and> distinct (map d_id ds)")
      case True
      then have "valid (\<lambda>s. steady s \<and> proposed_for (d_id d) (g_id g) s \<and> g_id g \<in> goal_ids s \<and>
          (\<forall>e \<in> set ds. proposed_for (d_id e) (d_goal_id e) s)) (settle_route w (d_id d) g sk)
          (\<lambda>_. awaiting ds) steady"
        by (intro valid_post [OF settle_route_valid]) (auto simp: awaiting_def)
      then show ?thesis
        by (intro valid_andThen [where R = "\<lambda>_. awaiting ds"] valid_ret)
          (erule valid_pre, simp_all add: awaiting_def)
    next
      case False
      then have "\<not> awaiting (d # ds) s" for s by (auto simp: awaiting_def)
      then show ?thesis by (simp add: valid_def)
    qed
  qed
  show "valid (awaiting (d # ds)) (case found of None \<Rightarrow> andThen (modify (set_decomposition_status (d_id d)
           DRejectedByVerifier ''the decomposition was recorded without a sketch''))
         (\<lambda>_. ret (totals\<lparr>rc_rejected := rc_rejected totals + 1\<rparr>))
     | Some sk \<Rightarrow> andThen (query (\<lambda>s. get_goal s (d_goal_id d))) (\<lambda>g.
         andThen (settle_route w (d_id d) g sk) (\<lambda>answer. ret (add_answer answer totals))))
      (\<lambda>_. awaiting ds) steady"
  proof (cases found)
    case None
    show ?thesis
      unfolding None option.case
      by (rule valid_andThen, rule valid_modify, erule awaiting_reject, rule valid_ret, assumption)
  next
    case (Some sk)
    show ?thesis unfolding Some option.case by (rule check)
  qed
qed

lemma awaiting_proposed:
  assumes "steady s"
  shows "awaiting (proposed_decompositions s) s"
proof -
  note wf = steadyD(2) [OF assms]
  have "distinct (map r_id (filter (\<lambda>r. r_status r = DProposed) (st_decs s)))"
    using wf_distinct(3) [OF wf] by (rule distinct_map_filter)
  then have "distinct (map r_id (sort_key r_created_at (filter (\<lambda>r. r_status r = DProposed) (st_decs s))))"
    by (simp add: distinct_map)
  then have "distinct (map d_id (proposed_decompositions s))"
    by (simp add: proposed_decompositions_def comp_def)
  moreover have "proposed_for (r_id r) (r_goal_id r) s" if "r \<in> set (st_decs s)" "r_status r = DProposed" for r
    using that row_of_unique [OF wf_distinct(3) [OF wf]] unfolding proposed_for_def
    by (metis option.inject)
  ultimately show ?thesis using assms by (auto simp: awaiting_def proposed_decompositions_def)
qed

lemma revalidate_proposed_steady: "steady_run (revalidate_proposed w)"
  unfolding revalidate_proposed_def
proof (rule valid_andThen)
  show "valid steady (ask proposed_decompositions) awaiting steady"
    by (rule valid_ask) (rule awaiting_proposed)
  show "valid (awaiting ds) (for_each ds (revalidate_one w) no_routes) (\<lambda>_. steady) steady" for ds
    by (rule valid_post [OF valid_for_each [where I = "\<lambda>ds _. awaiting ds", OF revalidate_one_valid]])
      (simp_all add: awaiting_def)
qed

lemma recover_one_steady: "steady_run (recover_one w g done)"
proof -
  have "steady_run (andThen (record_result w (g_id g) res) (\<lambda>_.
          andThen (modify (force_release (g_id g))) (\<lambda>_.
          andThen (propagate_now w (g_id g)) (\<lambda>_. ret x))))" for res x
    by (rule valid_andThen, rule record_result_valid, rule valid_andThen, rule valid_modify,
        erule lease_writes_steady(3), rule valid_andThen, rule propagate_now_valid, rule valid_ret)
  then show ?thesis
    unfolding recover_one_def by (auto split: sum.split intro: valid_fail)
qed

lemma recover_steady: "steady_run (recover w)"
  unfolding recover_def
  by (rule valid_andThen, rule revalidate_proposed_steady, rule valid_andThen, rule steady_consult,
      rule valid_andThen, rule steady_ask,
      rule valid_for_each [where I = "\<lambda>_ _. steady"], rule recover_one_steady)

lemma record_decomposition_steady: "steady_run (record_decomposition w g sk)"
proof -
  let ?add = "\<lambda>now. perform (add_decomposition (w_ids w) now (g_id g)
           (map (\<lambda>sp. (sp_identity sp, sp_signature sp)) (sk_subgoals sk)) (Some sk) DProposed)"
  let ?on = "\<lambda>r. case r of (k2, Inl (CycleError _)) \<Rightarrow> (k2, Inr (no_routes\<lparr>rc_cycles := 1\<rparr>))
       | (k2, Inl e) \<Rightarrow> (k2, Inl e)
       | (k2, Inr d) \<Rightarrow>
           andThen (settle_route w (d_id d) g sk) (\<lambda>answer. ret (add_answer answer no_routes)) k2"
  have "valid steady (\<lambda>k1. ?on (?add now k1)) (\<lambda>_. steady) steady" for now
    unfolding valid_def
  proof (intro allI impI)
    fix k :: control
    assume k: "steady (k_store k)"
    obtain s' r where add: "add_decomposition (w_ids w) now (g_id g)
           (map (\<lambda>sp. (sp_identity sp, sp_signature sp)) (sk_subgoals sk)) (Some sk) DProposed (k_store k) = (s', r)"
      by fastforce
    note steady = add_decomposition_steady [OF add k]
    have run: "?add now k = (k\<lparr>k_store := s'\<rparr>, r)" by (simp add: perform_def add)
    show "case ?on (?add now k) of (k1, Inl e) \<Rightarrow> steady (k_store k1) | (k1, Inr a) \<Rightarrow> steady (k_store k1)"
    proof (cases r)
      case (Inl e)
      then show ?thesis unfolding run using steady by (cases e) simp_all
    next
      case (Inr d)
      have "valid (\<lambda>s. steady s \<and> proposed_for (d_id d) (g_id g) s \<and> g_id g \<in> goal_ids s)
          (andThen (settle_route w (d_id d) g sk) (\<lambda>answer. ret (add_answer answer no_routes)))
          (\<lambda>_. steady) steady"
        using settle_route_valid [of "d_id d" d_id "{}" g d_goal_id w sk]
        by (intro valid_andThen [where R = "\<lambda>_. steady"] valid_ret) simp_all
      with steady Inr show ?thesis unfolding run valid_def by simp
    qed
  qed
  then show ?thesis
    unfolding record_decomposition_def [abs_def] by (intro valid_andThen [OF steady_consult])
qed

lemma maybe_decompose_steady: "steady_run (maybe_decompose w g)"
  unfolding maybe_decompose_def
  by (rule valid_andThen, rule steady_consult)
    (auto split: option.split intro: valid_ret record_decomposition_steady)

lemma decompose_and_count_steady: "steady_run (decompose_and_count w root_id g c)"
  unfolding decompose_and_count_def
  by (rule valid_andThen, rule maybe_decompose_steady, rule valid_andThen, rule steady_ask, rule valid_ret)

lemma consult_attack: "steady_run (\<lambda>k. (k\<lparr>k_tick := Suc (k_tick k)\<rparr>, w_attack w (k_tick k) g money))"
  by (auto simp: valid_def split: sum.split)

lemma attack_goal_steady: "steady_run (attack_goal w money root_id g c)"
  unfolding attack_goal_def Let_def
  by (rule valid_andThen, rule consult_attack, rule valid_andThen, rule record_result_valid,
      rule valid_andThen, rule propagate_now_valid)
    (auto intro!: valid_ret valid_andThen [OF decompose_and_count_steady])

lemma work_on_steady: "steady_run (work_on w money root_id g c)"
  unfolding work_on_def
  by (rule valid_andThen, rule steady_ask)
    (auto intro!: attack_goal_steady valid_ret valid_andThen [OF decompose_and_count_steady])

lemma claim_steady: "steady_run (perform (\<lambda>s. case claim gid owner ttl now s of (s1, won) \<Rightarrow> (s1, Inr won)))"
  by (rule valid_perform) (metis (no_types, lifting) fst_conv lease_writes_steady(1) prod.case prod.collapse sum.case(2) prod.inject)

lemma claim_first_steady: "steady_run (claim_first w fuel cs)"
proof (induction fuel arbitrary: cs)
  case 0
  then show ?case by (simp add: valid_ret valid_fail)
next
  case (Suc fuel)
  show ?case
    by (auto split: option.split intro!: valid_ret valid_andThen [OF steady_consult]
        valid_andThen [OF claim_steady] Suc)
qed

lemma iterate_steady: "steady_run (iterate w budget root_id c)"
proof -
  have "steady_run (query q)" for q :: "graph_store \<Rightarrow> proof_error + 'b"
    by (rule valid_query) (simp split: sum.split)
  moreover have "steady_run (finally_do (work_on w money root_id g c') (release (g_id g) (w_owner w)))" for money g c'
    by (rule valid_finally [OF work_on_steady]) (rule lease_writes_steady(2), assumption)+
  ultimately show ?thesis
    unfolding iterate_def
    by (auto split: option.split intro!: valid_andThen [where R = "\<lambda>_. steady"] valid_ret steady_ask
        claim_first_steady)
qed

lemma solve_loop_steady: "steady_run (solve_loop w budget root_id left c)"
proof (induction left arbitrary: c)
  case 0
  then show ?case by (simp add: valid_ret)
next
  case (Suc left)
  show ?case
    by (auto split: option.split intro!: valid_andThen [OF iterate_steady] valid_ret Suc)
qed

lemma steady_query: "steady_run (query q)"
  by (rule valid_query) (simp split: sum.split)

lemma solve_steady: "steady_run (solve w root_id budget max_iterations)"
  unfolding solve_def
  by (auto intro!: valid_andThen [OF recover_steady] valid_andThen [OF steady_ask]
      valid_andThen [OF solve_loop_steady] valid_andThen [OF steady_query] valid_ret)

text \<open>
  C11: Whatever the solver, the route source, the sketch check, the clock and the selection answer,
  and whether \<open>solve\<close> returns a report or stops with an error, a steady store is steady afterwards:
  the keys of the schema hold, the graph is acyclic, every proved goal has a proof, and every goal
  that recorded attempts and accepted routes prove is marked as proved.
\<close>

theorem solve_keeps_store_steady:
  assumes "steady (k_store k)"
  shows "steady (k_store (fst (solve w root_id budget max_iterations k)))"
  using solve_steady assms by (rule validD)


end
