(* ===== verification/ControllerLeases.thy ===== *)
theory ControllerLeases
  imports ControllerProofs
begin

text \<open>
  Invariants of the store that every write of the controller keeps by itself, as an interface: what
  the methods of the controller keep of such an invariant is proved once. It gives that the
  controller returns every lease it takes, and that no attempt is ever lost.
\<close>

locale write_invariant =
  fixes I :: "graph_store \<Rightarrow> bool"
  assumes propagate_keeps: "I s \<Longrightarrow> I (fst (propagate m b l gid s))"
    and attempt_keeps: "I s \<Longrightarrow> I (fst (record_attempt u now gid res pt rd ev cost note s))"
    and decomposition_keeps: "I s \<Longrightarrow> I (fst (add_decomposition u now gid subs sk status s))"
    and status_keeps: "I s \<Longrightarrow> I (set_decomposition_status did status reason s)"
    and force_keeps: "I s \<Longrightarrow> I (force_release gid s)"
begin

abbreviation keeps :: "'a run \<Rightarrow> bool" where
  "keeps m \<equiv> valid I m (\<lambda>_. I) I"

lemma perform_keeps: "(\<And>s. I s \<Longrightarrow> I (fst (f s))) \<Longrightarrow> keeps (perform f)"
  by (rule valid_perform) (metis (no_types, lifting) fst_conv sum.case_eq_if)

lemma simple_keeps:
  "keeps (ask q)" "keeps (query q')" "keeps (consult f)" "keeps (ret a)" "keeps (fail e)"
  by (rule valid_ask valid_query valid_consult valid_ret valid_fail; simp split: sum.split)+

lemma then_keeps: "keeps m \<Longrightarrow> (\<And>a. keeps (f a)) \<Longrightarrow> keeps (andThen m f)"
  by (rule valid_andThen)

lemma propagate_now_keeps: "keeps (propagate_now w gid)"
  unfolding propagate_now_def by (rule perform_keeps) (rule propagate_keeps)

lemma record_result_keeps: "keeps (record_result w gid res)"
  unfolding record_result_def
  by (rule then_keeps, rule simple_keeps, rule perform_keeps, erule attempt_keeps)

lemma modify_keeps: "(\<And>s. I s \<Longrightarrow> I (f s)) \<Longrightarrow> keeps (modify f)"
  by (rule valid_modify)

lemma settle_route_keeps: "keeps (settle_route w did g sk)"
proof -
  have "keeps (case check of SketchUnavailable \<Rightarrow> ret None
     | Verdict v \<Rightarrow> andThen (modify (set_decomposition_status did (verdict_status v) (v_reason v))) (\<lambda>_.
         andThen (propagate_now w (g_id g)) (\<lambda>_. ret (Some (v_ok v)))))" for check
    by (cases check)
      (auto intro!: then_keeps modify_keeps propagate_now_keeps simple_keeps status_keeps)
  then show ?thesis unfolding settle_route_def by (intro then_keeps simple_keeps)
qed

lemma for_each_keeps: "(\<And>x acc. keeps (body x acc)) \<Longrightarrow> keeps (for_each xs body acc)"
  by (rule valid_for_each)

lemma recover_keeps: "keeps (recover w)"
proof -
  have "keeps (revalidate_one w d totals)" for d totals
    unfolding revalidate_one_def
    by (auto split: option.split
        intro!: then_keeps modify_keeps settle_route_keeps simple_keeps status_keeps)
  moreover have "keeps (recover_one w g done)" for g "done"
    unfolding recover_one_def
    by (auto split: sum.split intro!: then_keeps modify_keeps propagate_now_keeps record_result_keeps
        simple_keeps force_keeps)
  ultimately show ?thesis
    unfolding recover_def revalidate_proposed_def
    by (intro then_keeps simple_keeps for_each_keeps)
qed

lemma record_decomposition_keeps: "keeps (record_decomposition w g sk)"
proof -
  have "keeps (\<lambda>k1. case perform (add_decomposition (w_ids w) now (g_id g)
           (map (\<lambda>sp. (sp_identity sp, sp_signature sp)) (sk_subgoals sk)) (Some sk) DProposed) k1 of
         (k2, Inl (CycleError _)) \<Rightarrow> (k2, Inr (no_routes\<lparr>rc_cycles := 1\<rparr>))
       | (k2, Inl e) \<Rightarrow> (k2, Inl e)
       | (k2, Inr d) \<Rightarrow>
           andThen (settle_route w (d_id d) g sk) (\<lambda>answer. ret (add_answer answer no_routes)) k2)" for now
    unfolding valid_def
  proof (intro allI impI, goal_cases)
    case (1 k)
    obtain s' r where add: "add_decomposition (w_ids w) now (g_id g)
           (map (\<lambda>sp. (sp_identity sp, sp_signature sp)) (sk_subgoals sk)) (Some sk) DProposed (k_store k) = (s', r)"
      by fastforce
    have I: "I s'" using decomposition_keeps [OF 1] add by (metis fst_conv)
    have run: "perform (add_decomposition (w_ids w) now (g_id g)
           (map (\<lambda>sp. (sp_identity sp, sp_signature sp)) (sk_subgoals sk)) (Some sk) DProposed) k
        = (k\<lparr>k_store := s'\<rparr>, r)" by (simp add: perform_def add)
    show ?case
    proof (cases r)
      case (Inl e)
      then show ?thesis unfolding run using I by (cases e) simp_all
    next
      case (Inr d)
      have "keeps (andThen (settle_route w (d_id d) g sk) (\<lambda>answer. ret (add_answer answer no_routes)))"
        by (intro then_keeps settle_route_keeps simple_keeps)
      with I Inr show ?thesis unfolding run valid_def by simp
    qed
  qed
  then show ?thesis
    unfolding record_decomposition_def [abs_def] by (intro then_keeps simple_keeps)
qed

lemma decompose_and_count_keeps: "keeps (decompose_and_count w root_id g c)"
proof -
  have "keeps (maybe_decompose w g)"
    unfolding maybe_decompose_def
    by (auto split: option.split intro!: then_keeps simple_keeps record_decomposition_keeps)
  then show ?thesis unfolding decompose_and_count_def by (intro then_keeps simple_keeps)
qed

lemma work_on_keeps: "keeps (work_on w money root_id g c)"
proof -
  have attack: "keeps (\<lambda>k. (k\<lparr>k_tick := Suc (k_tick k)\<rparr>, w_attack w (k_tick k) g money))"
    by (auto simp: valid_def split: sum.split)
  have "keeps (attack_goal w money root_id g c)" for c
    unfolding attack_goal_def Let_def
    by (intro then_keeps attack record_result_keeps propagate_now_keeps)
      (auto intro!: then_keeps decompose_and_count_keeps simple_keeps)
  then show ?thesis
    unfolding work_on_def by (auto intro!: then_keeps decompose_and_count_keeps simple_keeps)
qed

end

section \<open>Leases\<close>

text \<open>All goals that \<open>owner\<close> has leased, expired or not, are among \<open>G\<close>; ids are a primary key.\<close>

definition only :: "string \<Rightarrow> string set \<Rightarrow> graph_store \<Rightarrow> bool" where
  "only owner G s \<longleftrightarrow> unique_goals s \<and> (\<forall>g \<in> set (st_goals s). g_lease_owner g = Some owner \<longrightarrow> g_id g \<in> G)"

lemma only_cong: "st_goals s' = st_goals s \<Longrightarrow> only owner G s' \<longleftrightarrow> only owner G s"
  by (simp add: only_def unique_goals_def)

lemma only_set_goal_status: "only owner G s \<Longrightarrow> only owner G (set_goal_status gid x b l s)"
  by (auto simp: only_def unique_goals_def set_goal_status_def in_upd_rows map_key_upd_rows split: if_splits)

lemma propagate_loop_only: "only owner G s \<Longrightarrow> only owner G (fst (propagate_loop m b l pending s))"
proof (induction m b l pending s rule: propagate_loop.induct)
  case (1 m b l pending s)
  show ?case
  proof (cases "pending = [] \<or> (\<exists>e. get_goal s (last pending) = Inl e)")
    case True
    with 1(3) show ?thesis by (subst propagate_loop.simps) auto
  next
    case False
    then obtain g where ne: "pending \<noteq> []" and g: "get_goal s (last pending) = Inr g"
      by (cases "get_goal s (last pending)") auto
    obtain s1 r where adv: "advance_decompositions (decompositions_of s (last pending)) s = (s1, r)"
      by fastforce
    then have o1: "only owner G s1" using 1(3) advance_frame(1) [OF adv] only_cong by blast
    show ?thesis
    proof (cases r)
      case (Inl e)
      with o1 show ?thesis by (subst propagate_loop.simps) (simp add: ne g adv Let_def)
    next
      case (Inr advanced)
      let ?status = "goal_status_from (outcomes_of s1 (last pending)) advanced m"
      have adv': "(s1, Inr advanced) = advance_decompositions (decompositions_of s (last pending)) s"
        using adv Inr by simp
      show ?thesis
      proof (cases "?status = g_status g")
        case True
        from 1(1) [OF ne refl refl g adv' refl refl True o1] show ?thesis
          by (subst propagate_loop.simps) (simp add: ne g adv Inr Let_def True)
      next
        case change: False
        from 1(2) [OF ne refl refl g adv' refl refl change refl only_set_goal_status [OF o1]] change show ?thesis
          by (subst propagate_loop.simps) (simp add: ne g adv Inr Let_def)
      qed
    qed
  qed
qed

lemma insert_goal_only: "insert_goal gid i st now s = Inr s' \<Longrightarrow> only owner G s \<Longrightarrow> only owner G s'"
  by (erule insert_goal_cases) (auto simp: only_def new_goal_def unique_goals_def goal_ids_def)

lemma insert_subgoals_only: "only owner G s \<Longrightarrow> only owner G (fst (insert_subgoals u now subs s))"
proof (induction u now subs s rule: insert_subgoals.induct)
  case (2 u now i st subs s)
  define gid where "gid = fst (new_id u ''goal'' s)"
  define s1 where "s1 = snd (new_id u ''goal'' s)"
  have s1: "only owner G s1" using 2(2) only_cong [of s1 s] by (simp add: s1_def)
  have new: "new_id u ''goal'' s = (gid, s1)" by (simp add: gid_def s1_def)
  show ?case
  proof (cases "insert_goal gid i st now s1")
    case (Inl e)
    with s1 show ?thesis unfolding insert_subgoals.simps new Let_def prod.case by simp
  next
    case (Inr s2)
    with s1 have s2: "only owner G s2" by (blast intro: insert_goal_only)
    show ?thesis
    proof (cases "goal_by_identity s2 i")
      case None
      with Inr s2 show ?thesis unfolding insert_subgoals.simps new Let_def prod.case by simp
    next
      case (Some g)
      have "only owner G (fst (insert_subgoals u now subs s2))"
        using 2(1) [OF new [symmetric] refl Inr Some s2] by simp
      with Inr Some show ?thesis
        unfolding insert_subgoals.simps new Let_def prod.case
        by (auto split: prod.split sum.split)
    qed
  qed
qed simp

lemma write_decomposition_only:
  assumes "only owner G s"
  shows "only owner G (fst (write_decomposition u now gid subs sk status s))"
proof -
  define s1 where "s1 = snd (new_id u ''dec'' s)"
  have new: "new_id u ''dec'' s = (fst (new_id u ''dec'' s), s1)" by (simp add: s1_def)
  have "only owner G s1" using assms only_cong [of s1 s] by (simp add: s1_def)
  then have "only owner G (fst (insert_subgoals u now subs s1))" by (rule insert_subgoals_only)
  moreover have draws: "only owner G (s\<lparr>st_draws := n\<rparr>)" for n using assms by (simp add: only_def unique_goals_def)
  moreover obtain s2 r where ins: "insert_subgoals u now subs s1 = (s2, r)" by fastforce
  ultimately have s2: "only owner G s2" by simp
  show ?thesis
  proof (cases r)
    case (Inl e)
    then show ?thesis
      unfolding write_decomposition_def Let_def by (subst new) (simp add: ins draws)
  next
    case (Inr ids)
    have "only owner G (s2\<lparr>st_decs := ds, st_edges := es\<rparr>)" for ds es
      using s2 by (simp add: only_def unique_goals_def)
    with Inr draws show ?thesis
      unfolding write_decomposition_def Let_def by (subst new) (simp add: ins)
  qed
qed

interpretation owned: write_invariant "only owner G" for owner G
proof (unfold_locales, goal_cases)
  case (1 s m b l gid)
  then show ?case unfolding propagate_def by (rule propagate_loop_only)
next
  case (2 s u now gid res pt rd ev cost nt)
  obtain s' r where "record_attempt u now gid res pt rd ev cost nt s = (s', r)" by fastforce
  moreover from this have "st_goals s' = st_goals s" by (cases rule: record_attempt_cases) simp_all
  ultimately show ?case using 2 by (simp add: only_def unique_goals_def)
next
  case (3 s u now gid subs sk status)
  then show ?case
    by (auto simp: add_decomposition_def split: sum.split intro: write_decomposition_only)
next
  case (4 s did status reason)
  then show ?case by (simp add: only_def unique_goals_def)
next
  case (5 s gid)
  then show ?case
    by (auto simp: only_def unique_goals_def force_release_def in_upd_rows map_key_upd_rows drop_lease_def)
qed

lemma claim_only:
  assumes "only owner {} s"
  shows "only owner (if snd (claim gid owner ttl now s) then {gid} else {}) (fst (claim gid owner ttl now s))"
proof -
  have u: "unique_goals s" "unique_goals (fst (claim gid owner ttl now s))"
    using assms by (simp_all add: only_def unique_goals_def lease_write_ids)
  show ?thesis
  proof (cases "snd (claim gid owner ttl now s)")
    case True
    have "g_lease_owner g = Some owner \<longrightarrow> g_id g = gid"
      if "g \<in> set (st_goals (fst (claim gid owner ttl now s)))" for g
      using that assms by (auto simp: claim_def Let_def only_def)
    with True u show ?thesis by (simp add: only_def)
  next
    case False
    have "\<not> (g_id g = gid \<and> claimable now g)" if "g \<in> set (st_goals s)" for g
      using that False claimed_iff [OF u(1)] row_of_unique [of g_id "st_goals s" g] u(1)
      by (auto simp: unique_goals_def)
    then have "map (\<lambda>g. if g_id g = gid \<and> claimable now g then g\<lparr>g_lease_owner := Some owner,
           g_lease_expires_at := Some (now + ttl), g_lease_run_dir := None\<rparr> else g) (st_goals s) = st_goals s"
      by (intro map_idI) auto
    then have "fst (claim gid owner ttl now s) = s" by (simp add: claim_def)
    with False assms show ?thesis by simp
  qed
qed

lemma release_only: "only owner {gid} s \<Longrightarrow> only owner {} (release gid owner s)"
  unfolding only_def unique_goals_def lease_write_ids by (auto simp: release_def drop_lease_def)

text \<open>The claim loop ends with the lease of the goal it answers, and of no other.\<close>

lemma claim_first_only:
  "valid (only (w_owner w) {}) (claim_first w fuel cs)
     (\<lambda>found. only (w_owner w) (case found of None \<Rightarrow> {} | Some g \<Rightarrow> {g_id g})) (only (w_owner w) {})"
proof (induction fuel arbitrary: cs)
  case 0
  then show ?case by (simp add: valid_ret valid_fail)
next
  case (Suc fuel)
  let ?post = "\<lambda>found. only (w_owner w) (case found of None \<Rightarrow> {} | Some g \<Rightarrow> {g_id g})"
  have claimed: "valid (only (w_owner w) {})
      (perform (\<lambda>s. case claim (g_id g) (w_owner w) (w_lease_ttl w) now s of (s1, won) \<Rightarrow> (s1, Inr won)))
      (\<lambda>won. only (w_owner w) (if won then {g_id g} else {})) E" for g now E
    by (rule valid_perform)
      (use claim_only [of "w_owner w" _ "g_id g" "w_lease_ttl w" now] in \<open>force split: prod.splits\<close>)
  have rest: "valid (only (w_owner w) (if won then {g_id g} else {}))
      (if won then ret (Some g) else claim_first w fuel ds) ?post (only (w_owner w) {})" for won g ds
    using Suc by (auto intro: valid_ret)
  show ?case
    by (auto split: option.split intro!: valid_ret
        valid_andThen [OF valid_consult [where Q = "\<lambda>_. only (w_owner w) {}"]] valid_andThen [OF claimed rest])
qed

lemma iterate_only:
  "valid (only (w_owner w) {}) (iterate w budget root_id c) (\<lambda>_. only (w_owner w) {}) (only (w_owner w) {})"
proof -
  have work: "valid (only (w_owner w) {g_id g})
      (finally_do (work_on w money root_id g c') (release (g_id g) (w_owner w)))
      (\<lambda>_. only (w_owner w) {}) (only (w_owner w) {})" for g money c'
    by (rule valid_finally [OF owned.work_on_keeps]) (rule release_only, assumption)+
  have after: "valid (only (w_owner w) (case found of None \<Rightarrow> {} | Some g \<Rightarrow> {g_id g}))
      (case found of None \<Rightarrow> ret (Some ''goal_leased_elsewhere'', c)
       | Some g \<Rightarrow> finally_do (work_on w money root_id g (c\<lparr>n_iterations := n_iterations c + 1\<rparr>))
         (release (g_id g) (w_owner w)))
      (\<lambda>_. only (w_owner w) {}) (only (w_owner w) {})" for found money
    by (cases found) (auto intro: valid_ret work)
  show ?thesis
    unfolding iterate_def
    by (auto intro!: owned.then_keeps owned.simple_keeps valid_andThen [OF claim_first_only after])
qed

lemma solve_loop_only:
  "valid (only (w_owner w) {}) (solve_loop w budget root_id left c)
     (\<lambda>_. only (w_owner w) {}) (only (w_owner w) {})"
proof (induction left arbitrary: c)
  case 0
  then show ?case by (simp add: owned.simple_keeps)
next
  case (Suc left)
  show ?case
    by (auto split: option.split intro!: owned.then_keeps iterate_only owned.simple_keeps Suc)
qed

text \<open>
  C12: Every lease is returned. If the owner holds no lease when \<open>solve\<close> starts, it holds none when
  \<open>solve\<close> ends, with a report or with any error, expired leases included.
\<close>

theorem solve_returns_leases:
  assumes "only (w_owner w) {} (k_store k)"
  shows "only (w_owner w) {} (k_store (fst (solve w root_id budget max_iterations k)))"
proof -
  have "valid (only (w_owner w) {}) (solve w root_id budget max_iterations)
      (\<lambda>_. only (w_owner w) {}) (only (w_owner w) {})"
    unfolding solve_def
    by (auto intro!: owned.then_keeps owned.recover_keeps owned.simple_keeps solve_loop_only)
  then show ?thesis using assms by (rule validD)
qed

section \<open>Counters and reasons to stop\<close>

text \<open>What the work on a goal answers: one attempt at most, and only these reasons to stop.\<close>

definition counted :: "counters \<Rightarrow> string option \<times> counters \<Rightarrow> bool" where
  "counted c r \<longleftrightarrow> n_iterations (snd r) = n_iterations c \<and> n_attempts c \<le> n_attempts (snd r) \<and>
     n_attempts (snd r) \<le> n_attempts c + 1 \<and> fst r \<in> {None, Some ''infra'', Some ''budget''}"

definition same_counts :: "counters \<Rightarrow> counters \<Rightarrow> bool" where
  "same_counts c c1 \<longleftrightarrow> n_iterations c1 = n_iterations c \<and> n_attempts c1 = n_attempts c"

lemma counted_same: "same_counts c c1 \<Longrightarrow> counted c1 r \<Longrightarrow> counted c r"
  by (simp add: counted_def same_counts_def)

lemma counted_rets:
  "same_counts c c1 \<Longrightarrow> s \<in> {None, Some ''infra'', Some ''budget''} \<Longrightarrow> counted c (s, c1)"
  "n_iterations c1 = n_iterations c \<Longrightarrow> n_attempts c1 = n_attempts c + 1 \<Longrightarrow>
     s \<in> {None, Some ''infra'', Some ''budget''} \<Longrightarrow> counted c (s, c1)"
  by (simp_all add: counted_def same_counts_def)

abbreviation pure_run :: "'a run \<Rightarrow> ('a \<Rightarrow> bool) \<Rightarrow> bool" where
  "pure_run m Q \<equiv> valid (\<lambda>_. True) m (\<lambda>a _. Q a) (\<lambda>_. True)"

lemma pure_any: "pure_run m (\<lambda>_. True)"
  by (simp add: valid_def split: prod.split sum.split)

lemma pure_then: "(\<And>a. pure_run (f a) Q) \<Longrightarrow> pure_run (andThen m f) Q"
  by (rule valid_andThen [OF pure_any])

lemma pure_ret: "Q a \<Longrightarrow> pure_run (ret a) Q"
  by (simp add: valid_ret)

lemma decompose_counts:
  "pure_run (decompose_and_count w root_id g c) (\<lambda>r. same_counts c (snd r))"
  unfolding decompose_and_count_def
  by (intro pure_then pure_ret) (simp add: count_routes_def same_counts_def)

lemma after_decompose:
  assumes "\<And>rc c1. same_counts c c1 \<Longrightarrow> pure_run (f rc c1) Q"
  shows "pure_run (andThen (decompose_and_count w root_id g c) (\<lambda>(rc, c1). f rc c1)) Q"
proof (rule valid_andThen [OF decompose_counts])
  fix a :: "route_counts \<times> counters"
  obtain rc c1 where a: "a = (rc, c1)" by fastforce
  show "valid (\<lambda>_. same_counts c (snd a)) (case a of (rc, c1) \<Rightarrow> f rc c1) (\<lambda>a _. Q a) (\<lambda>_. True)"
    using assms [of c1 rc] by (cases "same_counts c c1") (simp_all add: a, simp add: valid_def)
qed

lemma attack_counts: "pure_run (attack_goal w money root_id g c) (counted c)"
proof -
  have tail: "pure_run (andThen (decompose_and_count w root_id g c2) (\<lambda>(_, c3). ret (None, c3))) (counted c)"
    if "n_iterations c2 = n_iterations c" "n_attempts c2 = n_attempts c + 1" for c2
    by (rule after_decompose, rule pure_ret, rule counted_rets(2))
      (use that in \<open>simp_all add: same_counts_def\<close>)
  show ?thesis
    unfolding attack_goal_def Let_def
    by (intro pure_then) (auto intro!: pure_ret tail counted_rets(2))
qed

lemma work_on_counts: "pure_run (work_on w money root_id g c) (counted c)"
proof -
  have attack: "pure_run (attack_goal w money root_id g c1) (counted c)" if "same_counts c c1" for c1
    by (rule valid_post [OF attack_counts]) (auto intro: counted_same that)
  have "pure_run (if rc_accepted rc \<noteq> 0 then ret (None, c1) else attack_goal w money root_id g c1) (counted c)"
    if "same_counts c c1" for rc c1
    using that by (auto intro: pure_ret attack counted_rets)
  then have decompose: "pure_run (andThen (decompose_and_count w root_id g c) (\<lambda>(rc, c1).
       if rc_accepted rc \<noteq> 0 then ret (None, c1) else attack_goal w money root_id g c1)) (counted c)"
    by (rule after_decompose)
  show ?thesis
    unfolding work_on_def
    by (rule pure_then) (auto intro: decompose attack simp: same_counts_def)
qed

definition early_reasons :: "string list" where
  "early_reasons = [''proved'', ''budget'', ''no_actionable_goal'', ''goal_leased_elsewhere'', ''infra'']"

definition sound_stop :: "real \<Rightarrow> string \<Rightarrow> string option \<Rightarrow> graph_store \<Rightarrow> bool" where
  "sound_stop budget root_id stop s \<longleftrightarrow> (\<forall>r. stop = Some r \<longrightarrow>
     r \<in> set early_reasons \<and> (r = ''proved'' \<longrightarrow> status_of s root_id = GProved))"

lemma sound_stop_not_max: "sound_stop budget root_id (Some r) s \<Longrightarrow> r \<noteq> ''max_iterations''"
  by (auto simp: sound_stop_def early_reasons_def)

text \<open>One iteration: it counts itself when it claimed a goal, and its reason to stop is true.\<close>

definition iterated :: "real \<Rightarrow> string \<Rightarrow> counters \<Rightarrow> string option \<times> counters \<Rightarrow> graph_store \<Rightarrow> bool" where
  "iterated budget root_id c r s \<longleftrightarrow> sound_stop budget root_id (fst r) s \<and>
     (n_iterations (snd r) = n_iterations c \<and> n_attempts (snd r) = n_attempts c \<and> fst r \<noteq> None \<or>
      n_iterations (snd r) = n_iterations c + 1 \<and> n_attempts c \<le> n_attempts (snd r) \<and>
        n_attempts (snd r) \<le> n_attempts c + 1)"

lemma work_iterated: "valid (\<lambda>_. True) (finally_do
    (work_on w money root_id g (c\<lparr>n_iterations := n_iterations c + 1\<rparr>)) (release (g_id g) owner))
    (iterated budget root_id c) (\<lambda>_. True)"
  by (rule valid_finally [OF work_on_counts]) (auto simp: counted_def iterated_def sound_stop_def early_reasons_def)

lemma iterate_counts: "valid (\<lambda>_. True) (iterate w budget root_id c) (iterated budget root_id c) (\<lambda>_. True)"
proof -
  have stop: "valid (\<lambda>_. True) (ret (Some r, c)) (iterated budget root_id c) (\<lambda>_. True)"
    if "r \<in> {''budget'', ''no_actionable_goal'', ''goal_leased_elsewhere''}" for r
    using that by (intro valid_ret) (auto simp: iterated_def sound_stop_def early_reasons_def)
  have after_claim: "valid (\<lambda>_. True) (case found of
       None \<Rightarrow> ret (Some ''goal_leased_elsewhere'', c)
     | Some g \<Rightarrow> finally_do
         (work_on w money root_id g (c\<lparr>n_iterations := n_iterations c + 1\<rparr>))
         (release (g_id g) (w_owner w))) (iterated budget root_id c) (\<lambda>_. True)" for found money
    by (cases found) (simp_all add: stop work_iterated)
  have open_root: "valid (\<lambda>_. True) (andThen (ask total_cost) (\<lambda>spent.
     if spent \<ge> budget then ret (Some ''budget'', c)
     else andThen (ask (actionable_goals (Some (n_scope c)))) (\<lambda>candidates.
     if candidates = [] then ret (Some ''no_actionable_goal'', c)
     else andThen (claim_first w (length candidates) candidates) (\<lambda>claimed. case claimed of
       None \<Rightarrow> ret (Some ''goal_leased_elsewhere'', c)
     | Some g \<Rightarrow> finally_do
         (work_on w (budget - spent) root_id g (c\<lparr>n_iterations := n_iterations c + 1\<rparr>))
         (release (g_id g) (w_owner w)))))) (iterated budget root_id c) (\<lambda>_. True)"
    by (auto intro!: valid_andThen [OF pure_any] stop after_claim)
  have proved: "valid (\<lambda>s. get_goal s root_id = Inr rg) (ret (Some ''proved'', c)) (iterated budget root_id c) (\<lambda>_. True)"
    if "g_status rg = GProved" for rg
    by (rule valid_ret) (use that in \<open>simp add: iterated_def sound_stop_def early_reasons_def status_of_get\<close>)
  show ?thesis
    unfolding iterate_def
  proof (rule valid_andThen)
    show "valid (\<lambda>_. True) (query (\<lambda>s. get_goal s root_id)) (\<lambda>rg s. get_goal s root_id = Inr rg) (\<lambda>_. True)"
      by (rule valid_query) (simp split: sum.split)
  qed (auto intro: proved valid_pre [OF open_root])
qed

lemma solve_loop_counts:
  "valid (\<lambda>_. True) (solve_loop w budget root_id left c)
     (\<lambda>r s. n_iterations c \<le> n_iterations (snd r) \<and> n_iterations (snd r) \<le> n_iterations c + int left \<and>
        n_attempts c \<le> n_attempts (snd r) \<and>
        n_attempts (snd r) - n_attempts c \<le> n_iterations (snd r) - n_iterations c \<and>
        (if fst r = ''max_iterations'' then n_iterations (snd r) = n_iterations c + int left
         else sound_stop budget root_id (Some (fst r)) s)) (\<lambda>_. True)"
proof (induction left arbitrary: c)
  case 0
  then show ?case by (simp add: valid_ret)
next
  case (Suc left)
  show ?case
    unfolding solve_loop.simps
  proof (rule valid_andThen [OF iterate_counts], clarify, goal_cases)
    case (1 stop c1)
    show ?case
    proof (cases stop)
      case None
      then show ?thesis
        by (simp, intro valid_post [OF valid_pre [OF valid_pure [OF Suc, of "n_iterations c1 = n_iterations c + 1 \<and>
            n_attempts c \<le> n_attempts c1 \<and> n_attempts c1 \<le> n_attempts c + 1" c1]]])
          (auto simp: iterated_def)
    next
      case (Some r)
      then show ?thesis
        by (simp, intro valid_ret) (auto simp: iterated_def dest: sound_stop_not_max)
    qed
  qed
qed


end
