(* ===== verification/ControllerLedger.thy ===== *)
theory ControllerLedger
  imports ControllerLeases
begin

text \<open>
  Invariants that claims and releases keep as well, which the whole of \<open>solve\<close> therefore keeps. The
  instance is the ledger: the spend of a run is derived from the attempts table, so no attempt may
  be lost or altered by any method of the controller.
\<close>

section \<open>What the whole loop keeps\<close>

locale loop_invariant = write_invariant +
  assumes claim_keeps: "I s \<Longrightarrow> I (fst (claim gid owner ttl now s))"
    and release_keeps: "I s \<Longrightarrow> I (release gid owner s)"
begin

lemma claim_first_keeps: "keeps (claim_first w fuel cs)"
proof (induction fuel arbitrary: cs)
  case 0
  then show ?case by (simp add: simple_keeps)
next
  case (Suc fuel)
  have claim: "keeps (perform (\<lambda>s. case claim gid owner ttl now s of (s1, won) \<Rightarrow> (s1, Inr won)))"
    for gid owner ttl now
    by (rule perform_keeps) (use claim_keeps in \<open>simp add: split_beta\<close>)
  show ?case
    by (auto split: option.split intro!: simple_keeps then_keeps claim Suc)
qed

lemma iterate_keeps: "keeps (iterate w budget root_id c)"
proof -
  have work: "keeps (finally_do (work_on w money root_id g c') (release (g_id g) (w_owner w)))" for money g c'
    by (rule valid_finally [OF work_on_keeps]) (rule release_keeps, assumption)+
  show ?thesis
    unfolding iterate_def
    by (auto split: option.split intro!: then_keeps simple_keeps claim_first_keeps work)
qed

lemma solve_keeps: "keeps (solve w root_id budget max_iterations)"
proof -
  have "keeps (solve_loop w budget root_id left c)" for left c
    by (induction left arbitrary: c)
      (auto split: option.split intro!: then_keeps simple_keeps iterate_keeps)
  then show ?thesis
    unfolding solve_def by (auto intro!: then_keeps simple_keeps recover_keeps)
qed

end

section \<open>The ledger\<close>

lemma propagate_loop_frame:
  "st_attempts (fst (propagate_loop m b l pending s)) = st_attempts s
   \<and> st_edges (fst (propagate_loop m b l pending s)) = st_edges s
   \<and> map r_id (st_decs (fst (propagate_loop m b l pending s))) = map r_id (st_decs s)"
proof (induction m b l pending s rule: propagate_loop.induct)
  case (1 m b l pending s)
  show ?case
  proof (cases "pending = [] \<or> (\<exists>e. get_goal s (last pending) = Inl e)")
    case True
    then show ?thesis by (subst (1 2 3) propagate_loop.simps) auto
  next
    case False
    then obtain g where ne: "pending \<noteq> []" and g: "get_goal s (last pending) = Inr g"
      by (cases "get_goal s (last pending)") auto
    obtain s1 r where adv: "advance_decompositions (decompositions_of s (last pending)) s = (s1, r)"
      by fastforce
    note frame = advance_frame(2,3,6) [OF adv]
    show ?thesis
    proof (cases r)
      case (Inl e)
      with frame show ?thesis by (subst (1 2 3) propagate_loop.simps) (simp add: ne g adv Let_def)
    next
      case (Inr advanced)
      let ?status = "goal_status_from (outcomes_of s1 (last pending)) advanced m"
      have adv': "(s1, Inr advanced) = advance_decompositions (decompositions_of s (last pending)) s"
        using adv Inr by simp
      show ?thesis
      proof (cases "?status = g_status g")
        case True
        from 1(1) [OF ne refl refl g adv' refl refl True] frame show ?thesis
          by (subst (1 2 3) propagate_loop.simps) (simp add: ne g adv Inr Let_def True)
      next
        case change: False
        from 1(2) [OF ne refl refl g adv' refl refl change refl] change frame show ?thesis
          by (subst (1 2 3) propagate_loop.simps) (simp add: ne g adv Inr Let_def)
      qed
    qed
  qed
qed

definition ledger_from :: "attempt list \<Rightarrow> graph_store \<Rightarrow> bool" where
  "ledger_from old s \<longleftrightarrow> (\<exists>new. st_attempts s = old @ new)"

lemma ledger_cong: "st_attempts s' = st_attempts s \<Longrightarrow> ledger_from old s \<Longrightarrow> ledger_from old s'"
  by (simp add: ledger_from_def)

lemma add_decomposition_attempts:
  "st_attempts (fst (add_decomposition u now gid subs sk status s)) = st_attempts s"
proof -
  have ins: "st_attempts (fst (insert_subgoals u now subs s)) = st_attempts s" for s
  proof (induction subs arbitrary: s)
    case (Cons sub subs)
    obtain i st where sub: "sub = (i, st)" by fastforce
    define gid where "gid = fst (new_id u ''goal'' s)"
    define s1 where "s1 = snd (new_id u ''goal'' s)"
    have new: "new_id u ''goal'' s = (gid, s1)" by (simp add: gid_def s1_def)
    have s1: "st_attempts s1 = st_attempts s" by (simp add: s1_def)
    show ?case
    proof (cases "insert_goal gid i st now s1")
      case (Inl e)
      with s1 show ?thesis unfolding sub insert_subgoals.simps new Let_def prod.case by simp
    next
      case (Inr s2)
      then have "st_attempts s2 = st_attempts s1" by (rule insert_goal_cases) simp_all
      with Cons.IH [of s2] s1 Inr show ?thesis
        unfolding sub insert_subgoals.simps new Let_def prod.case
        by (auto split: option.split prod.split sum.split)
    qed
  qed simp
  obtain s2 r where r: "insert_subgoals u now subs (snd (new_id u ''dec'' s)) = (s2, r)" by fastforce
  have "st_attempts s2 = st_attempts s" using ins [of "snd (new_id u ''dec'' s)"] unfolding r by simp
  then have "st_attempts (fst (write_decomposition u now gid subs sk status s)) = st_attempts s"
    using r unfolding write_decomposition_def Let_def
    by (auto split: sum.split)
  then show ?thesis by (simp add: add_decomposition_def split: sum.split)
qed

interpretation ledger: loop_invariant "ledger_from old" for old
proof (unfold_locales, goal_cases)
  case (1 s m b l gid)
  then show ?case
    using propagate_loop_frame unfolding propagate_def by (blast intro: ledger_cong)
next
  case (2 s u now gid res pt rd ev cost nt)
  obtain s' r where "record_attempt u now gid res pt rd ev cost nt s = (s', r)" by fastforce
  moreover from this have "\<exists>new. st_attempts s' = st_attempts s @ new"
    by (cases rule: record_attempt_cases) simp_all
  ultimately show ?case using 2 by (auto simp: ledger_from_def)
next
  case (3 s u now gid subs sk status)
  then show ?case by (rule ledger_cong [OF add_decomposition_attempts])
next
  case (4 s did status reason)
  then show ?case by (simp add: ledger_from_def)
next
  case (5 s gid)
  then show ?case by (simp add: ledger_from_def force_release_def)
next
  case (6 s gid owner ttl now)
  then show ?case by (simp add: ledger_from_def claim_def)
next
  case (7 s gid owner)
  then show ?case by (simp add: ledger_from_def release_def)
qed

text \<open>
  The ledger is append-only. Whatever \<open>solve\<close> does, and however it ends, the attempts recorded
  before it are still there, unaltered and in order; so when no attempt has a negative cost, the
  spend that is derived from them never decreases.
\<close>

theorem ledger_is_append_only:
  "\<exists>new. st_attempts (k_store (fst (solve w root_id budget max_iterations k)))
     = st_attempts (k_store k) @ new \<and>
   total_cost (k_store (fst (solve w root_id budget max_iterations k)))
     = total_cost (k_store k) + sum_list (map a_cost new)"
proof -
  have "ledger_from (st_attempts (k_store k)) (k_store (fst (solve w root_id budget max_iterations k)))"
    using ledger.solve_keeps by (rule validD) (simp add: ledger_from_def)
  then show ?thesis by (auto simp: ledger_from_def total_cost_def)
qed

text \<open>
  C14: An attempt without a verdict never changes the shape of the graph: when the solver answers an
  infrastructure fault, an interruption or an exhausted budget, no decomposition is asked for, so
  the decompositions and their edges are the same afterwards.
\<close>

theorem no_verdict_never_decomposes:
  assumes "w_attack w (k_tick k) g money = Inr res" and "ar_outcome res \<in> set no_verdict_outcomes"
  shows "st_edges (k_store (fst (attack_goal w money root_id g c k))) = st_edges (k_store k) \<and>
    map r_id (st_decs (k_store (fst (attack_goal w money root_id g c k)))) = map r_id (st_decs (k_store k))"
proof -
  define same :: "graph_store \<Rightarrow> bool" where "same = (\<lambda>s. st_edges s = st_edges (k_store k) \<and>
    map r_id (st_decs s) = map r_id (st_decs (k_store k)))"
  have rec: "valid same (record_result w gid r) (\<lambda>_. same) same" for gid r
  proof -
    have "same s'" if "record_attempt u now gid' o1 pt rd ev cost nt s = (s', x)" "same s"
      for u now gid' o1 pt rd ev cost nt s s' x
      using that by (cases rule: record_attempt_cases) (simp_all add: same_def)
    then show ?thesis
      unfolding record_result_def
      by (intro valid_andThen [OF valid_consult [where Q = "\<lambda>_. same"]] valid_perform) (auto split: sum.split)
  qed
  have frame: "same s \<Longrightarrow> same (fst (propagate_loop m b l q s))" for m b l q s
    using propagate_loop_frame [of m b l q s] by (simp add: same_def)
  have propagated: "valid same (propagate_now w gid) (\<lambda>_. same) same" for gid
    unfolding propagate_now_def propagate_def
    by (rule valid_perform) (use frame in \<open>metis fst_conv sum.case_eq_if\<close>)
  have run: "valid same (andThen (record_result w (g_id g) res) (\<lambda>_. andThen (propagate_now w (g_id g)) (\<lambda>_. ret x)))
      (\<lambda>_. same) same" for x :: "string option \<times> counters"
    by (intro valid_andThen [OF rec] valid_andThen [OF propagated] valid_ret)
  obtain x where x: "attack_goal w money root_id g c k =
      andThen (record_result w (g_id g) res) (\<lambda>_. andThen (propagate_now w (g_id g)) (\<lambda>_. ret x))
        (k\<lparr>k_tick := Suc (k_tick k)\<rparr>)"
    unfolding attack_goal_def using assms
    by (cases "ar_outcome res = OInfraFailed"; cases "w_max_infra w \<le> n_infra c + 1";
        cases "ar_outcome res = OBudgetExhausted")
      (auto simp: andThen_def [of "\<lambda>k. (k\<lparr>k_tick := Suc (k_tick k)\<rparr>, w_attack w (k_tick k) g money)"] Let_def)
  have "same (k_store (k\<lparr>k_tick := Suc (k_tick k)\<rparr>))" by (simp add: same_def)
  from validD [OF run this, of x] have "same (k_store (fst (attack_goal w money root_id g c k)))"
    unfolding x .
  then show ?thesis by (simp add: same_def)
qed

end
