(* ===== verification/ControllerSamples.thy ===== *)
theory ControllerSamples
  imports ControllerLedger
begin

text \<open>
  A world whose solver proves everything at the first attempt, on the store with two roots: the
  theorems on \<open>solve\<close> at a concrete input, with the loop evaluated.
\<close>

definition sample_result :: "outcome \<Rightarrow> attempt_result" where
  "sample_result res = \<lparr>ar_outcome = res, ar_proof_text = (if res = OProved then Some ''rfl'' else None),
     ar_run_dir = None, ar_evidence = None, ar_cost = 1, ar_note = []\<rparr>"

definition sample_world :: "outcome \<Rightarrow> world" where
  "sample_world res = \<lparr>w_owner = ''w1'', w_lease_ttl = 600, w_max_capability = 3, w_max_infra = 5,
     w_root_first = False, w_level = ''stub'', w_select = select_first_open,
     w_attack = (\<lambda>_ _ _. Inr (sample_result res)), w_propose = (\<lambda>_ _. None),
     w_validate = (\<lambda>_ _ _. SketchUnavailable), w_clock = (\<lambda>t. real t), w_ids = race_ids\<rparr>"

definition sample_control :: control where
  "sample_control = \<lparr>k_store = race_store, k_tick = 0\<rparr>"

lemma sample_steady: "steady (k_store sample_control)"
proof -
  have "good_store race_store"
  proof -
    have "good_store (fst (upsert_goal race_ids now i st s))" if "good_store s" for now i st s
      using upsert_goal_good [OF prod.collapse [symmetric] that] .
    note step = this
    show ?thesis unfolding race_store_def by (rule step, rule step, rule good_empty)
  qed
  moreover have "st_attempts race_store = []" "st_decs race_store = []"
    by (simp_all add: race_store_eq empty_store_def)
  then have "complete_store race_store"
    by (simp add: complete_store_def settled_by_def same_proved_def due_status_proved_iff
        outcomes_of_def attempts_of_def)
  ultimately show ?thesis by (simp add: sample_control_def steady_def)
qed

lemma sample_solved: "case snd (solve (sample_world OProved) ''goal_'' 10 5 sample_control) of
    Inl _ \<Rightarrow> False | Inr r \<Rightarrow> root_proved r"
  by code_simp

lemma sample_run: "\<exists>k1 r. solve (sample_world OProved) ''goal_'' 10 5 sample_control = (k1, Inr r) \<and> root_proved r"
  using sample_solved by (cases "solve (sample_world OProved) ''goal_'' 10 5 sample_control") (auto split: sum.splits)

lemma solve_keeps_store_steady_witness:
  "steady (k_store sample_control) \<and>
   steady (k_store (fst (solve (sample_world OProved) ''goal_'' 10 5 sample_control)))"
  using solve_keeps_store_steady [OF sample_steady] sample_steady by blast


lemma solve_returns_leases_witness:
  "only ''w1'' {} (k_store (fst (solve (sample_world OProved) ''goal_'' 10 5 sample_control)))"
proof -
  have "only (w_owner (sample_world OProved)) {} (k_store sample_control)"
    by (simp add: sample_world_def sample_control_def race_store_eq only_def unique_goals_def new_goal_def)
  from solve_returns_leases [OF this, of "''goal_''" 10 5] show ?thesis
    by (simp add: sample_world_def)
qed


lemma no_verdict_never_decomposes_witness:
  "st_edges (k_store (fst (attack_goal (sample_world OInfraFailed) 5 ''goal_''
     (new_goal ''goal_'' ''A'' ''theorem A'' 0) (no_counters {}) sample_control))) = []"
proof -
  let ?w = "sample_world OInfraFailed" and ?g = "new_goal ''goal_'' ''A'' ''theorem A'' 0"
  have "w_attack ?w (k_tick sample_control) ?g 5 = Inr (sample_result OInfraFailed)"
    and "ar_outcome (sample_result OInfraFailed) \<in> set no_verdict_outcomes"
    by (simp_all add: sample_world_def sample_result_def no_verdict_outcomes_def)
  from no_verdict_never_decomposes [OF this, of "''goal_''" "no_counters {}"] show ?thesis
    by (simp add: sample_control_def race_store_eq empty_store_def)
qed

end
