(* ===== verification/Assembly.thy ===== *)
theory Assembly
  imports SteadyStores TrustPolicy
begin

text \<open>
  \<open>proof/assembly.py\<close>: the file of a proved goal, put together from the proved attempts and the
  completed routes below it, compiled, and its axiom report read through the policy. The compiler
  and the hash are parameters. The recursion over the routes has a depth limit, as the
  interpreter's has; a goal graph without cycles never reaches a limit of the number of its goals.
\<close>

section \<open>Names and reports\<close>

fun strip_keyword :: "string list \<Rightarrow> string \<Rightarrow> string option" where
  "strip_keyword [] body = None"
| "strip_keyword (k # ks) body =
     (if startswith body (k @ '' '') then Some (lstrip (drop (length k + 1) body))
      else strip_keyword ks body)"

definition declaration_name :: "string \<Rightarrow> string" where
  "declaration_name signature =
     (case strip_keyword [''theorem'', ''lemma'', ''example'', ''def''] (strip signature) of
        None \<Rightarrow> []
      | Some body \<Rightarrow> if body \<noteq> [] then first_word body else [])"

text \<open>
  The two patterns of an axiom report. Both start with a quoted run of non-space characters; since
  what follows the closing quote starts with a space, the closing quote is the end of that run.
\<close>

definition quoted_name :: "string \<Rightarrow> (string \<times> string) option" where
  "quoted_name s =
     (if s = [] \<or> hd s \<noteq> char_of (39 :: nat) then None
      else let run = takeWhile (\<lambda>c. \<not> py_space c) (tl s); rest = dropWhile (\<lambda>c. \<not> py_space c) (tl s)
        in if length run < 2 \<or> last run \<noteq> char_of (39 :: nat) then None
           else Some (butlast run, rest))"

definition no_axioms_here :: "string \<Rightarrow> ((string \<times> string) \<times> string) option" where
  "no_axioms_here s = (case quoted_name s of None \<Rightarrow> None
     | Some (name, rest) \<Rightarrow>
         if startswith rest '' does not depend on any axioms''
         then Some ((name, []), drop (length '' does not depend on any axioms'') rest) else None)"

definition axioms_here :: "string \<Rightarrow> ((string \<times> string) \<times> string) option" where
  "axioms_here s = (case quoted_name s of None \<Rightarrow> None
     | Some (name, rest) \<Rightarrow>
         if startswith rest '' depends on axioms: [''
         then let body = drop (length '' depends on axioms: ['') rest in
           if CHR '']'' \<in> set body
           then Some ((name, takeWhile (\<lambda>c. c \<noteq> CHR '']'') body), tl (dropWhile (\<lambda>c. c \<noteq> CHR '']'') body))
           else None
         else None)"

text \<open>\<open>finditer\<close> of a pattern: its matches from left to right, with the length as fuel.\<close>

fun matches :: "(string \<Rightarrow> ('m \<times> string) option) \<Rightarrow> nat \<Rightarrow> string \<Rightarrow> 'm list" where
  "matches here 0 s = []"
| "matches here (Suc n) [] = []"
| "matches here (Suc n) (c # cs) =
     (case here (c # cs) of Some (m, rest) \<Rightarrow> m # matches here n rest | None \<Rightarrow> matches here n cs)"

definition axioms_of :: "string \<Rightarrow> string \<Rightarrow> string list option" where
  "axioms_of output name =
     (if \<exists>m \<in> set (matches no_axioms_here (length output) output). fst m = name then Some []
      else case find (\<lambda>m. fst m = name) (matches axioms_here (length output) output) of
        None \<Rightarrow> None
      | Some m \<Rightarrow> Some (remdups (filter (\<lambda>i. i \<noteq> []) (map strip (split_on (CHR '','') (snd m))))))"

section \<open>Choosing routes\<close>

definition direct_proof :: "graph_store \<Rightarrow> string \<Rightarrow> proof_error + string option" where
  "direct_proof s gid =
     (case find (\<lambda>a. a_outcome a = OProved) (attempts_of s gid) of
        None \<Rightarrow> Inr None
      | Some a \<Rightarrow> (case a_proof_text a of
            None \<Rightarrow> Inl (AssemblyError (''attempt '' @ a_id a @ '' is proved but carries no proof text''))
          | Some t \<Rightarrow> if t = [] then Inl (AssemblyError (''attempt '' @ a_id a @
                '' is proved but carries no proof text''))
              else Inr (Some t)))"

definition subgoal_names :: "graph_store \<Rightarrow> decomposition \<Rightarrow> proof_error + string list" where
  "subgoal_names s d =
     bindE (sketch_of s (d_id d)) (\<lambda>sk. case sk of
       Some sk \<Rightarrow> Inr (map sp_name (sk_subgoals sk))
     | None \<Rightarrow> mapE (\<lambda>sid. bindE (get_goal s sid) (\<lambda>g. Inr (declaration_name (g_statement g)))) (d_subgoal_ids d))"

definition completed_routes :: "graph_store \<Rightarrow> string \<Rightarrow> decomposition list" where
  "completed_routes s gid = filter (\<lambda>d. d_status d = DCompleted) (decompositions_of s gid)"

definition route_for ::
  "graph_store \<Rightarrow> string \<Rightarrow> (string \<rightharpoonup> string) \<Rightarrow> proof_error + decomposition option" where
  "route_for s gid pins =
     (case pins gid of
        Some pinned \<Rightarrow> (case find (\<lambda>d. d_id d = pinned) (completed_routes s gid) of
            Some d \<Rightarrow> Inr (Some d)
          | None \<Rightarrow> Inl (AssemblyError (pinned @ '' is not a completed decomposition of goal '' @ gid)))
      | None \<Rightarrow> (case completed_routes s gid of
            [] \<Rightarrow> Inr None
          | [d] \<Rightarrow> Inr (Some d)
          | ds \<Rightarrow> (case mapE (\<lambda>d. bindE (subgoal_names s d) (\<lambda>ns. Inr (d_id d, ns))) ds of
                Inl e \<Rightarrow> Inl e
              | Inr candidates \<Rightarrow> Inl (AmbiguousRoute gid candidates))))"

definition pin_route ::
  "graph_store \<Rightarrow> (string \<times> string) list \<Rightarrow> string \<Rightarrow> proof_error + (string \<times> string) list" where
  "pin_route s pins route_id =
     bindE (get_decomposition s route_id) (\<lambda>d.
       if d_status d \<noteq> DCompleted
       then Inl (AssemblyError (''route '' @ route_id @ '' is '' @ decomposition_status_value (d_status d) @
         '', not completed; only a route whose subgoals are all proved can be assembled''))
       else (case map_of pins (d_goal_id d) of
           Some already \<Rightarrow>
             if already \<noteq> route_id
             then Inl (AssemblyError (''two routes named for goal '' @ d_goal_id d @ '': '' @ already @
               '' and '' @ route_id))
             else Inr (AList.update (d_goal_id d) route_id pins)
         | None \<Rightarrow> Inr (AList.update (d_goal_id d) route_id pins)))"

fun pin_map :: "graph_store \<Rightarrow> string list \<Rightarrow> (string \<times> string) list \<Rightarrow> proof_error + (string \<times> string) list" where
  "pin_map s [] pins = Inr pins"
| "pin_map s (r # rs) pins = bindE (pin_route s pins r) (\<lambda>pins1. pin_map s rs pins1)"

section \<open>The file\<close>

text \<open>
  What the recursion builds for one sketch: the bodies of the lemmas that were proved directly, the
  texts of those that were decomposed and the names not to declare again; and what it shares with
  the whole tree: the header lines and the goals whose named route was applied.
\<close>

record assembling =
  as_bodies :: "string \<rightharpoonup> string"
  as_preludes :: "string list"
  as_omitted :: "string list"
  as_header :: "string list"
  as_used :: "string set"

fun assemble_parts ::
  "(string \<Rightarrow> string list \<Rightarrow> string set \<Rightarrow> proof_error + (string \<times> string \<times> string list \<times> string set))
     \<Rightarrow> graph_store \<Rightarrow> (string \<rightharpoonup> string) \<Rightarrow> (subgoal_spec \<times> string) list \<Rightarrow> assembling
     \<Rightarrow> proof_error + assembling" where
  "assemble_parts body s pins [] st = Inr st"
| "assemble_parts body s pins ((spec, sid) # rest) st =
     bindE (if pins sid = None then direct_proof s sid else Inr None) (\<lambda>direct. case direct of
       Some text \<Rightarrow> assemble_parts body s pins rest
         (st\<lparr>as_bodies := (as_bodies st)(sp_name spec \<mapsto> text)\<rparr>)
     | None \<Rightarrow>
         bindE (body sid (as_header st) (as_used st)) (\<lambda>(text, declared, header, used).
           if declared \<noteq> sp_name spec
           then Inl (AssemblyError (''subgoal '' @ sid @ '' assembles as `'' @ declared @
             ''` but its parent's sketch calls it `'' @ sp_name spec @
             ''`; the spliced text would not define what the parent cites''))
           else assemble_parts body s pins rest
             (st\<lparr>as_preludes := as_preludes st @ [text], as_omitted := as_omitted st @ [sp_name spec],
               as_header := header, as_used := used\<rparr>)))"

definition add_header :: "string list \<Rightarrow> string list \<Rightarrow> string list" where
  "add_header header new = foldl (\<lambda>h line. if line \<in> set h then h else h @ [line]) header new"

fun assemble_body ::
  "nat \<Rightarrow> graph_store \<Rightarrow> (string \<rightharpoonup> string) \<Rightarrow> string \<Rightarrow> string list \<Rightarrow> string set
     \<Rightarrow> proof_error + (string \<times> string \<times> string list \<times> string set)" where
  "assemble_body 0 s pins gid header used = Inl RecursionLimit"
| "assemble_body (Suc depth) s pins gid header used =
     bindE (get_goal s gid) (\<lambda>g.
     if g_status g \<noteq> GProved
     then Inl (AssemblyError (''goal '' @ gid @ '' is '' @ goal_status_value (g_status g) @ '', not proved''))
     else bindE (if pins gid = None then direct_proof s gid else Inr None) (\<lambda>direct. case direct of
       Some text \<Rightarrow> Inr (g_statement g @ '' := '' @ text @ nl, declaration_name (g_statement g), header, used)
     | None \<Rightarrow>
         bindE (route_for s gid pins) (\<lambda>route.
         let used1 = (if pins gid = None then used else insert gid used) in
         case route of
           None \<Rightarrow> Inl (AssemblyError (''goal '' @ gid @
             '' is proved but has neither a proved attempt nor a completed decomposition''))
         | Some d \<Rightarrow>
             bindE (sketch_of s (d_id d)) (\<lambda>found. case found of
               None \<Rightarrow> Inl (AssemblyError (''decomposition '' @ d_id d @ '' was accepted without a sketch; '' @
                 ''the graph knows which lemmas close the goal but not how''))
             | Some sk \<Rightarrow>
                 bindE (assemble_parts (assemble_body depth s pins) s pins (zip (sk_subgoals sk) (d_subgoal_ids d))
                   \<lparr>as_bodies = Map.empty, as_preludes = [], as_omitted = [],
                    as_header = add_header header (splitlines (sk_preamble sk)), as_used = used1\<rparr>) (\<lambda>st.
                 Inr (join (nl @ nl) (as_preludes st @ [r_text (render sk (as_bodies st) False (as_omitted st))]),
                   sk_parent_name sk, as_header st, as_used st))))))"

definition assemble ::
  "nat \<Rightarrow> graph_store \<Rightarrow> string \<Rightarrow> string list \<Rightarrow> string \<Rightarrow> proof_error + string" where
  "assemble depth s gid routes preamble =
     bindE (pin_map s routes []) (\<lambda>pins.
     bindE (assemble_body depth s (map_of pins) gid (splitlines (strip preamble)) {})
       (\<lambda>(text, _, header, used).
     let unused = sort (map snd (filter (\<lambda>p. fst p \<notin> used) pins)) in
     if unused \<noteq> []
     then Inl (AssemblyError (''these routes were named but never applied -- their goals are not '' @
       ''on the route being assembled: '' @ join '', '' unused))
     else Inr (if header \<noteq> [] then join nl header @ nl @ nl @ text else text)))"

section \<open>The verdict\<close>

record assembly_result =
  ay_ok :: bool
  ay_reason :: string
  ay_text :: string
  ay_axioms :: "string list"
  ay_trust :: string
  ay_forbidden :: "string list"

definition top_route ::
  "graph_store \<Rightarrow> string \<Rightarrow> (string \<rightharpoonup> string) \<Rightarrow> proof_error + decomposition option" where
  "top_route s gid pins =
     bindE (if pins gid = None then direct_proof s gid else Inr None) (\<lambda>direct.
       if direct \<noteq> None then Inr None else route_for s gid pins)"

fun first_sketch_name :: "graph_store \<Rightarrow> decomposition list \<Rightarrow> proof_error + string option" where
  "first_sketch_name s [] = Inr None"
| "first_sketch_name s (d # ds) = bindE (sketch_of s (d_id d)) (\<lambda>found. case found of
     Some sk \<Rightarrow> Inr (Some (sk_parent_name sk))
   | None \<Rightarrow> first_sketch_name s ds)"

definition root_name :: "graph_store \<Rightarrow> string \<Rightarrow> proof_error + string" where
  "root_name s gid = bindE (get_goal s gid) (\<lambda>g.
     let name = declaration_name (g_statement g) in
     if name \<noteq> [] then Inr name
     else bindE (first_sketch_name s (decompositions_of s gid)) (\<lambda>found. case found of
       Some n \<Rightarrow> Inr n
     | None \<Rightarrow> Inl (AssemblyError (''goal '' @ gid @ '' has no readable declaration name''))))"

definition failed_result :: "string \<Rightarrow> string \<Rightarrow> assembly_result" where
  "failed_result reason text = \<lparr>ay_ok = False, ay_reason = reason, ay_text = text, ay_axioms = [],
     ay_trust = [], ay_forbidden = []\<rparr>"

text \<open>Lean's answer on the compiled text, read through the policy.\<close>

definition read_report ::
  "axiom_policy \<Rightarrow> string \<Rightarrow> string \<Rightarrow> int \<Rightarrow> string \<Rightarrow> proof_error + assembly_result" where
  "read_report policy name text returncode output =
     (if returncode \<noteq> 0
      then Inr (failed_result (take 4000 (''the assembled proof does not compile -- the per-node greens '' @
        ''did not survive being put together:'' @ nl @
        (if error_lines output \<noteq> [] then error_lines output else output))) text)
      else case axioms_of output name of
        None \<Rightarrow> Inr (failed_result (''no `#print axioms '' @ name @ ''` output'') text)
      | Some axioms \<Rightarrow>
          let trust = classify Map.empty axioms in
          bindE (blocking policy Map.empty axioms) (\<lambda>forbidden.
          if forbidden \<noteq> []
          then Inr \<lparr>ay_ok = False,
            ay_reason = ''the assembled proof depends on axioms outside the policy (minimum_trust='' @
              minimum_trust policy @ ''): '' @ join '', '' (sorted_set forbidden) @
              (if unverified_native Map.empty axioms \<noteq> []
               then ''; native_decide axioms need the verifier's content recheck and a local compile '' @
                 ''cannot certify them: '' @ join '', '' (sorted_set (unverified_native Map.empty axioms))
               else []),
            ay_text = text, ay_axioms = axioms, ay_trust = trust, ay_forbidden = forbidden\<rparr>
          else Inr \<lparr>ay_ok = True, ay_reason = [], ay_text = text, ay_axioms = axioms, ay_trust = trust,
            ay_forbidden = []\<rparr>))"

text \<open>\<open>compile\<close> answers \<open>None\<close> when the compiler could not be run.\<close>

definition verify ::
  "nat \<Rightarrow> (string \<Rightarrow> (int \<times> string) option) \<Rightarrow> graph_store \<Rightarrow> string \<Rightarrow> string list
     \<Rightarrow> axiom_policy \<Rightarrow> string \<Rightarrow> proof_error + assembly_result" where
  "verify depth compile s gid routes policy preamble =
     bindE (get_goal s gid) (\<lambda>_.
     bindE (assemble depth s gid routes preamble) (\<lambda>body.
     bindE (root_name s gid) (\<lambda>name.
     let text = rstrip body @ nl @ nl @ ''#print axioms '' @ name @ nl in
     case compile text of
       None \<Rightarrow> Inl (AssemblyError ''could not run the final check'')
     | Some (returncode, output) \<Rightarrow> read_report policy name text returncode output)))"

definition certify ::
  "(nat \<Rightarrow> string) \<Rightarrow> real \<Rightarrow> (string \<Rightarrow> string) \<Rightarrow> nat \<Rightarrow> (string \<Rightarrow> (int \<times> string) option) \<Rightarrow> string
     \<Rightarrow> string list \<Rightarrow> axiom_policy \<Rightarrow> string \<Rightarrow> graph_store
     \<Rightarrow> graph_store \<times> (proof_error + assembly_result \<times> certification)" where
  "certify u now sha depth compile gid routes policy preamble s =
     (case bindE (verify depth compile s gid routes policy preamble) (\<lambda>res.
         bindE (pin_map s routes []) (\<lambda>pins.
         bindE (top_route s gid (map_of pins)) (\<lambda>route. Inr (res, route)))) of
        Inl e \<Rightarrow> (s, Inl e)
      | Inr (res, route) \<Rightarrow>
          (case record_certification u now gid (ay_ok res) (ay_axioms res) (ay_reason res)
               (sha (ay_text res)) (Some (case route of None \<Rightarrow> [] | Some d \<Rightarrow> d_id d))
               (Some (ay_trust res)) s of
             (s1, Inl e) \<Rightarrow> (s1, Inl e)
           | (s1, Inr c) \<Rightarrow> (s1, Inr (res, c))))"

end
