(* ===== verification/AssemblyProofs.thy ===== *)
theory AssemblyProofs
  imports Assembly GraphSteps
begin

text \<open>
  What the assembled file and its certificate mean: a positive verdict rests on the compiled text
  and on axioms the policy accepts, named routes are applied or refused, the recursion ends on every
  acyclic graph, and only a verdict is recorded.
\<close>

section \<open>The verdict\<close>

lemma read_report_ok_iff:
  assumes "minimum_trust policy = trust_name l"
  shows "read_report policy name content rc output = Inr res \<and> ay_ok res \<longleftrightarrow>
    rc = 0 \<and> (\<exists>axs. axioms_of output name = Some axs \<and> (\<forall>a \<in> set axs. l \<le> axiom_trust Map.empty a) \<and>
      res = \<lparr>ay_ok = True, ay_reason = [], ay_text = content, ay_axioms = axs,
        ay_trust = classify Map.empty axs, ay_forbidden = []\<rparr>)"
proof (cases "axioms_of output name")
  case None
  then show ?thesis by (auto simp: read_report_def failed_result_def)
next
  case (Some axs)
  have "(filter (\<lambda>a. axiom_trust Map.empty a < l) axs = []) \<longleftrightarrow> (\<forall>a \<in> set axs. l \<le> axiom_trust Map.empty a)"
    by (auto simp: filter_empty_conv not_less)
  with Some show ?thesis
    by (cases "rc = 0"; cases "filter (\<lambda>a. axiom_trust Map.empty a < l) axs = []")
      (auto simp: read_report_def failed_result_def Let_def blocking_eq [OF assms])
qed

text \<open>
  C15: A positive verdict of \<open>verify\<close> means that the compiler returned 0 on exactly the text in the
  result, that its report names the axioms of the root's declaration, and that every one of them is
  at or above the trust floor of the policy; so \<open>sorryAx\<close> is never among them.
\<close>

theorem verified_rests_on_accepted_axioms:
  assumes "mk_axiom_policy t = Inr policy"
    and "verify depth compile s gid routes policy preamble = Inr res" and "ay_ok res"
  shows "\<exists>name output axs. root_name s gid = Inr name \<and> compile (ay_text res) = Some (0, output) \<and>
    axioms_of output name = Some axs \<and> ay_axioms res = axs \<and>
    accepts policy (classify Map.empty axs) = Inr True \<and> ''sorryAx'' \<notin> set axs"
proof -
  obtain l where l: "minimum_trust policy = trust_name l" "l \<noteq> Tainted"
    using assms(1) by (auto simp: mk_axiom_policy_Inr_iff elim: valid_trust_cases)
  obtain name whole rc out where run: "root_name s gid = Inr name" "compile whole = Some (rc, out)"
      "read_report policy name whole rc out = Inr res"
    using assms(2) by (auto simp: verify_def bindE_Inr_iff Let_def split: option.splits)
  with assms(3) read_report_ok_iff [OF l(1), of name whole rc out res]
  obtain axs where axs: "rc = 0" "axioms_of out name = Some axs"
      "\<forall>a \<in> set axs. l \<le> axiom_trust Map.empty a" "ay_text res = whole" "ay_axioms res = axs"
    by auto
  have "accepts policy (classify Map.empty axs) = Inr True"
    using axs(3) by (simp add: accepts_classify [OF l(1)] le_proof_trust_iff)
  moreover have "axiom_trust Map.empty ''sorryAx'' = Tainted" by (simp add: axiom_trust_def)
  then have "''sorryAx'' \<notin> set axs" using axs(3) l(2) by (cases l) (force simp: less_eq_trust_level_def)+
  ultimately show ?thesis using run axs by auto
qed

section \<open>Choosing a route\<close>

lemma route_for_facts:
  "(\<forall>d. route_for s gid pins = Inr (Some d) \<longrightarrow> d \<in> set (decompositions_of s gid) \<and> d_status d = DCompleted \<and>
      (pins gid = Some (d_id d) \<or> pins gid = None \<and> completed_routes s gid = [d])) \<and>
   (pins gid = None \<and> length (completed_routes s gid) > 1 \<longrightarrow> (\<exists>e. route_for s gid pins = Inl e)) \<and>
   (route_for s gid pins = Inr None \<longleftrightarrow> pins gid = None \<and> completed_routes s gid = [])"
proof -
  have completed: "d \<in> set (completed_routes s gid) \<Longrightarrow>
      d \<in> set (decompositions_of s gid) \<and> d_status d = DCompleted" for d
    by (simp add: completed_routes_def)
  show ?thesis
  proof (cases "pins gid")
    case None
    show ?thesis
    proof (cases "completed_routes s gid" rule: remdups_adj.cases)
      case 1
      with None show ?thesis by (simp add: route_for_def)
    next
      case (2 d)
      with None completed [of d] show ?thesis by (auto simp: route_for_def)
    next
      case (3 d e ds)
      with None show ?thesis by (auto simp: route_for_def split: sum.split)
    qed
  next
    case (Some r)
    show ?thesis
    proof (cases "find (\<lambda>d. d_id d = r) (completed_routes s gid)")
      case None
      with Some show ?thesis by (simp add: route_for_def)
    next
      case found: (Some d)
      then have "d \<in> set (completed_routes s gid)" "d_id d = r" by (auto simp: find_Some_iff)
      with Some found completed [of d] show ?thesis by (simp add: route_for_def)
    qed
  qed
qed

text \<open>
  \<open>route_for\<close> never chooses for the caller. A route it answers is a completed decomposition of
  the goal that was named, or the only completed one; when none was named and there are several it
  is an error; and it answers that there is no route exactly when none was named and none completed.
\<close>

theorem route_for_never_guesses:
  "(\<forall>d. route_for s gid pins = Inr (Some d) \<longrightarrow> d \<in> set (decompositions_of s gid) \<and> d_status d = DCompleted \<and>
      (pins gid = Some (d_id d) \<or> pins gid = None \<and> completed_routes s gid = [d])) \<and>
   (pins gid = None \<and> length (completed_routes s gid) > 1 \<longrightarrow> (\<exists>e. route_for s gid pins = Inl e)) \<and>
   (route_for s gid pins = Inr None \<longleftrightarrow> pins gid = None \<and> completed_routes s gid = [])"
  by (rule route_for_facts)

section \<open>Recording\<close>

text \<open>
  Only a verdict is recorded. When \<open>certify\<close> has no verdict, because the file could not be
  assembled or compiled, no table changes; when it has one, exactly one certification is appended,
  and it carries the verdict, the reason, the hash of the compiled text and the trust level.
\<close>

theorem certify_records_the_verdict:
  assumes "certify u now sha depth compile gid routes policy preamble s = (s1, r)"
  shows "case r of
      Inl e \<Rightarrow> st_certs s1 = st_certs s \<and> s1\<lparr>st_draws := st_draws s\<rparr> = s
    | Inr (res, c) \<Rightarrow> verify depth compile s gid routes policy preamble = Inr res \<and>
        st_certs s1 = st_certs s @ [c] \<and> c_goal_id c = gid \<and> c_ok c = ay_ok res \<and>
        c_reason c = ay_reason res \<and> c_text_sha256 c = sha (ay_text res) \<and> c_trust c = Some (ay_trust res)"
proof (cases "bindE (verify depth compile s gid routes policy preamble) (\<lambda>res.
         bindE (pin_map s routes []) (\<lambda>pins.
         bindE (top_route s gid (map_of pins)) (\<lambda>route. Inr (res, route))))")
  case (Inl e)
  with assms show ?thesis by (auto simp: certify_def)
next
  case (Inr p)
  obtain res route where p: "p = (res, route)" by fastforce
  from Inr p have ver: "verify depth compile s gid routes policy preamble = Inr res"
    by (auto simp: bindE_Inr_iff)
  obtain s2 q where rec: "record_certification u now gid (ay_ok res) (ay_axioms res) (ay_reason res)
      (sha (ay_text res)) (Some (case route of None \<Rightarrow> [] | Some d \<Rightarrow> d_id d)) (Some (ay_trust res)) s = (s2, q)"
    by fastforce
  have "case q of Inl e \<Rightarrow> s2 = s\<lparr>st_draws := Suc (st_draws s)\<rparr>
    | Inr c \<Rightarrow> st_certs s2 = st_certs s @ [c] \<and> c_goal_id c = gid \<and> c_ok c = ay_ok res \<and>
        c_reason c = ay_reason res \<and> c_text_sha256 c = sha (ay_text res) \<and> c_trust c = Some (ay_trust res)"
    using rec unfolding record_certification_def Let_def new_id_eq prod.case
    by (auto split: if_splits simp del: append.simps)
  moreover have "(case q of Inl e \<Rightarrow> (s2, Inl e) | Inr c \<Rightarrow> (s2, Inr (res, c))) = (s1, r)"
    using assms unfolding certify_def Inr p sum.case prod.case rec .
  ultimately show ?thesis using ver by (cases q) auto
qed

section \<open>The recursion ends\<close>

text \<open>No call of the recursion other than itself answers the error of the depth limit.\<close>

definition unlimited :: "proof_error + 'a \<Rightarrow> bool" where
  "unlimited r \<longleftrightarrow> r \<noteq> Inl RecursionLimit"

lemma unlimited_simps [simp]:
  "unlimited (Inr a)" "unlimited (Inl e) \<longleftrightarrow> e \<noteq> RecursionLimit"
  by (simp_all add: unlimited_def)

lemma unlimited_bindE: "unlimited r \<Longrightarrow> (\<And>a. r = Inr a \<Longrightarrow> unlimited (f a)) \<Longrightarrow> unlimited (bindE r f)"
  by (cases r) auto

lemma unlimited_mapE: "(\<And>x. unlimited (f x)) \<Longrightarrow> unlimited (mapE f xs)"
  by (induction xs) (auto intro!: unlimited_bindE)

lemma unlimited_json: "unlimited (json_get j k)" "unlimited (json_text j)" "unlimited (json_items j)"
  by (cases j; simp split: option.split)+

lemma unlimited_sketch: "unlimited (sketch_of s did)"
  unfolding sketch_of_def sketch_from_json_def spec_from_json_def json_get_text_def
  by (auto split: option.split sum.split intro!: unlimited_bindE unlimited_mapE unlimited_json)

lemma unlimited_reads: "unlimited (direct_proof s gid)" "unlimited (get_goal s gid)"
  by (simp_all add: direct_proof_def get_goal_def split: option.split)

lemma unlimited_route: "unlimited (route_for s gid pins)"
proof -
  have names: "unlimited (mapE (\<lambda>d. bindE (subgoal_names s d) (\<lambda>ns. Inr (d_id d, ns))) ds)" for ds
    unfolding subgoal_names_def
    by (auto split: option.split intro!: unlimited_mapE unlimited_bindE unlimited_sketch unlimited_reads)
  then show ?thesis
    unfolding route_for_def unlimited_def
    by (auto split: option.split list.split sum.split simp del: mapE.simps)
qed

lemma unlimited_parts:
  assumes "\<And>sid h u. sid \<in> snd ` set parts \<Longrightarrow> unlimited (body sid h u)"
  shows "unlimited (assemble_parts body s pins parts st)"
  using assms
proof (induction parts arbitrary: st)
  case (Cons p parts)
  obtain spec sid where p: "p = (spec, sid)" by fastforce
  have body: "unlimited (body sid h u)" for h u using Cons.prems p by simp
  have rest: "unlimited (assemble_parts body s pins parts st')" for st'
    using Cons.IH Cons.prems by simp
  show ?case
    unfolding p by (auto split: option.split if_splits intro!: unlimited_bindE unlimited_reads body rest)
qed simp

definition below :: "graph_store \<Rightarrow> string \<Rightarrow> string set" where
  "below s gid = (child_rel s)\<^sup>+ `` {gid}"

lemma below_less:
  assumes "well_formed s" and "acyclic (child_rel s)" and "(gid, sid) \<in> child_rel s"
  shows "card (below s sid) < card (below s gid)"
proof (rule psubset_card_mono)
  show "finite (below s gid)"
    unfolding below_def using finite_child_rel [OF assms(1)] by (simp add: finite_trancl)
  have "below s sid \<subseteq> below s gid"
    unfolding below_def using assms(3) by (auto intro: trancl_into_trancl2)
  moreover have "sid \<in> below s gid" "sid \<notin> below s sid"
    unfolding below_def using assms(2,3) by (auto simp: acyclic_def)
  ultimately show "below s sid \<subset> below s gid" by blast
qed

lemma route_subgoals:
  assumes "route_for s gid pins = Inr (Some d)" and "sid \<in> set (d_subgoal_ids d)"
  shows "(gid, sid) \<in> child_rel s"
proof -
  have "d \<in> set (decompositions_of s gid)"
    using route_for_facts [of s gid pins] assms(1) by blast
  with assms(2) show ?thesis
    by (auto simp: set_decompositions_of set_row_dec_subgoals child_rel_def)
qed

lemma unlimited_body:
  assumes "well_formed s" and "acyclic (child_rel s)" and "card (below s gid) < depth"
  shows "unlimited (assemble_body depth s pins gid header used)"
  using assms(3)
proof (induction depth arbitrary: gid header used)
  case (Suc depth)
  have parts: "unlimited (assemble_parts (assemble_body depth s pins) s pins (zip specs (d_subgoal_ids d)) st)"
    if d: "route_for s gid pins = Inr (Some d)" for d specs st
  proof (rule unlimited_parts)
    fix sid h u
    assume "sid \<in> snd ` set (zip specs (d_subgoal_ids d))"
    then have "sid \<in> set (d_subgoal_ids d)" by (auto dest: set_zip_rightD)
    then have "card (below s sid) < card (below s gid)"
      using below_less [OF assms(1,2)] route_subgoals [OF d] by blast
    with Suc show "unlimited (assemble_body depth s pins sid h u)" by simp
  qed
  show ?case
    by (auto simp: Let_def split: option.split if_splits
        intro!: unlimited_bindE unlimited_reads unlimited_route unlimited_sketch parts)
qed simp

lemma below_bound: "well_formed s \<Longrightarrow> card (below s gid) \<le> length (st_goals s)"
proof -
  assume wf: "well_formed s"
  have "below s gid \<subseteq> goal_ids s"
    unfolding below_def using child_rel_nodes [OF wf] by (blast elim: tranclE)
  then have "card (below s gid) \<le> card (goal_ids s)" by (rule card_mono [OF finite_goal_ids])
  also have "\<dots> \<le> length (st_goals s)" unfolding goal_ids_def by (rule order_trans [OF card_image_le card_length]) simp
  finally show ?thesis .
qed

text \<open>
  C16: Assembly ends. On every well-formed, acyclic graph the recursion over the routes never goes
  deeper than the number of goals, so with a larger depth limit \<open>assemble\<close> does not hit it.
\<close>

theorem assembly_ends:
  assumes "well_formed s" and "acyclic (child_rel s)" and "length (st_goals s) < depth"
  shows "assemble depth s gid routes preamble \<noteq> Inl RecursionLimit"
proof -
  have body: "unlimited (assemble_body depth s pins gid header used)" for pins header used
    using below_bound [OF assms(1), of gid] assms(3) by (intro unlimited_body assms) simp
  have pins: "unlimited (pin_map s rs ps)" for rs ps
    by (induction rs arbitrary: ps)
      (auto simp: pin_route_def get_decomposition_def split: option.split intro!: unlimited_bindE)
  have "unlimited (assemble depth s gid routes preamble)"
    unfolding assemble_def by (auto simp: Let_def intro!: unlimited_bindE pins body)
  then show ?thesis by (simp add: unlimited_def)
qed

section \<open>Named routes are applied\<close>

abbreviation on_tree :: "graph_store \<Rightarrow> string \<Rightarrow> string set" where
  "on_tree s gid \<equiv> (child_rel s)\<^sup>* `` {gid}"

lemma parts_used:
  assumes "assemble_parts body s pins parts st = Inr st'"
    and "\<And>sid h u text name h' u'. sid \<in> snd ` set parts \<Longrightarrow> body sid h u = Inr (text, name, h', u') \<Longrightarrow>
      u' \<subseteq> u \<union> T"
  shows "as_used st' \<subseteq> as_used st \<union> T"
  using assms
proof (induction parts arbitrary: st)
  case (Cons p parts)
  obtain spec sid where p: "p = (spec, sid)" by fastforce
  have rest: "as_used st' \<subseteq> as_used st1 \<union> T" if "assemble_parts body s pins parts st1 = Inr st'" for st1
    by (rule Cons.IH [OF that], rule Cons.prems(2)) (auto intro: rev_image_eqI)
  have body: "u' \<subseteq> u \<union> T" if "body sid h u = Inr (c, name, h', u')" for h u c name h' u'
    using Cons.prems(2) [of sid h u c name h' u'] that p by simp
  obtain direct where direct: "(if pins sid = None then direct_proof s sid else Inr None) = Inr direct"
    using Cons.prems(1) p by (auto simp: bindE_Inr_iff simp del: if_split)
  show ?case
  proof (cases direct)
    case (Some c)
    with Cons.prems(1) direct have "assemble_parts body s pins parts
        (st\<lparr>as_bodies := (as_bodies st)(sp_name spec \<mapsto> c)\<rparr>) = Inr st'"
      by (simp add: p)
    from rest [OF this] show ?thesis by simp
  next
    case None
    with Cons.prems(1) direct obtain c h' u' where b: "body sid (as_header st) (as_used st) = Inr (c, sp_name spec, h', u')"
      and r: "assemble_parts body s pins parts (st\<lparr>as_preludes := as_preludes st @ [c],
        as_omitted := as_omitted st @ [sp_name spec], as_header := h', as_used := u'\<rparr>) = Inr st'"
      by (auto simp: p bindE_Inr_iff split: if_splits)
    from body [OF b] rest [OF r] show ?thesis by auto
  qed
qed simp

lemma body_used:
  assumes "assemble_body depth s pins gid header used = Inr (c, name, header', used')"
  shows "used' \<subseteq> used \<union> on_tree s gid"
  using assms
proof (induction depth arbitrary: gid header used c name header' used')
  case (Suc depth)
  obtain g direct where g: "get_goal s gid = Inr g" "g_status g = GProved"
    and direct: "(if pins gid = None then direct_proof s gid else Inr None) = Inr direct"
    using Suc.prems by (auto simp: bindE_Inr_iff split: if_splits)
  show ?case
  proof (cases direct)
    case (Some x)
    with Suc.prems g direct show ?thesis by simp
  next
    case None
    obtain d and sk :: sketch and st where d: "route_for s gid pins = Inr (Some d)"
      and parts: "assemble_parts (assemble_body depth s pins) s pins (zip (sk_subgoals sk) (d_subgoal_ids d))
                   \<lparr>as_bodies = Map.empty, as_preludes = [], as_omitted = [],
                    as_header = add_header header (splitlines (sk_preamble sk)),
                    as_used = (if pins gid = None then used else insert gid used)\<rparr> = Inr st"
      and used': "used' = as_used st"
      using Suc.prems g direct None
      by (simp add: bindE_Inr_iff Let_def split: option.splits) blast
    have sub: "u' \<subseteq> u \<union> on_tree s gid"
      if "sid \<in> snd ` set (zip (sk_subgoals sk) (d_subgoal_ids d))"
        "assemble_body depth s pins sid h u = Inr (c, n, h', u')" for sid h u c n h' u'
    proof -
      have "(gid, sid) \<in> child_rel s"
        using that(1) route_subgoals [OF d] by (auto dest: set_zip_rightD)
      then have "on_tree s sid \<subseteq> on_tree s gid" by (auto intro: converse_rtrancl_into_rtrancl)
      with Suc.IH [OF that(2)] show ?thesis by blast
    qed
    have "as_used st \<subseteq> (if pins gid = None then used else insert gid used) \<union> on_tree s gid"
      by (rule parts_used [OF parts, unfolded assembling.simps]) (rule sub)
    then show ?thesis by (auto simp: used' split: if_splits)
  qed
qed simp

lemma pin_map_Inr:
  assumes "pin_map s routes pins = Inr pins'"
  shows "(\<forall>g r. map_of pins g = Some r \<longrightarrow> map_of pins' g = Some r) \<and>
    (\<forall>r \<in> set routes. \<exists>d. get_decomposition s r = Inr d \<and> d_status d = DCompleted \<and>
      map_of pins' (d_goal_id d) = Some r)"
  using assms
proof (induction routes arbitrary: pins)
  case (Cons r routes)
  obtain pins1 where p1: "pin_route s pins r = Inr pins1" and rest: "pin_map s routes pins1 = Inr pins'"
    using Cons.prems by (auto simp: bindE_Inr_iff)
  obtain d where d: "get_decomposition s r = Inr d" "d_status d = DCompleted"
      "map_of pins (d_goal_id d) = None \<or> map_of pins (d_goal_id d) = Some r"
      "pins1 = AList.update (d_goal_id d) r pins"
    using p1 by (auto simp: pin_route_def bindE_Inr_iff split: if_splits option.splits)
  have upd: "map_of pins1 = (map_of pins)(d_goal_id d \<mapsto> r)"
    unfolding d(4) by (rule update_conv')
  note IH = Cons.IH [OF rest]
  show ?case
  proof (intro conjI allI impI ballI)
    fix g q
    assume "map_of pins g = Some q"
    with d(3) upd have "map_of pins1 g = Some q" by auto
    with IH show "map_of pins' g = Some q" by blast
  next
    fix q
    assume q: "q \<in> set (r # routes)"
    show "\<exists>d. get_decomposition s q = Inr d \<and> d_status d = DCompleted \<and> map_of pins' (d_goal_id d) = Some q"
    proof (cases "q = r")
      case True
      with d upd IH show ?thesis by (intro exI [of _ d]) simp
    next
      case False
      with q IH show ?thesis by auto
    qed
  qed
qed simp

text \<open>
  A named route is applied or refused. When \<open>assemble\<close> answers a file, every route that the
  caller named is a completed decomposition of a goal on the tree below the assembled goal.
\<close>

theorem named_routes_are_applied:
  assumes "assemble depth s gid routes preamble = Inr file_text" and "r \<in> set routes"
  shows "\<exists>d. get_decomposition s r = Inr d \<and> d_status d = DCompleted \<and> (gid, d_goal_id d) \<in> (child_rel s)\<^sup>*"
proof -
  obtain pins c name header used where pins: "pin_map s routes [] = Inr pins"
    and body: "assemble_body depth s (map_of pins) gid (splitlines (strip preamble)) {} = Inr (c, name, header, used)"
    and "sort (map snd (filter (\<lambda>p. fst p \<notin> used) pins)) = []"
    using assms(1) by (auto simp: assemble_def bindE_Inr_iff Let_def split: if_splits)
  then have unused: "filter (\<lambda>p. fst p \<notin> used) pins = []"
    by (metis length_map length_sort length_0_conv)
  from pin_map_Inr [OF pins] assms(2) obtain d where d: "get_decomposition s r = Inr d"
      "d_status d = DCompleted" "map_of pins (d_goal_id d) = Some r" by blast
  then have "(d_goal_id d, r) \<in> set pins" by (auto dest: map_of_SomeD)
  with unused have "d_goal_id d \<in> used" by (auto simp: filter_empty_conv)
  with body_used [OF body] d show ?thesis by auto
qed

end
