(* ===== verification/AssemblySamples.thy ===== *)
theory AssemblySamples
  imports AssemblyProofs ControllerSamples
begin

text \<open>
  A diamond: a root with two lemmas that are each proved through the same third one. The graph is as
  every goal graph should be, and the file assembled from it declares the shared lemma twice. The
  theorems on assembly at concrete inputs are here too.
\<close>

definition diamond_sketch :: "string \<Rightarrow> string list \<Rightarrow> sketch" where
  "diamond_sketch p cs = \<lparr>sk_parent_name = p, sk_parent_signature = ''theorem '' @ p @ '' : P_'' @ p,
     sk_parent_body = ''by simp'', sk_subgoals = map (\<lambda>c. \<lparr>sp_name = c, sp_identity = c,
       sp_signature = ''theorem '' @ c @ '' : P_'' @ c\<rparr>) cs, sk_preamble = []\<rparr>"

definition diamond_goal :: "string \<Rightarrow> goal" where
  "diamond_goal n = (new_goal n n (''theorem '' @ n @ '' : P_'' @ n) 0)\<lparr>g_status := GProved\<rparr>"

definition diamond_row :: "string \<Rightarrow> string \<Rightarrow> string list \<Rightarrow> dec_row" where
  "diamond_row d p cs = \<lparr>r_id = d, r_goal_id = p, r_status = DCompleted, r_reason = [],
     r_sketch = Some (sketch_to_json (diamond_sketch p cs)), r_created_at = 0\<rparr>"

definition diamond_attempt :: attempt where
  "diamond_attempt = \<lparr>a_id = ''t'', a_goal_id = ''c'', a_outcome = OProved, a_proof_text = Some ''rfl'',
     a_run_dir = None, a_evidence_ref = None, a_cost = 1, a_note = [], a_created_at = 0\<rparr>"

definition diamond_store :: graph_store where
  "diamond_store = empty_store\<lparr>
     st_goals := [diamond_goal ''r'', diamond_goal ''a'', diamond_goal ''b'', diamond_goal ''c''],
     st_decs := [diamond_row ''d1'' ''r'' [''a'', ''b''], diamond_row ''d2'' ''a'' [''c''],
       diamond_row ''d3'' ''b'' [''c'']],
     st_edges := [(''d1'', 0, ''a''), (''d1'', 1, ''b''), (''d2'', 0, ''c''), (''d3'', 0, ''c'')],
     st_attempts := [diamond_attempt]\<rparr>"

definition shared_declaration :: string where
  "shared_declaration = ''theorem c : P_c := rfl''"

lemma diamond_child_rel:
  "child_rel diamond_store = {(''r'', ''a''), (''r'', ''b''), (''a'', ''c''), (''b'', ''c'')}"
  by (auto simp: child_rel_iff diamond_store_def diamond_row_def)

lemma diamond_good: "good_store diamond_store"
proof -
  have ids: "goal_ids diamond_store = {''r'', ''a'', ''b'', ''c''}"
    by (simp add: goal_ids_def diamond_store_def diamond_goal_def new_goal_def)
  have "well_formed diamond_store"
    unfolding well_formed_def ids
    by (simp add: diamond_store_def diamond_goal_def new_goal_def diamond_row_def diamond_attempt_def empty_store_def)
  moreover have "acyclic (child_rel diamond_store)"
    unfolding diamond_child_rel
    by (rule acyclicI_order [where f = "\<lambda>x. if x = ''r'' then 2 else if x = ''c'' then 0 else 1 :: nat"]) auto
  moreover have "status_of diamond_store g = GProved" if "g \<in> goal_ids diamond_store" for g
    using that unfolding ids
    by (auto simp: status_of_def diamond_store_def diamond_goal_def new_goal_def)
  note proved = this
  moreover have "sound_store diamond_store"
    unfolding sound_store_def
  proof (intro conjI ballI impI)
    fix g
    assume "g \<in> goal_ids diamond_store"
    then consider "g = ''c''" | "g \<in> {''r'', ''a'', ''b''}" unfolding ids by blast
    then show "OProved \<in> set (outcomes_of diamond_store g) \<or>
        (\<exists>r \<in> set (st_decs diamond_store). r_goal_id r = g \<and> r_status r = DCompleted)"
    proof cases
      case 1
      then show ?thesis
        by (simp add: outcomes_of_def attempts_of_def diamond_store_def diamond_attempt_def)
    next
      case 2
      then show ?thesis by (auto simp: diamond_store_def diamond_row_def)
    qed
  next
    fix r c
    assume "r \<in> set (st_decs diamond_store)" and "c \<in> set (d_subgoal_ids (row_dec diamond_store r))"
    then have "c \<in> {''a'', ''b'', ''c''}" by (auto simp: set_row_dec_subgoals diamond_store_def)
    then show "status_of diamond_store c = GProved" by (intro proved) (auto simp: ids)
  qed
  ultimately show ?thesis by (simp add: good_store_def)
qed

text \<open>
  C17: A lemma that two routes share is declared twice. The graph of the diamond is well-formed,
  acyclic and sound and its root is proved, but the file that \<open>assemble\<close> answers for the root
  contains the declaration of the shared lemma two times, which is a duplicate declaration.
\<close>

theorem shared_lemma_is_declared_twice:
  "good_store diamond_store \<and> status_of diamond_store ''r'' = GProved \<and>
   (\<exists>pre mid post. assemble 5 diamond_store ''r'' [] []
      = Inr (pre @ shared_declaration @ mid @ shared_declaration @ post))"
proof -
  have "assemble 5 diamond_store ''r'' [] [] = Inr ([] @ shared_declaration @
      (nl @ nl @ ''theorem a : P_a := by simp'' @ nl @ nl @ nl) @ shared_declaration @
      (nl @ nl @ ''theorem b : P_b := by simp'' @ nl @ nl @ nl @ ''theorem r : P_r := by simp'' @ nl))"
    by code_simp
  moreover have "status_of diamond_store ''r'' = GProved"
    by (simp add: status_of_def diamond_store_def diamond_goal_def new_goal_def)
  ultimately show ?thesis using diamond_good by blast
qed

section \<open>Assembly at concrete inputs\<close>

lemma diamond_wf: "well_formed diamond_store" "acyclic (child_rel diamond_store)"
  using diamond_good by (simp_all add: good_store_def)

lemma assembly_ends_witness:
  "assemble 5 diamond_store ''r'' [''d2''] ''import Mathlib'' \<noteq> Inl RecursionLimit"
  using diamond_wf by (rule assembly_ends) (simp add: diamond_store_def)

lemma diamond_assembled: "\<exists>x. assemble 5 diamond_store ''r'' [''d2''] [] = Inr x"
proof -
  have "case assemble 5 diamond_store ''r'' [''d2''] [] of Inl _ \<Rightarrow> False | Inr _ \<Rightarrow> True" by code_simp
  then show ?thesis by (cases "assemble 5 diamond_store ''r'' [''d2''] []") auto
qed

lemma named_routes_are_applied_witness:
  "\<exists>d. get_decomposition diamond_store ''d2'' = Inr d \<and> (''r'', d_goal_id d) \<in> (child_rel diamond_store)\<^sup>*"
  using diamond_assembled named_routes_are_applied [of 5 diamond_store "''r''" "[''d2'']" "[]" _ "''d2''"]
  by auto

text \<open>A compiler that accepts and reports one standard axiom.\<close>

definition sample_compile :: "string \<Rightarrow> (int \<times> string) option" where
  "sample_compile content = Some (0, [char_of (39 :: nat)] @ ''c'' @ [char_of (39 :: nat)] @
     '' depends on axioms: [propext]'')"

lemma sample_verified: "\<exists>res. verify 5 sample_compile diamond_store ''c'' [] default_policy [] = Inr res \<and> ay_ok res"
proof -
  have "case verify 5 sample_compile diamond_store ''c'' [] default_policy [] of Inl _ \<Rightarrow> False | Inr res \<Rightarrow> ay_ok res"
    by code_simp
  then show ?thesis by (cases "verify 5 sample_compile diamond_store ''c'' [] default_policy []") auto
qed

lemma verified_rests_on_accepted_axioms_witness:
  "\<exists>res axs. verify 5 sample_compile diamond_store ''c'' [] default_policy [] = Inr res \<and>
     ay_axioms res = axs \<and> accepts default_policy (classify Map.empty axs) = Inr True"
proof -
  have policy: "mk_axiom_policy ''audited'' = Inr default_policy"
    by (simp add: mk_axiom_policy_def valid_minimum_trust_def default_policy_def)
  from sample_verified obtain res where
    "verify 5 sample_compile diamond_store ''c'' [] default_policy [] = Inr res" "ay_ok res" by blast
  with verified_rests_on_accepted_axioms [OF policy this] show ?thesis by auto
qed

lemma certify_records_the_verdict_witness:
  "\<exists>s1 r. certify race_ids 7 (\<lambda>t. t) 5 sample_compile ''c'' [] default_policy [] diamond_store = (s1, r) \<and>
     (case r of Inl e \<Rightarrow> st_certs s1 = [] | Inr (res, c) \<Rightarrow> st_certs s1 = [c] \<and> c_ok c = ay_ok res)"
proof -
  obtain s1 r where run: "certify race_ids 7 (\<lambda>t. t) 5 sample_compile ''c'' [] default_policy [] diamond_store = (s1, r)"
    by fastforce
  moreover have "st_certs diamond_store = []" by (simp add: diamond_store_def empty_store_def)
  ultimately show ?thesis
    using certify_records_the_verdict [OF run] by (auto split: sum.splits prod.splits)
qed

lemma route_for_never_guesses_witness:
  "\<exists>d. route_for diamond_store ''r'' Map.empty = Inr (Some d) \<and>
     completed_routes diamond_store ''r'' = [d] \<and> d_status d = DCompleted"
proof -
  have "case route_for diamond_store ''r'' Map.empty of Inr (Some d) \<Rightarrow> True | _ \<Rightarrow> False" by code_simp
  then obtain d where d: "route_for diamond_store ''r'' Map.empty = Inr (Some d)"
    by (auto split: sum.splits option.splits)
  with route_for_never_guesses [of diamond_store "''r''" Map.empty] show ?thesis by auto
qed

end
