(* ===== verification/Reports.thy ===== *)
theory Reports
  imports Prelude
begin

text \<open>
  The evaluation report (\<open>EvalReport\<close> of \<open>src/evoharness/core/population.py\<close>): the record, the
  JSON object it is written as, and the parser that reads a report an evaluation service sent.
  The parser is the trust boundary of the evolution loop, so every check of it is a branch here,
  in the order of the code. A parsed JSON object is the list of its members, with distinct keys.

  The lemmas show that what the parser accepts is well formed, and that it reads back what was
  written.
\<close>

section \<open>The record and its JSON form\<close>

record eval_report =
  er_fitness :: real
  er_passed :: bool
  er_fault :: "string option"
  er_visible_metrics :: "(string \<times> json) list"
  er_hidden_metrics :: "(string \<times> json) list"
  er_notes :: string
  er_structured_feedback :: "(string \<times> json) list option"
  er_artifacts_ref :: "string option"
  er_stdout_log :: string
  er_stderr_log :: string
  er_stage_reached :: int
  er_execution_time :: py_float
  er_eval_cost_usd :: py_float
  er_n_units :: int
  er_trustworthy_units :: "int option"
  er_sem :: py_float
  er_fault_kind :: "string option"

text \<open>The dataclass with only its two required fields given.\<close>

definition plain_report :: "real \<Rightarrow> bool \<Rightarrow> eval_report" where
  "plain_report fitness passed =
     \<lparr>er_fitness = fitness, er_passed = passed, er_fault = None, er_visible_metrics = [],
      er_hidden_metrics = [], er_notes = [], er_structured_feedback = None, er_artifacts_ref = None,
      er_stdout_log = [], er_stderr_log = [], er_stage_reached = 3, er_execution_time = Fin 0,
      er_eval_cost_usd = Fin 0, er_n_units = 0, er_trustworthy_units = None, er_sem = Fin 0,
      er_fault_kind = None\<rparr>"

fun or_null :: "('a \<Rightarrow> json) \<Rightarrow> 'a option \<Rightarrow> json" where
  "or_null f None = JNull"
| "or_null f (Some x) = f x"

definition report_to_json :: "eval_report \<Rightarrow> json" where
  "report_to_json r = JObj
    [(''schema_version'', JInt 1),
     (''fitness'', JFloat (Fin (er_fitness r))),
     (''passed'', JBool (er_passed r)),
     (''fault'', or_null JStr (er_fault r)),
     (''visible_metrics'', JObj (er_visible_metrics r)),
     (''hidden_metrics'', JObj (er_hidden_metrics r)),
     (''notes'', JStr (er_notes r)),
     (''structured_feedback'', or_null JObj (er_structured_feedback r)),
     (''artifacts_ref'', or_null JStr (er_artifacts_ref r)),
     (''stdout_log'', JStr (er_stdout_log r)),
     (''stderr_log'', JStr (er_stderr_log r)),
     (''stage_reached'', JInt (er_stage_reached r)),
     (''execution_time'', JFloat (er_execution_time r)),
     (''eval_cost_usd'', JFloat (er_eval_cost_usd r)),
     (''n_units'', JInt (er_n_units r)),
     (''trustworthy_units'', or_null JInt (er_trustworthy_units r)),
     (''sem'', JFloat (er_sem r)),
     (''fault_kind'', or_null JStr (er_fault_kind r))]"

section \<open>The readers of single values\<close>

datatype wire_error =
  NotAnObject
| UnsupportedSchema json
| MissingKeys "string list"
| PassedNotBool
| NotNumeric string
| NotAnInteger string
| NotAMapping string
| NotAString string bool
| Negative string
| FloatOverflow
| BadFaultKind
| PassedWithFaultKind

text \<open>
  \<open>float(n)\<close> of an integer: rounding \<open>n\<close> to 53 bits reaches \<open>2 ^ 1024\<close> from
  \<open>2 ^ 1024 - 2 ^ 970\<close> on, where Python raises \<open>OverflowError\<close>.
\<close>

definition float_limit :: int where
  "float_limit = 2 ^ 1024 - 2 ^ 970"

definition float_of_int :: "int \<Rightarrow> wire_error + py_float" where
  "float_of_int n = (if \<bar>n\<bar> < float_limit then Inr (Fin (real_of_int n)) else Inl FloatOverflow)"

fun as_number :: "json \<Rightarrow> string \<Rightarrow> wire_error + py_float" where
  "as_number (JInt n) name = float_of_int n"
| "as_number (JFloat x) name = Inr x"
| "as_number _ name = Inl (NotNumeric name)"

definition wire_number :: "json \<Rightarrow> string \<Rightarrow> bool \<Rightarrow> wire_error + py_float" where
  "wire_number v name non_negative =
     bindE (as_number v name) (\<lambda>number.
       if non_negative \<and> float_negative number then Inl (Negative name) else Inr number)"

fun wire_int :: "json \<Rightarrow> string \<Rightarrow> bool \<Rightarrow> wire_error + int" where
  "wire_int (JInt n) name non_negative =
     (if non_negative \<and> n < 0 then Inl (Negative name) else Inr n)"
| "wire_int _ name _ = Inl (NotAnInteger name)"

fun wire_mapping :: "json \<Rightarrow> string \<Rightarrow> wire_error + (string \<times> json) list" where
  "wire_mapping (JObj ms) name = Inr ms"
| "wire_mapping _ name = Inl (NotAMapping name)"

fun wire_string :: "json \<Rightarrow> string \<Rightarrow> wire_error + string" where
  "wire_string (JStr s) name = Inr s"
| "wire_string _ name = Inl (NotAString name False)"

fun wire_string_optional :: "json \<Rightarrow> string \<Rightarrow> wire_error + string option" where
  "wire_string_optional JNull name = Inr None"
| "wire_string_optional (JStr s) name = Inr (Some s)"
| "wire_string_optional _ name = Inl (NotAString name True)"

section \<open>The parser\<close>

text \<open>\<open>d.get(key, default)\<close>, and the Python comparison of a value with 1.\<close>

definition get_or :: "(string \<times> json) list \<Rightarrow> string \<Rightarrow> json \<Rightarrow> json" where
  "get_or d k v = (case map_of d k of None \<Rightarrow> v | Some w \<Rightarrow> w)"

fun equals_one :: "json \<Rightarrow> bool" where
  "equals_one (JInt n) = (n = 1)"
| "equals_one (JBool b) = b"
| "equals_one (JFloat (Fin x)) = (x = 1)"
| "equals_one _ = False"

definition required_report_keys :: "string list" where
  "required_report_keys = [''fitness'', ''passed'']"

fun as_passed :: "json \<Rightarrow> wire_error + bool" where
  "as_passed (JBool b) = Inr b"
| "as_passed _ = Inl PassedNotBool"

fun as_fault_kind :: "json \<Rightarrow> wire_error + string option" where
  "as_fault_kind JNull = Inr None"
| "as_fault_kind (JStr s) = (if strip s = [] then Inl BadFaultKind else Inr (Some s))"
| "as_fault_kind _ = Inl BadFaultKind"

fun optional :: "(json \<Rightarrow> wire_error + 'a) \<Rightarrow> json \<Rightarrow> wire_error + 'a option" where
  "optional f JNull = Inr None"
| "optional f v = bindE (f v) (\<lambda>x. Inr (Some x))"

fun non_finite_text :: "py_float \<Rightarrow> string" where
  "non_finite_text PosInf = ''inf''"
| "non_finite_text NegInf = ''-inf''"
| "non_finite_text NaN = ''nan''"
| "non_finite_text (Fin x) = []"

text \<open>The fields after the fitness, each checked in the order the constructor call evaluates them.\<close>

definition read_fields ::
  "(string \<times> json) list \<Rightarrow> real \<Rightarrow> bool \<Rightarrow> string option \<Rightarrow> wire_error + eval_report" where
  "read_fields d fitness passed fault_kind =
     bindE (wire_mapping (get_or d ''visible_metrics'' (JObj [])) ''visible_metrics'') (\<lambda>visible.
     bindE (wire_mapping (get_or d ''hidden_metrics'' (JObj [])) ''hidden_metrics'') (\<lambda>hidden.
     bindE (optional (\<lambda>v. wire_mapping v ''structured_feedback'')
              (get_or d ''structured_feedback'' JNull)) (\<lambda>feedback.
     bindE (optional (\<lambda>v. wire_int v ''trustworthy_units'' True)
              (get_or d ''trustworthy_units'' JNull)) (\<lambda>trustworthy.
     bindE (wire_string_optional (get_or d ''fault'' JNull) ''fault'') (\<lambda>fault.
     bindE (wire_string (get_or d ''notes'' (JStr [])) ''notes'') (\<lambda>notes.
     bindE (wire_string_optional (get_or d ''artifacts_ref'' JNull) ''artifacts_ref'') (\<lambda>artifacts.
     bindE (wire_string (get_or d ''stdout_log'' (JStr [])) ''stdout_log'') (\<lambda>stdout.
     bindE (wire_string (get_or d ''stderr_log'' (JStr [])) ''stderr_log'') (\<lambda>stderr.
     bindE (wire_int (get_or d ''stage_reached'' (JInt 3)) ''stage_reached'' True) (\<lambda>stage.
     bindE (wire_number (get_or d ''execution_time'' (JFloat (Fin 0))) ''execution_time'' True) (\<lambda>time.
     bindE (wire_number (get_or d ''eval_cost_usd'' (JFloat (Fin 0))) ''eval_cost_usd'' True) (\<lambda>cost.
     bindE (wire_int (get_or d ''n_units'' (JInt 0)) ''n_units'' True) (\<lambda>units.
     bindE (wire_number (get_or d ''sem'' (JFloat (Fin 0))) ''sem'' True) (\<lambda>sem.
       Inr \<lparr>er_fitness = fitness, er_passed = passed, er_fault = fault, er_visible_metrics = visible,
            er_hidden_metrics = hidden, er_notes = notes, er_structured_feedback = feedback,
            er_artifacts_ref = artifacts, er_stdout_log = stdout, er_stderr_log = stderr,
            er_stage_reached = stage, er_execution_time = time, er_eval_cost_usd = cost,
            er_n_units = units, er_trustworthy_units = trustworthy, er_sem = sem,
            er_fault_kind = fault_kind\<rparr>))))))))))))))"

definition read_members :: "(string \<times> json) list \<Rightarrow> wire_error + eval_report" where
  "read_members d =
     (let schema = get_or d ''schema_version'' (JInt 1);
          missing = filter (\<lambda>k. map_of d k = None) required_report_keys in
      if \<not> equals_one schema then Inl (UnsupportedSchema schema)
      else if missing \<noteq> [] then Inl (MissingKeys missing)
      else bindE (as_passed (get_or d ''passed'' JNull)) (\<lambda>passed.
           bindE (wire_number (get_or d ''fitness'' JNull) ''fitness'' False) (\<lambda>fitness.
           bindE (as_fault_kind (get_or d ''fault_kind'' JNull)) (\<lambda>fault_kind.
             if passed \<and> fault_kind \<noteq> None then Inl PassedWithFaultKind
             else case fitness of
                    Fin x \<Rightarrow> read_fields d x passed fault_kind
                  | _ \<Rightarrow> Inr ((plain_report 0 False)
                      \<lparr>er_fault := Some (''non-finite fitness: '' @ non_finite_text fitness)\<rparr>)))))"

fun report_from_json :: "json \<Rightarrow> wire_error + eval_report" where
  "report_from_json (JObj d) = read_members d"
| "report_from_json _ = Inl NotAnObject"

section \<open>What the parser accepts\<close>

definition wf_report :: "eval_report \<Rightarrow> bool" where
  "wf_report r \<longleftrightarrow>
     0 \<le> er_stage_reached r \<and> 0 \<le> er_n_units r
   \<and> (\<forall>n \<in> set_option (er_trustworthy_units r). 0 \<le> n)
   \<and> \<not> float_negative (er_execution_time r) \<and> \<not> float_negative (er_eval_cost_usd r)
   \<and> \<not> float_negative (er_sem r)
   \<and> (\<forall>k \<in> set_option (er_fault_kind r). strip k \<noteq> [] \<and> \<not> er_passed r)"

lemma wire_number_ok: "wire_number v name True = Inr x \<Longrightarrow> \<not> float_negative x"
  by (auto simp: wire_number_def bindE_Inr_iff split: if_splits)

lemma wire_int_ok: "wire_int v name True = Inr n \<Longrightarrow> 0 \<le> n"
  by (cases v) (auto split: if_splits)

lemma optional_ok: "optional f v = Inr (Some x) \<Longrightarrow> f v = Inr x"
  by (cases v) (auto simp: bindE_Inr_iff)

lemma optional_count_ok:
  "optional (\<lambda>v. wire_int v name True) v = Inr t \<Longrightarrow> \<forall>n \<in> set_option t. 0 \<le> n"
  by (cases t) (auto dest: optional_ok wire_int_ok)

lemma as_fault_kind_ok: "as_fault_kind v = Inr (Some k) \<Longrightarrow> strip k \<noteq> []"
  by (cases v) (auto split: if_splits)

lemma read_fields_wf:
  assumes "read_fields d x passed kind = Inr r"
    and "\<forall>k \<in> set_option kind. strip k \<noteq> [] \<and> \<not> passed"
  shows "wf_report r \<and> er_fitness r = x \<and> er_passed r = passed \<and> er_fault_kind r = kind"
  using assms
  by (auto simp: read_fields_def bindE_Inr_iff wf_report_def
      dest: wire_number_ok wire_int_ok optional_count_ok)

lemma wf_plain_report: "wf_report ((plain_report x p)\<lparr>er_fault := f\<rparr>)"
  by (simp add: plain_report_def wf_report_def)

text \<open>
  C19: What comes over the wire and is accepted is a well-formed report: counts, times, costs and the
  standard error are not negative, a fault kind is a non-blank text, and a report that passed never
  carries a fault kind. A fitness that is not finite never enters the population as a number: it
  becomes a failed report with fitness 0.
\<close>

theorem accepted_reports_are_well_formed:
  assumes "report_from_json j = Inr r"
  shows "wf_report r \<and> (\<forall>d x. j = JObj d \<longrightarrow> map_of d ''fitness'' = Some (JFloat x) \<longrightarrow>
           (\<forall>y. x \<noteq> Fin y) \<longrightarrow> \<not> er_passed r \<and> er_fitness r = 0 \<and> er_fault r \<noteq> None)"
proof -
  obtain d where j: "j = JObj d" and d: "read_members d = Inr r"
    using assms by (cases j) auto
  obtain p x k where parts: "wire_number (get_or d ''fitness'' JNull) ''fitness'' False = Inr x"
      "as_fault_kind (get_or d ''fault_kind'' JNull) = Inr k" "\<not> (p \<and> k \<noteq> None)"
    and result: "(case x of Fin y \<Rightarrow> read_fields d y p k
       | _ \<Rightarrow> Inr ((plain_report 0 False)\<lparr>er_fault := Some (''non-finite fitness: '' @ non_finite_text x)\<rparr>)) = Inr r"
    using d by (auto simp: read_members_def Let_def bindE_Inr_iff split: if_splits)
  have kind: "\<forall>s \<in> set_option k. strip s \<noteq> [] \<and> \<not> p"
    using parts(2,3) by (cases k) (auto dest: as_fault_kind_ok)
  have "wf_report r"
    using result by (cases x) (auto dest: read_fields_wf[OF _ kind] simp: wf_plain_report)
  moreover have "\<not> er_passed r \<and> er_fitness r = 0 \<and> er_fault r \<noteq> None"
    if "map_of d ''fitness'' = Some (JFloat z)" "\<forall>y. z \<noteq> Fin y" for z
  proof -
    have "x = z" using parts(1) that by (simp add: get_or_def wire_number_def)
    with that result show ?thesis by (cases x) (auto simp: plain_report_def)
  qed
  ultimately show ?thesis using j by blast
qed

theorem accepted_reports_are_well_formed_witness:
  "\<exists>r. report_from_json (JObj [(''fitness'', JFloat NaN), (''passed'', JBool True)]) = Inr r
     \<and> wf_report r \<and> \<not> er_passed r \<and> er_fitness r = 0"
proof -
  let ?d = "[(''fitness'', JFloat NaN), (''passed'', JBool True)]"
  obtain r where "report_from_json (JObj ?d) = Inr r"
    by (simp add: read_members_def required_report_keys_def get_or_def wire_number_def)
  with accepted_reports_are_well_formed[OF this] show ?thesis by simp
qed

text \<open>Reading back what was written, member by member.\<close>

lemma optional_null [simp]: "optional f (or_null g None) = Inr None"
  by simp

lemma optional_mapping [simp]:
  "optional (\<lambda>v. wire_mapping v n) (or_null JObj m) = Inr m"
  by (cases m) auto

lemma optional_count [simp]:
  "\<forall>k \<in> set_option m. 0 \<le> k \<Longrightarrow> optional (\<lambda>v. wire_int v n True) (or_null JInt m) = Inr m"
  by (cases m) auto

lemma wire_string_null [simp]: "wire_string_optional (or_null JStr m) n = Inr m"
  by (cases m) auto

lemma as_fault_kind_null [simp]:
  "\<forall>k \<in> set_option m. strip k \<noteq> [] \<Longrightarrow> as_fault_kind (or_null JStr m) = Inr m"
  by (cases m) auto

lemma wire_number_float [simp]:
  "\<not> (b \<and> float_negative x) \<Longrightarrow> wire_number (JFloat x) n b = Inr x"
  by (simp add: wire_number_def)

lemma get_or_Cons [simp]:
  "get_or ((k, v) # d) k' w = (if k' = k then v else get_or d k' w)"
  by (simp add: get_or_def)

lemma read_written_report:
  assumes "wf_report r"
  shows "report_from_json (report_to_json r) = Inr r"
proof -
  have kind: "\<forall>k \<in> set_option (er_fault_kind r). strip k \<noteq> []"
    "er_passed r \<longrightarrow> er_fault_kind r = None"
    using assms by (cases "er_fault_kind r"; auto simp: wf_report_def)+
  show ?thesis
    using assms kind
    by (simp add: report_to_json_def read_members_def required_report_keys_def read_fields_def wf_report_def)
qed

text \<open>
  A well-formed report written to the database and read back is the same report.
\<close>

theorem report_json_roundtrip:
  assumes "wf_report r"
  shows "report_from_json (report_to_json r) = Inr r"
  using assms by (rule read_written_report)

theorem report_json_roundtrip_witness:
  "report_from_json (report_to_json ((plain_report (7 / 10) False)\<lparr>er_fault_kind := Some ''timeout'',
       er_trustworthy_units := Some 12, er_sem := Fin (1 / 10)\<rparr>))
   = Inr ((plain_report (7 / 10) False)\<lparr>er_fault_kind := Some ''timeout'',
       er_trustworthy_units := Some 12, er_sem := Fin (1 / 10)\<rparr>)"
  by (rule report_json_roundtrip)
     (simp add: wf_report_def plain_report_def strip_def lstrip_def rstrip_def py_space_def)

end
