(* ===== verification/Population.thy ===== *)
theory Population
  imports Reports "HOL-Library.Product_Lexorder" "HOL-Library.Option_ord"
begin

text \<open>
  The population of the evolution loop (\<open>src/evoharness/core/population.py\<close> and the part of
  \<open>core/config.py\<close> it reads): candidates, the SQLite table that holds them, its queries and every
  write: insertion with island assignment, seeding, the charge of a parent, the repair mark, the
  flags, the archive and the migration.

  The table is the list of its rows in insertion order (the order SQLite scans a rowid table in); a
  row is represented by the candidate it reads back as, which \<open>row_roundtrip\<close> justifies. JSON
  columns are JSON values: writing text and parsing it back is the standard library's. Random draws
  and the clock are arguments. The lock, the reconnects and the schema upgrade of
  \<open>_LockedConnection\<close> are input and output and are left out.
\<close>

section \<open>Candidates\<close>

record candidate =
  ca_id :: string
  ca_code :: string
  ca_generation :: int
  ca_parent :: "string option"
  ca_island :: int
  ca_operator :: string
  ca_kind :: string
  ca_title :: string
  ca_summary :: string
  ca_model :: string
  ca_inspirations :: "string list"
  ca_report :: "eval_report option"
  ca_embedding :: "real list option"
  ca_signature :: "string option"
  ca_duplicate :: bool
  ca_children :: int
  ca_archived :: bool
  ca_metadata :: "(string \<times> json) list"
  ca_timestamp :: real

definition fitness :: "candidate \<Rightarrow> real" where
  "fitness c = (case ca_report c of None \<Rightarrow> 0 | Some r \<Rightarrow> er_fitness r)"

definition quarantined :: "candidate \<Rightarrow> bool" where
  "quarantined c \<longleftrightarrow> map_of (ca_metadata c) ''quarantined'' = Some (JBool True)"

definition passed :: "candidate \<Rightarrow> bool" where
  "passed c \<longleftrightarrow> (case ca_report c of None \<Rightarrow> False | Some r \<Rightarrow> er_passed r) \<and> \<not> quarantined c"

definition archive_eligible :: "candidate \<Rightarrow> bool" where
  "archive_eligible c = passed c"

text \<open>\<open>fitness - z * sem\<close> in floating point, infinities and \<open>nan\<close> included.\<close>

fun minus_scaled :: "real \<Rightarrow> real \<Rightarrow> py_float \<Rightarrow> py_float" where
  "minus_scaled f z (Fin s) = Fin (f - z * s)"
| "minus_scaled f z NaN = NaN"
| "minus_scaled f z PosInf = (if z = 0 then NaN else if 0 < z then NegInf else PosInf)"
| "minus_scaled f z NegInf = (if z = 0 then NaN else if 0 < z then PosInf else NegInf)"

definition fitness_lcb :: "candidate \<Rightarrow> real \<Rightarrow> py_float" where
  "fitness_lcb c z = (case ca_report c of None \<Rightarrow> Fin 0 | Some r \<Rightarrow> minus_scaled (er_fitness r) z (er_sem r))"

record island_view =
  iv_island :: int
  iv_candidates :: "candidate list"

definition passed_candidates :: "island_view \<Rightarrow> candidate list" where
  "passed_candidates v = filter passed (iv_candidates v)"

definition archive_candidates :: "island_view \<Rightarrow> candidate list" where
  "archive_candidates v = filter (\<lambda>c. ca_archived c \<and> passed c) (iv_candidates v)"

text \<open>A candidate given only what its constructor requires, and a passing report.\<close>

definition sample_candidate :: "string \<Rightarrow> int \<Rightarrow> int \<Rightarrow> real \<Rightarrow> candidate" where
  "sample_candidate i gen island fit =
     \<lparr>ca_id = i, ca_code = ''pass'', ca_generation = gen, ca_parent = None, ca_island = island,
      ca_operator = ''revise'', ca_kind = ''file'', ca_title = [], ca_summary = [], ca_model = [],
      ca_inspirations = [], ca_report = Some (plain_report fit True), ca_embedding = None,
      ca_signature = None, ca_duplicate = False, ca_children = 0, ca_archived = False,
      ca_metadata = [], ca_timestamp = 1\<rparr>"

section \<open>Configuration, store, errors\<close>

record population_config =
  num_islands :: int
  archive_size :: int
  elite_selection_ratio :: real
  num_archive_inspirations :: int
  num_top_k_inspirations :: int
  migration_interval :: int
  migration_rate :: real
  island_elitism :: bool
  enforce_island_separation :: bool
  parent_strategy :: string
  weighted_lambda :: real
  power_alpha :: real
  beam_width :: int
  archive_update_strategy :: string
  archive_feature_metric :: string
  archive_feature_bucket :: real
  archive_feature_quality :: string
  archive_feature_reserve :: int

definition default_population_config :: population_config where
  "default_population_config =
     \<lparr>num_islands = 2, archive_size = 40, elite_selection_ratio = 3 / 10,
      num_archive_inspirations = 1, num_top_k_inspirations = 1, migration_interval = 10,
      migration_rate = 0, island_elitism = True, enforce_island_separation = True,
      parent_strategy = ''weighted'', weighted_lambda = 10, power_alpha = 1, beam_width = 5,
      archive_update_strategy = ''fitness'', archive_feature_metric = [],
      archive_feature_bucket = 0, archive_feature_quality = [], archive_feature_reserve = 0\<rparr>"

record population =
  po_cfg :: population_config
  po_readonly :: bool
  po_rows :: "candidate list"

datatype population_error =
  ReadOnlyStore
| DuplicateId string
| EmptyRange
| ModuloByZero
| NotAListValue
| NumberTooLarge
| UnorderedMetric
| BadReport wire_error
| BadColumn string

definition assert_writable :: "population \<Rightarrow> population_error + unit" where
  "assert_writable p = (if po_readonly p then Inl ReadOnlyStore else Inr ())"

section \<open>Rows\<close>

record candidate_row =
  cr_id :: string
  cr_code :: string
  cr_generation :: int
  cr_parent :: "string option"
  cr_island :: int
  cr_operator :: string
  cr_title :: "string option"
  cr_summary :: "string option"
  cr_model :: "string option"
  cr_inspirations :: "json option"
  cr_report :: "json option"
  cr_embedding :: "json option"
  cr_signature :: "string option"
  cr_duplicate :: int
  cr_children :: int
  cr_archived :: int
  cr_metadata :: "json option"
  cr_timestamp :: real
  cr_kind :: "string option"

definition to_row :: "real \<Rightarrow> candidate \<Rightarrow> candidate_row" where
  "to_row now c =
     \<lparr>cr_id = ca_id c, cr_code = ca_code c, cr_generation = ca_generation c, cr_parent = ca_parent c,
      cr_island = ca_island c, cr_operator = ca_operator c, cr_title = Some (ca_title c),
      cr_summary = Some (ca_summary c), cr_model = Some (ca_model c),
      cr_inspirations = Some (JList (map JStr (ca_inspirations c))),
      cr_report = map_option report_to_json (ca_report c),
      cr_embedding = map_option (\<lambda>xs. JList (map (\<lambda>x. JFloat (Fin x)) xs)) (ca_embedding c),
      cr_signature = ca_signature c, cr_duplicate = of_bool (ca_duplicate c),
      cr_children = ca_children c, cr_archived = of_bool (ca_archived c),
      cr_metadata = Some (JObj (ca_metadata c)),
      cr_timestamp = (if ca_timestamp c = 0 then now else ca_timestamp c),
      cr_kind = Some (ca_kind c)\<rparr>"

fun column_text :: "json \<Rightarrow> population_error + string" where
  "column_text (JStr s) = Inr s"
| "column_text _ = Inl (BadColumn ''inspiration_ids'')"

fun column_texts :: "json option \<Rightarrow> population_error + string list" where
  "column_texts None = Inr []"
| "column_texts (Some (JList xs)) = mapE column_text xs"
| "column_texts (Some _) = Inl (BadColumn ''inspiration_ids'')"

fun column_number :: "json \<Rightarrow> population_error + real" where
  "column_number (JFloat (Fin x)) = Inr x"
| "column_number (JInt n) = Inr (real_of_int n)"
| "column_number _ = Inl (BadColumn ''embedding'')"

fun column_numbers :: "json option \<Rightarrow> population_error + real list option" where
  "column_numbers None = Inr None"
| "column_numbers (Some (JList xs)) = bindE (mapE column_number xs) (\<lambda>ys. Inr (Some ys))"
| "column_numbers (Some _) = Inl (BadColumn ''embedding'')"

fun column_report :: "json option \<Rightarrow> population_error + eval_report option" where
  "column_report None = Inr None"
| "column_report (Some j) =
     (case report_from_json j of Inl e \<Rightarrow> Inl (BadReport e) | Inr r \<Rightarrow> Inr (Some r))"

fun column_members :: "json option \<Rightarrow> population_error + (string \<times> json) list" where
  "column_members None = Inr []"
| "column_members (Some (JObj ms)) = Inr ms"
| "column_members (Some _) = Inl (BadColumn ''metadata'')"

definition from_row :: "candidate_row \<Rightarrow> population_error + candidate" where
  "from_row r =
     bindE (column_texts (cr_inspirations r)) (\<lambda>inspirations.
     bindE (column_report (cr_report r)) (\<lambda>report.
     bindE (column_numbers (cr_embedding r)) (\<lambda>embedding.
     bindE (column_members (cr_metadata r)) (\<lambda>metadata.
       Inr \<lparr>ca_id = cr_id r, ca_code = cr_code r, ca_generation = cr_generation r,
            ca_parent = cr_parent r, ca_island = cr_island r, ca_operator = cr_operator r,
            ca_kind = str_or (cr_kind r) ''file'', ca_title = str_or (cr_title r) [],
            ca_summary = str_or (cr_summary r) [], ca_model = str_or (cr_model r) [],
            ca_inspirations = inspirations, ca_report = report, ca_embedding = embedding,
            ca_signature = cr_signature r, ca_duplicate = (cr_duplicate r \<noteq> 0),
            ca_children = cr_children r, ca_archived = (cr_archived r \<noteq> 0),
            ca_metadata = metadata, ca_timestamp = cr_timestamp r\<rparr>))))"

text \<open>The candidate that the row written at a time reads back as.\<close>

definition stored :: "real \<Rightarrow> candidate \<Rightarrow> candidate" where
  "stored now c = c\<lparr>ca_timestamp := (if ca_timestamp c = 0 then now else ca_timestamp c),
                    ca_kind := str_or (Some (ca_kind c)) ''file''\<rparr>"

section \<open>Queries\<close>

text \<open>
  The SQL conditions. \<open>json_extract\<close> reads a JSON \<open>true\<close> as 1, so the flag of a quarantined
  candidate is compared with 1 (\<open>equals_one\<close>).
\<close>

definition not_quarantined_sql :: "candidate \<Rightarrow> bool" where
  "not_quarantined_sql c \<longleftrightarrow> \<not> equals_one (get_or (ca_metadata c) ''quarantined'' JNull)"

definition selectable_sql :: "candidate \<Rightarrow> bool" where
  "selectable_sql c \<longleftrightarrow>
     (case ca_report c of None \<Rightarrow> False | Some r \<Rightarrow> er_passed r) \<and> not_quarantined_sql c"

definition repairable_sql :: "candidate \<Rightarrow> bool" where
  "repairable_sql c \<longleftrightarrow>
     (case ca_report c of None \<Rightarrow> False | Some r \<Rightarrow> \<not> er_passed r) \<and> not_quarantined_sql c"

definition get_candidate :: "population \<Rightarrow> string \<Rightarrow> candidate option" where
  "get_candidate p i = row_of ca_id i (po_rows p)"

definition count_candidates :: "population \<Rightarrow> nat" where
  "count_candidates p = length (po_rows p)"

definition by_age :: "candidate list \<Rightarrow> candidate list" where
  "by_age cs = sort_key (\<lambda>c. (ca_generation c, ca_timestamp c)) cs"

definition all_candidates :: "population \<Rightarrow> candidate list" where
  "all_candidates p = by_age (po_rows p)"

definition island_view_of :: "population \<Rightarrow> int \<Rightarrow> island_view" where
  "island_view_of p idx =
     \<lparr>iv_island = idx,
      iv_candidates = by_age (filter (\<lambda>c. ca_island c = idx \<and> ca_report c \<noteq> None) (po_rows p))\<rparr>"

definition best_candidate :: "population \<Rightarrow> candidate option" where
  "best_candidate p = max_by fitness (filter selectable_sql (po_rows p))"

definition latest_failed :: "population \<Rightarrow> candidate option" where
  "latest_failed p =
     (case sort_desc ca_timestamp
             (filter (\<lambda>c. ca_report c \<noteq> None \<and> repairable_sql c
                        \<and> get_or (ca_metadata c) ''repair_attempted'' JNull = JNull) (po_rows p)) of
        [] \<Rightarrow> None
      | c # _ \<Rightarrow> Some c)"

definition all_signatures :: "population \<Rightarrow> int option \<Rightarrow> string list" where
  "all_signatures p idx =
     map (\<lambda>c. the (ca_signature c))
       (filter (\<lambda>c. ca_signature c \<noteq> None \<and> (\<forall>i \<in> set_option idx. ca_island c = i)) (po_rows p))"

section \<open>Writes\<close>

definition upd_candidate :: "string \<Rightarrow> (candidate \<Rightarrow> candidate) \<Rightarrow> population \<Rightarrow> population" where
  "upd_candidate i f p = p\<lparr>po_rows := upd_rows ca_id i f (po_rows p)\<rparr>"

definition note_attempt :: "string \<Rightarrow> population \<Rightarrow> population_error + population" where
  "note_attempt parent p =
     bindE (assert_writable p) (\<lambda>_.
       Inr (upd_candidate parent (\<lambda>c. c\<lparr>ca_children := ca_children c + 1\<rparr>) p))"

text \<open>\<open>draw n\<close> is \<open>np.random.randint(n)\<close>, which raises for an empty range.\<close>

definition lacking_island :: "population \<Rightarrow> int option" where
  "lacking_island p =
     List.find (\<lambda>idx. \<not> (\<exists>c \<in> set (po_rows p). ca_island c = idx \<and> selectable_sql c))
       [0 .. num_islands (po_cfg p) - 1]"

definition random_island :: "(int \<Rightarrow> int) \<Rightarrow> population \<Rightarrow> population_error + int" where
  "random_island draw p =
     (if num_islands (po_cfg p) \<le> 0 then Inl EmptyRange else Inr (draw (num_islands (po_cfg p))))"

definition parent_island :: "population \<Rightarrow> candidate \<Rightarrow> int option" where
  "parent_island p c =
     (case ca_parent c of
        None \<Rightarrow> None
      | Some i \<Rightarrow> if i = [] then None else map_option ca_island (get_candidate p i))"

definition assign_island :: "(int \<Rightarrow> int) \<Rightarrow> population \<Rightarrow> candidate \<Rightarrow> population_error + int" where
  "assign_island draw p c =
     (case parent_island p c of
        Some idx \<Rightarrow> Inr idx
      | None \<Rightarrow>
          (case (if passed c then lacking_island p else None) of
             Some idx \<Rightarrow> Inr idx
           | None \<Rightarrow> random_island draw p))"

definition insert_candidate ::
  "real \<Rightarrow> (int \<Rightarrow> int) \<Rightarrow> candidate \<Rightarrow> population \<Rightarrow> population_error + (population \<times> candidate)" where
  "insert_candidate now draw c p =
     bindE (assert_writable p) (\<lambda>_.
     bindE (if ca_island c < 0 then assign_island draw p c else Inr (ca_island c)) (\<lambda>idx.
       let c' = c\<lparr>ca_island := idx\<rparr> in
       if get_candidate p (ca_id c) \<noteq> None then Inl (DuplicateId (ca_id c))
       else Inr (p\<lparr>po_rows := po_rows p @ [stored now c']\<rparr>, c')))"

text \<open>A copy of the seed for one island; \<open>fresh\<close> is the new identifier.\<close>

definition seed_copy :: "candidate \<Rightarrow> int \<Rightarrow> string \<Rightarrow> candidate" where
  "seed_copy seed idx fresh =
     \<lparr>ca_id = (if idx = ca_island seed then ca_id seed else fresh), ca_code = ca_code seed,
      ca_generation = 0, ca_parent = None, ca_island = idx, ca_operator = ''seed'',
      ca_kind = ca_kind seed, ca_title = ca_title seed, ca_summary = ca_summary seed, ca_model = [],
      ca_inspirations = [], ca_report = ca_report seed, ca_embedding = ca_embedding seed,
      ca_signature = ca_signature seed, ca_duplicate = False, ca_children = 0, ca_archived = False,
      ca_metadata = (if idx = ca_island seed then ca_metadata seed
                     else AList.update ''seed_copy_of'' (JStr (ca_id seed)) (ca_metadata seed)),
      ca_timestamp = 0\<rparr>"

text \<open>
  \<open>seed_all_islands\<close> commits copy by copy, so an error keeps the copies made before it: the result
  is the store beside the outcome. \<open>now\<close>, \<open>draw\<close> and \<open>fresh\<close> are indexed by the island.
\<close>

fun seed_islands ::
  "(int \<Rightarrow> real) \<Rightarrow> (int \<Rightarrow> int) \<Rightarrow> (int \<Rightarrow> string) \<Rightarrow> candidate \<Rightarrow> int list \<Rightarrow> population \<Rightarrow>
   population \<times> (population_error + candidate list)" where
  "seed_islands now draw fresh seed [] p = (p, Inr [])"
| "seed_islands now draw fresh seed (idx # rest) p =
     (case insert_candidate (now idx) draw (seed_copy seed idx (fresh idx)) p of
        Inl e \<Rightarrow> (p, Inl e)
      | Inr (p', c) \<Rightarrow>
          (let (p'', r) = seed_islands now draw fresh seed rest p' in
           (p'', bindE r (\<lambda>cs. Inr (c # cs)))))"

definition seed_all_islands ::
  "(int \<Rightarrow> real) \<Rightarrow> (int \<Rightarrow> int) \<Rightarrow> (int \<Rightarrow> string) \<Rightarrow> candidate \<Rightarrow> int list option \<Rightarrow> population \<Rightarrow>
   population \<times> (population_error + candidate list)" where
  "seed_all_islands now draw fresh seed islands p =
     (case assert_writable p of
        Inl e \<Rightarrow> (p, Inl e)
      | Inr _ \<Rightarrow> seed_islands now draw fresh seed
                  (case islands of None \<Rightarrow> [0 .. num_islands (po_cfg p) - 1] | Some xs \<Rightarrow> xs) p)"

definition mark_repair_attempted :: "string \<Rightarrow> population \<Rightarrow> population_error + population" where
  "mark_repair_attempted i p =
     bindE (assert_writable p) (\<lambda>_.
       Inr (case get_candidate p i of
              None \<Rightarrow> p
            | Some c \<Rightarrow> upd_candidate i
                (\<lambda>r. r\<lparr>ca_metadata := AList.update ''repair_attempted'' (JBool True) (ca_metadata c)\<rparr>) p))"

definition update_candidate_flags :: "candidate \<Rightarrow> population \<Rightarrow> population_error + population" where
  "update_candidate_flags c p =
     bindE (assert_writable p) (\<lambda>_.
       Inr (upd_candidate (ca_id c)
         (\<lambda>r. r\<lparr>ca_signature := ca_signature c, ca_duplicate := ca_duplicate c,
                ca_embedding := ca_embedding c, ca_metadata := ca_metadata c\<rparr>) p))"

section \<open>Views\<close>

lemma set_by_age [simp]: "set (by_age cs) = set cs"
  by (simp add: by_age_def)

lemma distinct_by_age [simp]: "distinct (map ca_id (by_age cs)) = distinct (map ca_id cs)"
  by (simp add: by_age_def distinct_map)

lemma set_island_view [simp]:
  "set (iv_candidates (island_view_of p idx)) = {c \<in> set (po_rows p). ca_island c = idx \<and> ca_report c \<noteq> None}"
  by (auto simp: island_view_of_def)

lemma set_passed_candidates [simp]:
  "set (passed_candidates v) = {c \<in> set (iv_candidates v). passed c}"
  by (auto simp: passed_candidates_def)

lemma passed_has_report: "passed c \<Longrightarrow> ca_report c \<noteq> None"
  by (auto simp: passed_def split: option.splits)

section \<open>What writes leave alone\<close>

definition distinct_ids :: "population \<Rightarrow> bool" where
  "distinct_ids p \<longleftrightarrow> distinct (map ca_id (po_rows p))"

text \<open>
  The program of a candidate and where it came from: everything but the bookkeeping that writes
  after the insertion may touch.
\<close>

definition core :: "candidate \<Rightarrow> candidate" where
  "core c = c\<lparr>ca_island := 0, ca_children := 0, ca_archived := False, ca_metadata := [],
             ca_signature := None, ca_duplicate := False, ca_embedding := None\<rparr>"

lemma distinct_island_view:
  "distinct_ids p \<Longrightarrow> distinct (map ca_id (iv_candidates (island_view_of p idx)))"
  by (simp add: island_view_of_def distinct_ids_def distinct_map_filter)

lemma distinct_all_candidates: "distinct_ids p \<Longrightarrow> distinct (map ca_id (all_candidates p))"
  by (simp add: all_candidates_def distinct_ids_def)

end
