(* ===== verification/Archive.thy ===== *)
theory Archive
  imports Population
begin

text \<open>
  The elite archive (\<open>refresh_archive\<close> and its helpers in \<open>src/evoharness/core/population.py\<close>):
  which candidates keep a slot, by fitness, with ties going to the cheaper one on the feature axis,
  and with slots reserved for the best candidate of every feature bucket.

  A metric is a JSON number of the report. An integer too large for a float, and an infinite
  feature under \<open>math.floor\<close>, raise \<open>OverflowError\<close> in Python (\<open>NumberTooLarge\<close>); a \<open>nan\<close> has no
  place in a sorted list, and the model stops there with \<open>UnorderedMetric\<close>.

  The lemmas show that the archive is as full as it can be and holds only selectable candidates
  that are not duplicates, that it holds the top of the ranking, and that every bucket keeps its best.
\<close>

section \<open>Metrics and ranks\<close>

definition metric :: "candidate \<Rightarrow> string \<Rightarrow> population_error + py_float option" where
  "metric c key =
     (case ca_report c of
        None \<Rightarrow> Inr None
      | Some r \<Rightarrow>
          if key = [] then Inr None
          else (case map_of (er_visible_metrics r) key of
                  Some (JInt n) \<Rightarrow>
                    (case float_of_int n of Inl _ \<Rightarrow> Inl NumberTooLarge | Inr x \<Rightarrow> Inr (Some x))
                | Some (JFloat x) \<Rightarrow> Inr (Some x)
                | _ \<Rightarrow> Inr None))"

text \<open>A metric that can be ranked, read without its errors once they have been ruled out.\<close>

definition rankable_metric :: "candidate \<Rightarrow> string \<Rightarrow> population_error + unit" where
  "rankable_metric c key =
     bindE (metric c key) (\<lambda>v. if v = Some NaN then Inl UnorderedMetric else Inr ())"

definition metric_value :: "candidate \<Rightarrow> string \<Rightarrow> py_float option" where
  "metric_value c key = (case metric c key of Inl _ \<Rightarrow> None | Inr v \<Rightarrow> v)"

definition feature :: "population_config \<Rightarrow> candidate \<Rightarrow> py_float option" where
  "feature cfg c = metric_value c (archive_feature_metric cfg)"

definition quality :: "population_config \<Rightarrow> candidate \<Rightarrow> py_float" where
  "quality cfg c =
     (case metric_value c (archive_feature_quality cfg) of None \<Rightarrow> Fin (fitness c) | Some v \<Rightarrow> v)"

text \<open>The order of floats other than \<open>nan\<close>: negative infinity, the finite ones, infinity.\<close>

fun float_rank :: "py_float \<Rightarrow> int \<times> real" where
  "float_rank NegInf = (-1, 0)"
| "float_rank (Fin x) = (0, x)"
| "float_rank PosInf = (1, 0)"
| "float_rank NaN = (0, 0)"

fun minus_float :: "py_float \<Rightarrow> py_float" where
  "minus_float (Fin x) = Fin (- x)"
| "minus_float PosInf = NegInf"
| "minus_float NegInf = PosInf"
| "minus_float NaN = NaN"

definition archive_key :: "population_config \<Rightarrow> candidate \<Rightarrow> real \<times> (int \<times> real) \<times> string" where
  "archive_key cfg c =
     (fitness c,
      float_rank (minus_float (case feature cfg c of None \<Rightarrow> PosInf | Some v \<Rightarrow> v)),
      ca_id c)"

definition quality_key :: "population_config \<Rightarrow> candidate \<Rightarrow> (int \<times> real) \<times> string" where
  "quality_key cfg c = (float_rank (quality cfg c), ca_id c)"

section \<open>Buckets\<close>

definition bucket_of :: "population_config \<Rightarrow> real \<Rightarrow> int" where
  "bucket_of cfg v = \<lfloor>v / archive_feature_bucket cfg\<rfloor>"

definition challenge ::
  "population_config \<Rightarrow> int \<Rightarrow> candidate \<Rightarrow> (int \<times> candidate) list \<Rightarrow> (int \<times> candidate) list" where
  "challenge cfg idx c held =
     (case map_of held idx of
        None \<Rightarrow> AList.update idx c held
      | Some h \<Rightarrow> if quality_key cfg h < quality_key cfg c then AList.update idx c held else held)"

fun fill_buckets ::
  "population_config \<Rightarrow> candidate list \<Rightarrow> (int \<times> candidate) list \<Rightarrow>
   population_error + (int \<times> candidate) list" where
  "fill_buckets cfg [] held = Inr held"
| "fill_buckets cfg (c # cs) held =
     (case feature cfg c of
        None \<Rightarrow> fill_buckets cfg cs held
      | Some (Fin v) \<Rightarrow>
          bindE (rankable_metric c (archive_feature_quality cfg)) (\<lambda>_.
            fill_buckets cfg cs (challenge cfg (bucket_of cfg v) c held))
      | Some _ \<Rightarrow> Inl NumberTooLarge)"

definition bucket_elites ::
  "population_config \<Rightarrow> candidate list \<Rightarrow> population_error + candidate list" where
  "bucket_elites cfg cs =
     (if archive_feature_metric cfg = [] \<or> archive_feature_bucket cfg \<le> 0 then Inr []
      else bindE (fill_buckets cfg cs []) (\<lambda>held.
             Inr (sort_desc (quality_key cfg) (map snd held))))"

section \<open>The archive\<close>

text \<open>\<open>keep\<close> is the insertion-ordered dictionary of the identifiers that keep a slot.\<close>

fun keep_id :: "string \<Rightarrow> string list \<Rightarrow> string list" where
  "keep_id i keep = (if i \<in> set keep then keep else keep @ [i])"

fun fill_slots :: "int \<Rightarrow> string list \<Rightarrow> candidate list \<Rightarrow> string list" where
  "fill_slots n keep [] = keep"
| "fill_slots n keep (c # cs) =
     (if n \<le> int (length keep) then keep else fill_slots n (keep_id (ca_id c) keep) cs)"

definition reserved_slots :: "population_config \<Rightarrow> nat" where
  "reserved_slots cfg = nat (max 0 (min (archive_feature_reserve cfg) (archive_size cfg)))"

definition reserved :: "population_config \<Rightarrow> candidate list \<Rightarrow> population_error + string list" where
  "reserved cfg cs =
     (if archive_update_strategy cfg = ''feature_buckets''
      then bindE (bucket_elites cfg cs) (\<lambda>elites.
             Inr (fold keep_id (map ca_id (take (reserved_slots cfg) elites)) []))
      else Inr [])"

definition eligible :: "population \<Rightarrow> candidate list" where
  "eligible p = filter (\<lambda>c. selectable_sql c \<and> \<not> ca_duplicate c) (po_rows p)"

definition ranking :: "population \<Rightarrow> candidate list" where
  "ranking p = sort_desc (archive_key (po_cfg p)) (eligible p)"

definition set_archive :: "string list \<Rightarrow> population \<Rightarrow> population" where
  "set_archive keep p = p\<lparr>po_rows := map (\<lambda>c. c\<lparr>ca_archived := ca_id c \<in> set keep\<rparr>) (po_rows p)\<rparr>"

definition refresh_archive :: "population \<Rightarrow> population_error + population" where
  "refresh_archive p =
     bindE (assert_writable p) (\<lambda>_.
     bindE (mapE (\<lambda>c. rankable_metric c (archive_feature_metric (po_cfg p))) (eligible p)) (\<lambda>_.
     bindE (reserved (po_cfg p) (ranking p)) (\<lambda>keep.
       Inr (set_archive (fill_slots (archive_size (po_cfg p)) keep (ranking p)) p))))"

section \<open>The slots\<close>

lemma fill_slots_prefix: "\<exists>ys. fill_slots n keep cs = keep @ ys"
proof (induction cs arbitrary: keep)
  case (Cons c cs)
  show ?case using Cons[of "keep_id (ca_id c) keep"] by auto
qed simp

lemma distinct_fill_slots: "distinct keep \<Longrightarrow> distinct (fill_slots n keep cs)"
  by (induction cs arbitrary: keep) auto

lemma set_fill_slots: "set (fill_slots n keep cs) \<subseteq> set keep \<union> ca_id ` set cs"
  by (induction cs arbitrary: keep) (auto split: if_splits, (fastforce split: if_splits)+)

lemma fill_slots_stops:
  "int (length (fill_slots n keep cs)) \<le> max n (int (length keep))"
proof (induction cs arbitrary: keep)
  case (Cons c cs)
  show ?case using Cons[of "keep_id (ca_id c) keep"] by (auto split: if_splits)
qed simp

lemma fill_slots_all:
  "int (length (fill_slots n keep cs)) < n \<Longrightarrow> ca_id ` set cs \<subseteq> set (fill_slots n keep cs)"
proof (induction cs arbitrary: keep)
  case (Cons c cs)
  have "set (keep_id (ca_id c) keep) \<subseteq> set (fill_slots n (keep_id (ca_id c) keep) cs)"
    using fill_slots_prefix[of n "keep_id (ca_id c) keep" cs] by auto
  with Cons show ?case by (auto split: if_splits)
qed simp

lemma fill_slots_take:
  "distinct (keep @ map ca_id cs) \<Longrightarrow>
   fill_slots n keep cs = keep @ take (nat n - length keep) (map ca_id cs)"
proof (induction cs arbitrary: keep)
  case (Cons c cs)
  show ?case
  proof (cases "n \<le> int (length keep)")
    case False
    then have "nat n - length keep = Suc (nat n - Suc (length keep))" by linarith
    with False Cons.prems Cons.IH[of "keep @ [ca_id c]"] show ?thesis by simp
  qed simp
qed simp

lemma fold_keep_id:
  "distinct keep \<Longrightarrow> distinct (fold keep_id is keep) \<and> set (fold keep_id is keep) = set keep \<union> set is
   \<and> length (fold keep_id is keep) \<le> length keep + length is"
proof (induction "is" arbitrary: keep)
  case (Cons i "is")
  have "distinct (keep_id i keep)" using Cons.prems by simp
  from Cons.IH[OF this] show ?case by (auto split: if_splits)
qed simp

section \<open>The buckets\<close>

text \<open>
  The dictionary of held candidates after some candidates were seen: every entry is one of them and
  sits in its bucket, and no seen candidate of a bucket beats the one that is held.
\<close>

definition buckets_hold ::
  "population_config \<Rightarrow> candidate set \<Rightarrow> (int \<times> candidate) list \<Rightarrow> bool" where
  "buckets_hold cfg seen held \<longleftrightarrow>
     distinct (map fst held)
   \<and> (\<forall>i h. map_of held i = Some h \<longrightarrow>
        h \<in> seen \<and> (\<exists>v. feature cfg h = Some (Fin v) \<and> bucket_of cfg v = i))
   \<and> (\<forall>c \<in> seen. \<forall>v. feature cfg c = Some (Fin v) \<longrightarrow>
        (\<exists>h. map_of held (bucket_of cfg v) = Some h \<and> quality_key cfg c \<le> quality_key cfg h))"

lemma buckets_holdD:
  assumes "buckets_hold cfg seen held"
  shows "distinct (map fst held)"
    and "map_of held i = Some h \<Longrightarrow> h \<in> seen \<and> (\<exists>v. feature cfg h = Some (Fin v) \<and> bucket_of cfg v = i)"
    and "c \<in> seen \<Longrightarrow> feature cfg c = Some (Fin v) \<Longrightarrow>
      \<exists>h. map_of held (bucket_of cfg v) = Some h \<and> quality_key cfg c \<le> quality_key cfg h"
  using assms unfolding buckets_hold_def by blast+

lemma challenge_lookup:
  "map_of (challenge cfg idx c held) i =
     (if i = idx then (case map_of held idx of
        None \<Rightarrow> Some c | Some h \<Rightarrow> if quality_key cfg h < quality_key cfg c then Some c else Some h)
      else map_of held i)"
  by (auto simp: challenge_def update_conv' split: option.splits)

lemma buckets_hold_challenge:
  assumes "buckets_hold cfg seen held" and "feature cfg c = Some (Fin v)"
  shows "buckets_hold cfg (insert c seen) (challenge cfg (bucket_of cfg v) c held)"
proof -
  have "distinct (map fst (challenge cfg (bucket_of cfg v) c held))"
    using buckets_holdD(1)[OF assms(1)]
    by (auto simp: challenge_def distinct_update split: option.splits)
  moreover have "h \<in> insert c seen \<and> (\<exists>w. feature cfg h = Some (Fin w) \<and> bucket_of cfg w = i)"
    if "map_of (challenge cfg (bucket_of cfg v) c held) i = Some h" for i h
    using that assms(2) buckets_holdD(2)[OF assms(1), of i h]
    by (auto simp: challenge_lookup split: if_splits option.splits)
  moreover have "\<exists>h. map_of (challenge cfg (bucket_of cfg v) c held) (bucket_of cfg w) = Some h
      \<and> quality_key cfg d \<le> quality_key cfg h"
    if d: "d \<in> insert c seen" "feature cfg d = Some (Fin w)" for d w
  proof (cases "d \<in> seen")
    case True
    then obtain h where "map_of held (bucket_of cfg w) = Some h" "quality_key cfg d \<le> quality_key cfg h"
      using buckets_holdD(3)[OF assms(1) True d(2)] by blast
    then show ?thesis by (auto simp: challenge_lookup intro: order_trans less_imp_le)
  next
    case False
    then have "d = c" "w = v" using d assms(2) by auto
    then show ?thesis by (auto simp: challenge_lookup split: option.splits)
  qed
  ultimately show ?thesis unfolding buckets_hold_def by blast
qed

lemma buckets_hold_fill:
  assumes "fill_buckets cfg cs held = Inr held'" and "buckets_hold cfg seen held"
  shows "buckets_hold cfg (seen \<union> set cs) held'"
  using assms
proof (induction cs arbitrary: held seen)
  case (Cons c cs)
  show ?case
  proof (cases "feature cfg c")
    case None
    then have "buckets_hold cfg (insert c seen) held"
      using Cons.prems(2) by (auto simp: buckets_hold_def)
    with Cons.IH[OF _ this] Cons.prems None show ?thesis by simp
  next
    case (Some x)
    then obtain v where v: "feature cfg c = Some (Fin v)"
      using Cons.prems by (cases x) auto
    have "fill_buckets cfg cs (challenge cfg (bucket_of cfg v) c held) = Inr held'"
      using Cons.prems(1) v by (auto simp: bindE_Inr_iff)
    from Cons.IH[OF this buckets_hold_challenge[OF Cons.prems(2) v]] show ?thesis by simp
  qed
qed simp

lemma bucket_elites_hold:
  assumes "bucket_elites cfg cs = Inr es" "archive_feature_metric cfg \<noteq> []" "0 < archive_feature_bucket cfg"
  obtains held where "buckets_hold cfg (set cs) held" "set es = snd ` set held" "length es = length held"
proof -
  obtain held where held: "fill_buckets cfg cs [] = Inr held"
      "es = sort_desc (quality_key cfg) (map snd held)"
    using assms by (auto simp: bucket_elites_def bindE_Inr_iff)
  have "buckets_hold cfg {} []" by (simp add: buckets_hold_def)
  from buckets_hold_fill[OF held(1) this] held(2) show ?thesis by (intro that[of held]) auto
qed

lemma bucket_elites_subset:
  assumes "bucket_elites cfg cs = Inr es"
  shows "set es \<subseteq> set cs"
proof (cases "archive_feature_metric cfg = [] \<or> archive_feature_bucket cfg \<le> 0")
  case True
  then show ?thesis using assms by (auto simp: bucket_elites_def)
next
  case False
  then obtain held where held: "buckets_hold cfg (set cs) held" "set es = snd ` set held"
    using bucket_elites_hold[OF assms] by (metis linorder_not_less)
  show ?thesis
  proof
    fix c
    assume "c \<in> set es"
    then obtain i where "map_of held i = Some c"
      using held buckets_holdD(1)[OF held(1)] by (auto simp: map_of_is_SomeI)
    then show "c \<in> set cs" using buckets_holdD(2)[OF held(1)] by blast
  qed
qed

lemma reserved_ok:
  assumes "reserved cfg cs = Inr keep"
  shows "distinct keep" "set keep \<subseteq> ca_id ` set cs" "int (length keep) \<le> max 0 (archive_size cfg)"
proof -
  obtain es where es: "set es \<subseteq> set cs"
    and keep: "keep = [] \<or> keep = fold keep_id (map ca_id (take (reserved_slots cfg) es)) []"
  proof (cases "archive_update_strategy cfg = ''feature_buckets''")
    case True
    then obtain es where "bucket_elites cfg cs = Inr es"
        "keep = fold keep_id (map ca_id (take (reserved_slots cfg) es)) []"
      using assms by (auto simp: reserved_def bindE_Inr_iff)
    with bucket_elites_subset show ?thesis by (intro that[of es]) auto
  next
    case False
    with assms show ?thesis by (intro that[of "[]"]) (auto simp: reserved_def)
  qed
  let ?is = "map ca_id (take (reserved_slots cfg) es)"
  have "length ?is \<le> reserved_slots cfg" by simp
  have "set ?is \<subseteq> ca_id ` set cs" using es set_take_subset[of "reserved_slots cfg" es] by auto
  note fold = fold_keep_id[of "[]" ?is, simplified]
  show "distinct keep" using keep fold by auto
  show "set keep \<subseteq> ca_id ` set cs" using keep fold \<open>set ?is \<subseteq> ca_id ` set cs\<close> by auto
  have "length keep \<le> reserved_slots cfg"
    using keep fold \<open>length ?is \<le> reserved_slots cfg\<close> le_trans by auto
  then show "int (length keep) \<le> max 0 (archive_size cfg)" by (simp add: reserved_slots_def)
qed

section \<open>What the archive holds\<close>

definition archived :: "population \<Rightarrow> candidate list" where
  "archived p = filter ca_archived (po_rows p)"

definition unarchived :: "candidate \<Rightarrow> candidate" where
  "unarchived c = c\<lparr>ca_archived := False\<rparr>"

lemma set_eligible: "c \<in> set (eligible p) \<longleftrightarrow> c \<in> set (po_rows p) \<and> selectable_sql c \<and> \<not> ca_duplicate c"
  by (auto simp: eligible_def)

lemma set_ranking [simp]: "set (ranking p) = set (eligible p)"
  by (simp add: ranking_def)

lemma distinct_ids_eligible: "distinct_ids p \<Longrightarrow> distinct (map ca_id (eligible p))"
  by (simp add: distinct_ids_def eligible_def distinct_map_filter)

lemma distinct_ids_ranking:
  assumes "distinct_ids p"
  shows "distinct (map ca_id (ranking p))"
  using distinct_ids_eligible[OF assms] by (simp add: ranking_def distinct_map)

lemma refresh_archiveE:
  assumes "refresh_archive p = Inr p'"
  obtains keep where "reserved (po_cfg p) (ranking p) = Inr keep"
    and "p' = set_archive (fill_slots (archive_size (po_cfg p)) keep (ranking p)) p"
  using assms by (auto simp: refresh_archive_def bindE_Inr_iff)

lemma archived_set_archive:
  "map unarchived (archived (set_archive keep p)) = map unarchived (filter (\<lambda>c. ca_id c \<in> set keep) (po_rows p))"
  by (simp add: archived_def set_archive_def filter_map o_def unarchived_def)

lemma same_ids_same_row:
  "distinct_ids p \<Longrightarrow> c \<in> set (po_rows p) \<Longrightarrow> d \<in> set (po_rows p) \<Longrightarrow> ca_id c = ca_id d \<Longrightarrow> c = d"
  by (auto simp: distinct_ids_def distinct_map inj_on_def)

text \<open>The rows that get a slot, when every slot belongs to an eligible candidate.\<close>

lemma slots_of_eligible:
  assumes "distinct_ids p" "distinct keep" "set keep \<subseteq> ca_id ` set (eligible p)"
  shows "length (filter (\<lambda>c. ca_id c \<in> set keep) (po_rows p)) = length keep"
    and "c \<in> set (po_rows p) \<Longrightarrow> ca_id c \<in> set keep \<Longrightarrow> c \<in> set (eligible p)"
proof -
  show "length (filter (\<lambda>c. ca_id c \<in> set keep) (po_rows p)) = length keep"
    using assms by (intro length_filter_keys) (auto simp: distinct_ids_def set_eligible)
  show "c \<in> set (eligible p)" if "c \<in> set (po_rows p)" "ca_id c \<in> set keep"
  proof -
    obtain e where "e \<in> set (eligible p)" "ca_id c = ca_id e"
      using \<open>ca_id c \<in> set keep\<close> assms(3) by auto
    with same_ids_same_row[OF assms(1) \<open>c \<in> set (po_rows p)\<close>, of e] show ?thesis
      by (simp add: set_eligible)
  qed
qed

lemma final_slots:
  assumes "distinct_ids p" "refresh_archive p = Inr p'"
  obtains keep where "p' = set_archive keep p" "distinct keep" "set keep \<subseteq> ca_id ` set (eligible p)"
    "length keep = min (nat (archive_size (po_cfg p))) (length (eligible p))"
proof -
  obtain start where start: "reserved (po_cfg p) (ranking p) = Inr start"
    and p': "p' = set_archive (fill_slots (archive_size (po_cfg p)) start (ranking p)) p"
    using refresh_archiveE[OF assms(2)] .
  let ?n = "archive_size (po_cfg p)"
  let ?keep = "fill_slots ?n start (ranking p)"
  have keep: "distinct ?keep" "set ?keep \<subseteq> ca_id ` set (eligible p)"
    using distinct_fill_slots[of start ?n "ranking p"] set_fill_slots[of ?n start "ranking p"]
      reserved_ok[OF start] by auto
  have ids: "distinct (map ca_id (eligible p))" by (rule distinct_ids_eligible[OF assms(1)])
  have card: "length ?keep = card (set ?keep)" "length (eligible p) = card (ca_id ` set (eligible p))"
    using distinct_card[OF keep(1)] distinct_card[OF ids] by simp_all
  have below: "int (length ?keep) \<le> max 0 ?n"
    using fill_slots_stops[of ?n start "ranking p"] reserved_ok(3)[OF start] by linarith
  have some: "length ?keep \<le> length (eligible p)"
    using card keep(2) by (simp add: card_mono)
  have "length ?keep = length (eligible p)" if "int (length ?keep) < ?n"
    using fill_slots_all[OF that] keep(2) card by (simp add: subset_antisym)
  then have "length ?keep = min (nat ?n) (length (eligible p))"
    using below some by linarith
  with keep p' that show ?thesis by blast
qed

text \<open>
  C20: After a refresh the archive holds exactly \<open>min(archive_size, eligible)\<close> rows, all of them
  selectable and none a behaviour duplicate, and nothing but the archive flag of any row changed.
\<close>

theorem archive_is_full:
  assumes "distinct_ids p" and "refresh_archive p = Inr p'"
  shows "length (archived p') = min (nat (archive_size (po_cfg p))) (length (eligible p))
       \<and> set (map unarchived (archived p')) \<subseteq> set (map unarchived (eligible p))
       \<and> map unarchived (po_rows p') = map unarchived (po_rows p)"
proof -
  obtain keep where keep: "p' = set_archive keep p" "distinct keep" "set keep \<subseteq> ca_id ` set (eligible p)"
      "length keep = min (nat (archive_size (po_cfg p))) (length (eligible p))"
    using final_slots[OF assms] .
  have same: "map unarchived (archived p') = map unarchived (filter (\<lambda>c. ca_id c \<in> set keep) (po_rows p))"
    unfolding keep(1) by (rule archived_set_archive)
  from arg_cong[OF this, of length] slots_of_eligible(1)[OF assms(1) keep(2,3)] keep(4)
  have "length (archived p') = min (nat (archive_size (po_cfg p))) (length (eligible p))" by simp
  moreover have "set (map unarchived (archived p')) \<subseteq> set (map unarchived (eligible p))"
    unfolding same using slots_of_eligible(2)[OF assms(1) keep(2,3)] by auto
  moreover have "map unarchived (po_rows p') = map unarchived (po_rows p)"
    by (simp add: keep(1) set_archive_def unarchived_def o_def)
  ultimately show ?thesis by blast
qed

lemma fitness_unarchived [simp]: "fitness (unarchived c) = fitness c"
  by (simp add: fitness_def unarchived_def)

lemma metric_value_unarchived [simp]: "metric_value (unarchived c) key = metric_value c key"
  by (simp add: metric_value_def metric_def unarchived_def)

lemma feature_unarchived [simp]: "feature cfg (unarchived c) = feature cfg c"
  by (simp add: feature_def)

lemma ca_id_unarchived [simp]: "ca_id (unarchived c) = ca_id c"
  by (simp add: unarchived_def)

lemma archive_key_unarchived [simp]: "archive_key cfg (unarchived c) = archive_key cfg c"
  by (simp add: archive_key_def)

lemma quality_key_unarchived [simp]: "quality_key cfg (unarchived c) = quality_key cfg c"
  by (simp add: quality_key_def quality_def cong: option.case_cong)

lemma archived_members:
  "set (archived (set_archive keep p))
   = (\<lambda>c. c\<lparr>ca_archived := True\<rparr>) ` {c \<in> set (po_rows p). ca_id c \<in> set keep}"
  by (force simp: archived_def set_archive_def)

lemma archived_id_iff:
  assumes "distinct_ids p" "distinct keep" "set keep \<subseteq> ca_id ` set (eligible p)"
  shows "ca_id ` set (archived (set_archive keep p)) = set keep"
proof -
  have "ca_id ` set (archived (set_archive keep p)) = set keep \<inter> ca_id ` set (po_rows p)"
    by (simp add: archived_members image_image) auto
  moreover have "set keep \<subseteq> ca_id ` set (po_rows p)" using assms(3) by (auto simp: set_eligible)
  ultimately show ?thesis by auto
qed

text \<open>
  Under the default strategy the archive is the top of the ranking: every archived candidate
  ranks at least as high, by fitness, then by thrift on the feature axis, then by identifier, as
  every eligible candidate left out.
\<close>

theorem archive_is_the_top:
  assumes "distinct_ids p" and "refresh_archive p = Inr p'"
    and "archive_update_strategy (po_cfg p) \<noteq> ''feature_buckets''"
    and "a \<in> set (archived p')" and "b \<in> set (eligible p)" and "ca_id b \<notin> ca_id ` set (archived p')"
  shows "archive_key (po_cfg p) b \<le> archive_key (po_cfg p) a"
proof -
  let ?n = "nat (archive_size (po_cfg p))"
  have ids: "distinct (map ca_id (ranking p))" by (rule distinct_ids_ranking[OF assms(1)])
  have p': "p' = set_archive (take ?n (map ca_id (ranking p))) p"
  proof -
    obtain keep where keep: "reserved (po_cfg p) (ranking p) = Inr keep"
      "p' = set_archive (fill_slots (archive_size (po_cfg p)) keep (ranking p)) p"
      using refresh_archiveE[OF assms(2)] .
    have "keep = []" using keep(1) assms(3) by (simp add: reserved_def)
    then show ?thesis
      using keep(2) ids fill_slots_take[of "[]" "ranking p" "archive_size (po_cfg p)"] by simp
  qed
  have slots: "ca_id ` set (archived p') = ca_id ` set (take ?n (ranking p))"
  proof -
    have "set (take ?n (map ca_id (ranking p))) \<subseteq> ca_id ` set (eligible p)"
      by (auto simp: take_map dest: in_set_takeD)
    from archived_id_iff[OF assms(1) distinct_take[OF ids] this] show ?thesis
      unfolding p' by (simp add: take_map)
  qed
  obtain a' where a': "a' \<in> set (take ?n (ranking p))" "ca_id a' = ca_id a"
    using slots assms(4) by force
  obtain r where r: "r \<in> set (po_rows p)" "unarchived a = unarchived r"
    using assms(4) unfolding p' by (auto simp: archived_members unarchived_def)
  have "r = a'"
    using same_ids_same_row[OF assms(1) r(1), of a'] a' r(2)
    by (metis ca_id_unarchived in_set_takeD set_eligible set_ranking)
  then have key: "archive_key (po_cfg p) a' = archive_key (po_cfg p) a"
    using r(2) by (metis archive_key_unarchived)
  have "b \<in> set (drop ?n (ranking p))"
    using assms(5,6) slots by (metis Un_iff append_take_drop_id image_eqI set_append set_ranking)
  moreover have "\<forall>x \<in> set (take ?n (ranking p)). \<forall>y \<in> set (drop ?n (ranking p)).
      archive_key (po_cfg p) y \<le> archive_key (po_cfg p) x"
    using sort_desc_sorted[of "archive_key (po_cfg p)" "eligible p"]
    by (metis append_take_drop_id ranking_def sorted_wrt_append)
  ultimately show ?thesis using a'(1) key by auto
qed

text \<open>
  With feature buckets and at least as many reserved slots as occupied buckets, every bucket
  keeps its best candidate: for each eligible candidate the archive holds one of the same bucket
  that is at least as good by quality.
\<close>

theorem buckets_keep_their_best:
  assumes "distinct_ids p" and "refresh_archive p = Inr p'"
    and "archive_update_strategy (po_cfg p) = ''feature_buckets''"
    and "archive_feature_metric (po_cfg p) \<noteq> []" and "0 < archive_feature_bucket (po_cfg p)"
    and "card {bucket_of (po_cfg p) v | v. \<exists>c \<in> set (eligible p). feature (po_cfg p) c = Some (Fin v)}
         \<le> reserved_slots (po_cfg p)"
    and "c \<in> set (eligible p)" and "feature (po_cfg p) c = Some (Fin v)"
  shows "\<exists>a \<in> set (archived p'). \<exists>w. feature (po_cfg p) a = Some (Fin w)
           \<and> bucket_of (po_cfg p) w = bucket_of (po_cfg p) v
           \<and> quality_key (po_cfg p) c \<le> quality_key (po_cfg p) a"
proof -
  let ?cfg = "po_cfg p" and ?E = "set (eligible p)"
  obtain start where start: "reserved ?cfg (ranking p) = Inr start"
    and p': "p' = set_archive (fill_slots (archive_size ?cfg) start (ranking p)) p"
    using refresh_archiveE[OF assms(2)] .
  obtain es where es: "bucket_elites ?cfg (ranking p) = Inr es"
    and start_def: "start = fold keep_id (map ca_id (take (reserved_slots ?cfg) es)) []"
    using start assms(3) by (auto simp: reserved_def bindE_Inr_iff)
  obtain held where held: "buckets_hold ?cfg ?E held" "set es = snd ` set held" "length es = length held"
    using bucket_elites_hold[OF es assms(4,5)] by auto
  have "fst ` set held \<subseteq> {bucket_of ?cfg v | v. \<exists>c \<in> ?E. feature ?cfg c = Some (Fin v)}" (is "_ \<subseteq> ?B")
    using buckets_holdD(1,2)[OF held(1)] by (force simp: map_of_eq_Some_iff)
  moreover have "finite ?B"
  proof -
    have "?B \<subseteq> (\<lambda>c. bucket_of ?cfg (case feature ?cfg c of Some (Fin v) \<Rightarrow> v | _ \<Rightarrow> 0)) ` ?E" by force
    then show ?thesis by (rule finite_subset) simp
  qed
  ultimately have "length held \<le> reserved_slots ?cfg"
    using assms(6) card_mono[of ?B "fst ` set held"] distinct_card[OF buckets_holdD(1)[OF held(1)]]
    by simp
  then have all: "set start = ca_id ` snd ` set held"
    using start_def held(2,3) fold_keep_id[of "[]" "map ca_id es"] by simp
  obtain h where h: "map_of held (bucket_of ?cfg v) = Some h" "quality_key ?cfg c \<le> quality_key ?cfg h"
    using buckets_holdD(3)[OF held(1) assms(7,8)] by blast
  obtain w where w: "h \<in> ?E" "feature ?cfg h = Some (Fin w)" "bucket_of ?cfg w = bucket_of ?cfg v"
    using buckets_holdD(2)[OF held(1) h(1)] by blast
  have "ca_id h \<in> set (fill_slots (archive_size ?cfg) start (ranking p))"
    using all h(1) fill_slots_prefix[of "archive_size ?cfg" start "ranking p"]
    by (force dest: map_of_SomeD)
  then have "h\<lparr>ca_archived := True\<rparr> \<in> set (archived p')"
    using w(1) by (auto simp: p' archived_members set_eligible)
  moreover have "unarchived (h\<lparr>ca_archived := True\<rparr>) = unarchived h" by (simp add: unarchived_def)
  ultimately show ?thesis
    using w h(2) by (metis feature_unarchived quality_key_unarchived)
qed

section \<open>Samples\<close>

definition bucket_config :: population_config where
  "bucket_config = default_population_config
     \<lparr>archive_size := 2, archive_update_strategy := ''feature_buckets'',
      archive_feature_metric := ''bytes'', archive_feature_bucket := 100, archive_feature_reserve := 2\<rparr>"

definition sized :: "string \<Rightarrow> real \<Rightarrow> int \<Rightarrow> candidate" where
  "sized i fit bytes = (sample_candidate i 1 0 fit)
     \<lparr>ca_report := Some ((plain_report fit True)\<lparr>er_visible_metrics := [(''bytes'', JInt bytes)]\<rparr>)\<rparr>"

definition sample_rows :: "candidate list" where
  "sample_rows = [sized ''a'' 3 950, sized ''b'' 2 920, sized ''c'' 1 40, sized ''d'' 3 910]"

theorem archive_is_full_witness:
  "\<exists>p'. refresh_archive \<lparr>po_cfg = bucket_config, po_readonly = False, po_rows = sample_rows\<rparr> = Inr p'
     \<and> length (archived p') = 2"
proof -
  let ?p = "\<lparr>po_cfg = bucket_config, po_readonly = False, po_rows = sample_rows\<rparr>"
  have "case refresh_archive ?p of Inr p' \<Rightarrow> True | Inl _ \<Rightarrow> False" by code_simp
  then obtain p' where p': "refresh_archive ?p = Inr p'" by (auto split: sum.splits)
  have "distinct_ids ?p" "min (nat (archive_size (po_cfg ?p))) (length (eligible ?p)) = 2" by code_simp+
  with archive_is_full[OF _ p'] p' show ?thesis by auto
qed

theorem archive_is_the_top_witness:
  "\<exists>p' a. refresh_archive \<lparr>po_cfg = default_population_config\<lparr>archive_size := 2\<rparr>, po_readonly = False,
        po_rows = sample_rows\<rparr> = Inr p' \<and> a \<in> set (archived p')
     \<and> archive_key (default_population_config\<lparr>archive_size := 2\<rparr>) (sized ''c'' 1 40)
         \<le> archive_key (default_population_config\<lparr>archive_size := 2\<rparr>) a"
proof -
  let ?p = "\<lparr>po_cfg = default_population_config\<lparr>archive_size := 2\<rparr>, po_readonly = False, po_rows = sample_rows\<rparr>"
  have "case refresh_archive ?p of Inl _ \<Rightarrow> False | Inr p' \<Rightarrow> map ca_id (archived p') = [''a'', ''d'']"
    by code_simp
  then obtain p' where p': "refresh_archive ?p = Inr p'" "map ca_id (archived p') = [''a'', ''d'']"
    by (auto split: sum.splits)
  then obtain a where a: "a \<in> set (archived p')" by (cases "archived p'") auto
  have "distinct_ids ?p" "archive_update_strategy (po_cfg ?p) \<noteq> ''feature_buckets''"
      "sized ''c'' 1 40 \<in> set (eligible ?p)" by code_simp+
  moreover have "ca_id (sized ''c'' 1 40) \<notin> ca_id ` set (archived p')"
    unfolding set_map[symmetric] p'(2) by code_simp
  ultimately have "archive_key (po_cfg ?p) (sized ''c'' 1 40) \<le> archive_key (po_cfg ?p) a"
    using archive_is_the_top[OF _ p'(1) _ a] by blast
  with p'(1) a show ?thesis by auto
qed

theorem buckets_keep_their_best_witness:
  "\<exists>p'. refresh_archive \<lparr>po_cfg = bucket_config, po_readonly = False, po_rows = sample_rows\<rparr> = Inr p'
     \<and> (\<exists>a \<in> set (archived p'). \<exists>w. feature bucket_config a = Some (Fin w) \<and> bucket_of bucket_config w = 0)"
proof -
  let ?p = "\<lparr>po_cfg = bucket_config, po_readonly = False, po_rows = sample_rows\<rparr>"
  have "case refresh_archive ?p of Inr p' \<Rightarrow> True | Inl _ \<Rightarrow> False" by code_simp
  then obtain p' where p': "refresh_archive ?p = Inr p'" by (auto split: sum.splits)
  have E: "set (eligible ?p) = set sample_rows" by code_simp
  have ok: "distinct_ids ?p" "archive_update_strategy (po_cfg ?p) = ''feature_buckets''"
      "archive_feature_metric (po_cfg ?p) \<noteq> []" "0 < archive_feature_bucket (po_cfg ?p)"
      "sized ''c'' 1 40 \<in> set (eligible ?p)" "feature (po_cfg ?p) (sized ''c'' 1 40) = Some (Fin 40)"
      "bucket_of bucket_config 40 = 0"
    by code_simp+
  have "\<forall>c \<in> set sample_rows. case feature bucket_config c of
      Some (Fin v) \<Rightarrow> bucket_of bucket_config v = 0 \<or> bucket_of bucket_config v = 9 | _ \<Rightarrow> True" by code_simp
  then have "{bucket_of bucket_config v | v. \<exists>c \<in> set (eligible ?p). feature bucket_config c = Some (Fin v)}
      \<subseteq> {0, 9}" (is "?B \<subseteq> _")
    unfolding E by (auto split: option.splits)
  then have "card ?B \<le> card {0 :: int, 9}" by (rule card_mono[rotated]) simp
  moreover have "reserved_slots bucket_config = 2" by code_simp
  ultimately have "card {bucket_of (po_cfg ?p) v | v. \<exists>c \<in> set (eligible ?p). feature (po_cfg ?p) c = Some (Fin v)}
      \<le> reserved_slots (po_cfg ?p)" by simp
  from buckets_keep_their_best[OF ok(1) p' ok(2,3,4) this ok(5,6)] ok(7) p' show ?thesis by auto
qed

end
