(* ===== verification/Migration.thy ===== *)
theory Migration
  imports Archive
begin

text \<open>
  Elitist migration between islands (\<open>maybe_migrate\<close> in \<open>src/evoharness/core/population.py\<close>): every
  so many generations a share of each island moves to another island. The migrants of all islands
  are chosen from a snapshot first and moved afterwards.

  The random generator is two arguments: \<open>sample idx n k\<close> is the choice of \<open>k\<close> positions out of
  \<open>n\<close> without replacement for island \<open>idx\<close>, \<open>target idx k ts\<close> the choice of an island out of \<open>ts\<close>
  for its \<open>k\<close>th migrant. \<open>valid_draws\<close> is the documented behaviour of \<open>numpy.random.Generator.choice\<close>.
\<close>

section \<open>Choosing the migrants\<close>

definition valid_draws :: "(int \<Rightarrow> nat \<Rightarrow> nat \<Rightarrow> nat list) \<Rightarrow> (int \<Rightarrow> nat \<Rightarrow> int list \<Rightarrow> int) \<Rightarrow> bool" where
  "valid_draws sample target \<longleftrightarrow>
     (\<forall>idx n k. k \<le> n \<longrightarrow> distinct (sample idx n k) \<and> length (sample idx n k) = k
        \<and> set (sample idx n k) \<subseteq> {..<n})
   \<and> (\<forall>idx k ts. ts \<noteq> [] \<longrightarrow> target idx k ts \<in> set ts)"

definition island_elite :: "population \<Rightarrow> int \<Rightarrow> candidate option" where
  "island_elite p idx =
     (if island_elitism (po_cfg p) then max_by fitness (passed_candidates (island_view_of p idx)) else None)"

definition migration_pool :: "population \<Rightarrow> int \<Rightarrow> candidate list" where
  "migration_pool p idx =
     filter (\<lambda>c. 0 < ca_generation c \<and> (\<forall>best \<in> set_option (island_elite p idx). ca_id c \<noteq> ca_id best))
       (passed_candidates (island_view_of p idx))"

definition migrant_count :: "population \<Rightarrow> int \<Rightarrow> nat" where
  "migrant_count p idx =
     nat (min (max 1 \<lfloor>real (length (iv_candidates (island_view_of p idx))) * migration_rate (po_cfg p)\<rfloor>)
              (int (length (migration_pool p idx))))"

definition migrants :: "(int \<Rightarrow> nat \<Rightarrow> nat \<Rightarrow> nat list) \<Rightarrow> population \<Rightarrow> int \<Rightarrow> candidate list" where
  "migrants sample p idx =
     (let pool = migration_pool p idx in
      if pool = [] then [] else map (\<lambda>i. pool ! i) (sample idx (length pool) (migrant_count p idx)))"

definition other_islands :: "population \<Rightarrow> int \<Rightarrow> int list" where
  "other_islands p idx = filter (\<lambda>d. d \<noteq> idx) [0 .. num_islands (po_cfg p) - 1]"

type_synonym move = "candidate \<times> int \<times> int"

definition moves_from ::
  "(int \<Rightarrow> nat \<Rightarrow> nat \<Rightarrow> nat list) \<Rightarrow> (int \<Rightarrow> nat \<Rightarrow> int list \<Rightarrow> int) \<Rightarrow> population \<Rightarrow> int \<Rightarrow> move list" where
  "moves_from sample target p idx =
     map (\<lambda>(k, c). (c, idx, target idx k (other_islands p idx))) (enumerate 0 (migrants sample p idx))"

definition all_moves ::
  "(int \<Rightarrow> nat \<Rightarrow> nat \<Rightarrow> nat list) \<Rightarrow> (int \<Rightarrow> nat \<Rightarrow> int list \<Rightarrow> int) \<Rightarrow> population \<Rightarrow> move list" where
  "all_moves sample target p =
     concat (map (moves_from sample target p) [0 .. num_islands (po_cfg p) - 1])"

section \<open>Moving them\<close>

text \<open>\<open>metadata.setdefault("migration_history", []).append(entry)\<close>.\<close>

definition add_history ::
  "int \<Rightarrow> int \<Rightarrow> int \<Rightarrow> (string \<times> json) list \<Rightarrow> population_error + (string \<times> json) list" where
  "add_history generation source dest m =
     (let entry = JObj [(''generation'', JInt generation), (''from'', JInt source), (''to'', JInt dest)] in
      case map_of m ''migration_history'' of
        None \<Rightarrow> Inr (AList.update ''migration_history'' (JList [entry]) m)
      | Some (JList xs) \<Rightarrow> Inr (AList.update ''migration_history'' (JList (xs @ [entry])) m)
      | Some _ \<Rightarrow> Inl NotAListValue)"

fun apply_moves :: "int \<Rightarrow> move list \<Rightarrow> population \<Rightarrow> population_error + population" where
  "apply_moves generation [] p = Inr p"
| "apply_moves generation ((c, source, dest) # ms) p =
     bindE (add_history generation source dest (ca_metadata c)) (\<lambda>m.
       apply_moves generation ms
         (upd_candidate (ca_id c) (\<lambda>r. r\<lparr>ca_island := dest, ca_metadata := m\<rparr>) p))"

definition migration_due :: "population_config \<Rightarrow> int \<Rightarrow> population_error + bool" where
  "migration_due cfg generation =
     (if migration_rate cfg \<le> 0 \<or> num_islands cfg < 2 \<or> generation = 0 then Inr False
      else if migration_interval cfg = 0 then Inl ModuloByZero
      else Inr (generation mod migration_interval cfg = 0))"

definition maybe_migrate ::
  "(int \<Rightarrow> nat \<Rightarrow> nat \<Rightarrow> nat list) \<Rightarrow> (int \<Rightarrow> nat \<Rightarrow> int list \<Rightarrow> int) \<Rightarrow> int \<Rightarrow> population \<Rightarrow>
   population_error + population \<times> nat" where
  "maybe_migrate sample target generation p =
     bindE (assert_writable p) (\<lambda>_.
     bindE (migration_due (po_cfg p) generation) (\<lambda>due.
       if \<not> due then Inr (p, 0)
       else let ms = all_moves sample target p in
            bindE (apply_moves generation ms p) (\<lambda>p'. Inr (p', length ms))))"

section \<open>Who moves\<close>

lemma set_migration_pool:
  "c \<in> set (migration_pool p idx) \<longleftrightarrow>
     c \<in> set (po_rows p) \<and> ca_island c = idx \<and> passed c \<and> 0 < ca_generation c
   \<and> (\<forall>best \<in> set_option (island_elite p idx). ca_id c \<noteq> ca_id best)"
  by (auto simp: migration_pool_def dest: passed_has_report)

lemma distinct_migration_pool:
  "distinct_ids p \<Longrightarrow> distinct (map ca_id (migration_pool p idx))"
  by (simp add: migration_pool_def passed_candidates_def island_view_of_def distinct_ids_def
      distinct_map_filter)

lemma migrants_ok:
  assumes "valid_draws sample target" "distinct_ids p"
  shows "set (migrants sample p idx) \<subseteq> set (migration_pool p idx)"
    and "distinct (map ca_id (migrants sample p idx))"
proof -
  let ?pool = "migration_pool p idx" and ?is = "sample idx (length (migration_pool p idx)) (migrant_count p idx)"
  have "migrant_count p idx \<le> length ?pool" by (simp add: migrant_count_def nat_le_iff)
  then have "is": "distinct ?is" "set ?is \<subseteq> {..<length ?pool}"
    using assms(1) by (simp_all add: valid_draws_def)
  then show "set (migrants sample p idx) \<subseteq> set ?pool"
    by (auto simp: migrants_def Let_def)
  have "inj_on (\<lambda>i. ca_id (?pool ! i)) {..<length ?pool}"
    using distinct_migration_pool[OF assms(2), of idx]
    by (auto simp: inj_on_def distinct_conv_nth)
  then have "distinct (map (\<lambda>i. ca_id (?pool ! i)) ?is)"
    using "is" by (simp add: distinct_map inj_on_subset)
  then show "distinct (map ca_id (migrants sample p idx))"
    by (simp add: migrants_def Let_def o_def)
qed

lemma moves_from_ids: "map (\<lambda>m. ca_id (fst m)) (moves_from sample target p idx) = map ca_id (migrants sample p idx)"
proof -
  have "map ca_id (map snd (enumerate 0 (migrants sample p idx))) = map ca_id (migrants sample p idx)"
    by (simp only: map_snd_enumerate)
  then show ?thesis by (simp only: moves_from_def map_map o_def case_prod_unfold fst_conv)
qed

lemma other_islands_ne: "2 \<le> num_islands (po_cfg p) \<Longrightarrow> other_islands p idx \<noteq> []"
proof -
  assume "2 \<le> num_islands (po_cfg p)"
  then have "(if idx = 0 then 1 else 0) \<in> set (other_islands p idx)" by (simp add: other_islands_def)
  then show ?thesis by auto
qed

lemma moves_from_ok:
  assumes "valid_draws sample target" "distinct_ids p" "2 \<le> num_islands (po_cfg p)"
    and "(c, source, dest) \<in> set (moves_from sample target p idx)"
  shows "c \<in> set (migration_pool p idx)" "source = idx" "dest \<noteq> idx" "0 \<le> dest" "dest < num_islands (po_cfg p)"
proof -
  obtain k where k: "(k, c) \<in> set (enumerate 0 (migrants sample p idx))" "source = idx"
      "dest = target idx k (other_islands p idx)"
    using assms(4) by (auto simp: moves_from_def)
  have "c \<in> set (map snd (enumerate 0 (migrants sample p idx)))" using k(1) by (simp only: set_map) (metis image_eqI snd_conv)
  then have "c \<in> set (migrants sample p idx)" by (simp only: map_snd_enumerate)
  then show "c \<in> set (migration_pool p idx)" "source = idx"
    using migrants_ok(1)[OF assms(1,2)] k(2) by auto
  have "dest \<in> set (other_islands p idx)"
    using assms(1) other_islands_ne[OF assms(3)] k(3) by (simp add: valid_draws_def)
  then show "dest \<noteq> idx" "0 \<le> dest" "dest < num_islands (po_cfg p)"
    by (auto simp: other_islands_def)
qed

lemma distinct_concat_map:
  assumes "distinct is" "\<And>i. i \<in> set is \<Longrightarrow> distinct (f i)"
    and "\<And>i j. i \<in> set is \<Longrightarrow> j \<in> set is \<Longrightarrow> i \<noteq> j \<Longrightarrow> set (f i) \<inter> set (f j) = {}"
  shows "distinct (concat (map f is))"
  using assms
proof (induction "is")
  case (Cons i "is")
  have "distinct (concat (map f is))" by (rule Cons.IH) (use Cons.prems in auto)
  moreover have "set (f i) \<inter> set (f j) = {}" if "j \<in> set is" for j
    using Cons.prems(1) Cons.prems(3)[of i j] that by auto
  ultimately show ?case using Cons.prems(2)[of i] by auto
qed simp

lemma migrant_row:
  assumes "valid_draws sample target" "distinct_ids p" "c \<in> set (migrants sample p idx)"
  shows "c \<in> set (po_rows p)" "ca_island c = idx"
  using subsetD[OF migrants_ok(1)[OF assms(1,2)] assms(3)] by (simp_all add: set_migration_pool)

lemma all_moves_ids:
  assumes "valid_draws sample target" "distinct_ids p" "2 \<le> num_islands (po_cfg p)"
  shows "distinct (map (\<lambda>m. ca_id (fst m)) (all_moves sample target p))"
proof -
  let ?ids = "\<lambda>idx. map ca_id (migrants sample p idx)"
  have "set (?ids i) \<inter> set (?ids j) = {}" if "i \<noteq> j" for i j
  proof -
    have "ca_id c \<noteq> ca_id d" if "c \<in> set (migrants sample p i)" "d \<in> set (migrants sample p j)" for c d
      using migrant_row[OF assms(1,2) that(1)] migrant_row[OF assms(1,2) that(2)] \<open>i \<noteq> j\<close>
        same_ids_same_row[OF assms(2), of c d] by auto
    then show ?thesis by auto
  qed
  then have "distinct (concat (map ?ids [0 .. num_islands (po_cfg p) - 1]))"
    using migrants_ok(2)[OF assms(1,2)] by (intro distinct_concat_map) auto
  then show ?thesis by (simp add: all_moves_def map_concat o_def moves_from_ids)
qed

lemma apply_moves_rows:
  assumes "apply_moves generation ms p = Inr p'" "distinct (map (\<lambda>m. ca_id (fst m)) ms)"
  shows "po_cfg p' = po_cfg p \<and> po_readonly p' = po_readonly p \<and> (\<exists>h. po_rows p' = map h (po_rows p)
     \<and> (\<forall>c. ca_id c \<notin> (\<lambda>m. ca_id (fst m)) ` set ms \<longrightarrow> h c = c)
     \<and> (\<forall>c c0 source dest. (c0, source, dest) \<in> set ms \<longrightarrow> ca_id c0 = ca_id c \<longrightarrow>
          (\<exists>m. h c = c\<lparr>ca_island := dest, ca_metadata := m\<rparr>)))"
  using assms
proof (induction ms arbitrary: p)
  case Nil
  then show ?case by (auto intro: exI[of _ id])
next
  case (Cons move ms)
  obtain c0 source dest where move: "move = (c0, source, dest)" by (cases move)
  obtain m where m: "apply_moves generation ms
      (upd_candidate (ca_id c0) (\<lambda>r. r\<lparr>ca_island := dest, ca_metadata := m\<rparr>) p) = Inr p'"
    using Cons.prems(1) by (auto simp: move bindE_Inr_iff)
  obtain h where h: "po_cfg p' = po_cfg p" "po_readonly p' = po_readonly p"
      "po_rows p' = map h (upd_rows ca_id (ca_id c0) (\<lambda>r. r\<lparr>ca_island := dest, ca_metadata := m\<rparr>) (po_rows p))"
      "\<And>c. ca_id c \<notin> (\<lambda>m. ca_id (fst m)) ` set ms \<Longrightarrow> h c = c"
      "\<And>c c0 source dest. (c0, source, dest) \<in> set ms \<Longrightarrow> ca_id c0 = ca_id c \<Longrightarrow>
          \<exists>m. h c = c\<lparr>ca_island := dest, ca_metadata := m\<rparr>"
    using Cons.IH[OF m] Cons.prems(2) by (auto simp: upd_candidate_def)
  let ?h = "\<lambda>c. h (if ca_id c = ca_id c0 then c\<lparr>ca_island := dest, ca_metadata := m\<rparr> else c)"
  have "po_rows p' = map ?h (po_rows p)" using h(3) by (simp add: upd_rows_def o_def)
  moreover have "?h c = c" if "ca_id c \<notin> (\<lambda>m. ca_id (fst m)) ` set (move # ms)" for c
    using that h(4) by (simp add: move)
  moreover have "\<exists>m'. ?h c = c\<lparr>ca_island := d, ca_metadata := m'\<rparr>"
    if "(c1, s, d) \<in> set (move # ms)" "ca_id c1 = ca_id c" for c c1 s d
  proof (cases "(c1, s, d) = move")
    case True
    then have "ca_id (c\<lparr>ca_island := dest, ca_metadata := m\<rparr>) \<notin> (\<lambda>m. ca_id (fst m)) ` set ms"
      using Cons.prems(2) that(2) by (simp add: move)
    from h(4)[OF this] True that(2) show ?thesis by (auto simp: move)
  next
    case False
    then have "(c1, s, d) \<in> set ms" "ca_id c \<noteq> ca_id c0"
      using that Cons.prems(2) by (auto simp: move image_iff)
    with h(5)[of c1 s d c] that(2) show ?thesis by auto
  qed
  ultimately show ?case using h(1,2) by blast
qed

lemma all_moves_ok:
  assumes "valid_draws sample target" "distinct_ids p" "2 \<le> num_islands (po_cfg p)"
    and "(c, source, dest) \<in> set (all_moves sample target p)"
  shows "c \<in> set (migration_pool p (ca_island c))" "dest \<noteq> ca_island c" "0 \<le> dest"
    "dest < num_islands (po_cfg p)"
proof -
  obtain idx where "(c, source, dest) \<in> set (moves_from sample target p idx)"
    using assms(4) by (auto simp: all_moves_def)
  note ok = moves_from_ok[OF assms(1-3) this]
  moreover have "ca_island c = idx" using ok(1) by (simp add: set_migration_pool)
  ultimately show "c \<in> set (migration_pool p (ca_island c))" "dest \<noteq> ca_island c" "0 \<le> dest"
    "dest < num_islands (po_cfg p)" by simp_all
qed

lemma zip_map_self: "zip xs (map h xs) = map (\<lambda>x. (x, h x)) xs"
  by (induction xs) auto

lemma migrateE:
  assumes "maybe_migrate sample target generation p = Inr (p', n)"
  obtains "p' = p" "n = 0"
  | "2 \<le> num_islands (po_cfg p)" "apply_moves generation (all_moves sample target p) p = Inr p'"
    "n = length (all_moves sample target p)"
  using assms
  by (auto simp: maybe_migrate_def migration_due_def bindE_Inr_iff Let_def split: if_splits)

text \<open>
  C21: Migration moves candidates and touches nothing else of them but their history. What moves has
  passed, is not a seed and is not the best of its island when elitism is on; it leaves its island
  for another existing one; and the number returned is the number of rows that moved.
\<close>

theorem migration_is_safe:
  assumes "valid_draws sample target" and "distinct_ids p"
    and "maybe_migrate sample target generation p = Inr (p', n)"
  shows "map core (po_rows p') = map core (po_rows p)
       \<and> n = length (filter (\<lambda>(c, c'). ca_island c' \<noteq> ca_island c) (zip (po_rows p) (po_rows p')))
       \<and> (\<forall>(c, c') \<in> set (zip (po_rows p) (po_rows p')). c' = c
            \<or> passed c \<and> 0 < ca_generation c \<and> ca_island c' \<noteq> ca_island c
              \<and> 0 \<le> ca_island c' \<and> ca_island c' < num_islands (po_cfg p)
              \<and> island_elite p (ca_island c) \<noteq> Some c)"
  using assms(3)
proof (cases rule: migrateE)
  case 1
  have "filter (\<lambda>(c, c'). ca_island c' \<noteq> ca_island c) (zip xs xs) = []" for xs
    by (auto simp: filter_empty_conv in_set_zip)
  with 1 show ?thesis by (auto simp: in_set_zip)
next
  case 2
  let ?ms = "all_moves sample target p"
  let ?ids = "map (\<lambda>m. ca_id (fst m)) ?ms"
  note ids = all_moves_ids[OF assms(1,2) 2(1)]
  obtain h where h: "po_rows p' = map h (po_rows p)" "\<And>c. ca_id c \<notin> set ?ids \<Longrightarrow> h c = c"
    "\<And>c c0 source dest. (c0, source, dest) \<in> set ?ms \<Longrightarrow> ca_id c0 = ca_id c \<Longrightarrow>
          \<exists>m. h c = c\<lparr>ca_island := dest, ca_metadata := m\<rparr>"
    using apply_moves_rows[OF 2(2) ids] by auto
  have moved: "\<exists>dest m. h c = c\<lparr>ca_island := dest, ca_metadata := m\<rparr> \<and> c \<in> set (migration_pool p (ca_island c))
      \<and> dest \<noteq> ca_island c \<and> 0 \<le> dest \<and> dest < num_islands (po_cfg p)"
    if c: "c \<in> set (po_rows p)" "ca_id c \<in> set ?ids" for c
  proof -
    obtain c0 source dest where m: "(c0, source, dest) \<in> set ?ms" "ca_id c0 = ca_id c" using c(2) by auto
    note ok = all_moves_ok[OF assms(1,2) 2(1) m(1)]
    have "c0 = c" using ok(1) c(1) m(2) same_ids_same_row[OF assms(2)] by (simp add: set_migration_pool)
    with ok h(3)[OF m] show ?thesis by blast
  qed
  have "core (h c) = core c" if "c \<in> set (po_rows p)" for c
    using moved[OF that] h(2)[of c] by (cases "ca_id c \<in> set ?ids") (auto simp: core_def)
  then have "map core (po_rows p') = map core (po_rows p)" by (simp add: h(1))
  moreover have "n = length (filter (\<lambda>(c, c'). ca_island c' \<noteq> ca_island c) (zip (po_rows p) (po_rows p')))"
  proof -
    have "set ?ids \<subseteq> ca_id ` set (po_rows p)"
      using all_moves_ok(1)[OF assms(1,2) 2(1)] by (fastforce simp: set_migration_pool)
    with ids assms(2) have "length (filter (\<lambda>c. ca_id c \<in> set ?ids) (po_rows p)) = length ?ids"
      by (intro length_filter_keys) (auto simp: distinct_ids_def)
    moreover have "filter (\<lambda>c. ca_id c \<in> set ?ids) (po_rows p)
        = filter (\<lambda>c. ca_island (h c) \<noteq> ca_island c) (po_rows p)"
    proof (rule filter_cong[OF refl])
      fix c assume "c \<in> set (po_rows p)"
      then show "(ca_id c \<in> set ?ids) = (ca_island (h c) \<noteq> ca_island c)"
        using moved[of c] h(2)[of c] by (cases "ca_id c \<in> set ?ids") auto
    qed
    ultimately show ?thesis using 2(3) by (simp add: h(1) zip_map_self filter_map o_def)
  qed
  moreover have "c' = c \<or> passed c \<and> 0 < ca_generation c \<and> ca_island c' \<noteq> ca_island c
              \<and> 0 \<le> ca_island c' \<and> ca_island c' < num_islands (po_cfg p)
              \<and> island_elite p (ca_island c) \<noteq> Some c"
    if "(c, c') \<in> set (zip (po_rows p) (po_rows p'))" for c c'
  proof -
    have c: "c \<in> set (po_rows p)" "c' = h c" using that by (auto simp: h(1) zip_map_self)
    show ?thesis
      using moved[OF c(1)] h(2)[of c] c(2)
      by (cases "ca_id c \<in> set ?ids") (auto simp: set_migration_pool)
  qed
  ultimately show ?thesis by blast
qed

section \<open>A sample\<close>

definition first_draws :: "int \<Rightarrow> nat \<Rightarrow> nat \<Rightarrow> nat list" where
  "first_draws idx n k = [0..<k]"

definition first_target :: "int \<Rightarrow> nat \<Rightarrow> int list \<Rightarrow> int" where
  "first_target idx k ts = hd ts"

lemma first_draws_valid: "valid_draws first_draws first_target"
  by (auto simp: valid_draws_def first_draws_def first_target_def)

definition two_islands :: population where
  "two_islands =
     \<lparr>po_cfg = default_population_config\<lparr>migration_rate := 1 / 2\<rparr>, po_readonly = False,
      po_rows = [sample_candidate ''s'' 0 0 4, sample_candidate ''a'' 1 0 3, sample_candidate ''b'' 2 0 2,
                 sample_candidate ''c'' 1 1 1]\<rparr>"

theorem migration_is_safe_witness:
  "\<exists>p'. maybe_migrate first_draws first_target 10 two_islands = Inr (p', 1)
     \<and> map core (po_rows p') = map core (po_rows two_islands)
     \<and> length (filter (\<lambda>(c, c'). ca_island c' \<noteq> ca_island c) (zip (po_rows two_islands) (po_rows p'))) = 1"
proof -
  have "case maybe_migrate first_draws first_target 10 two_islands of Inl _ \<Rightarrow> False | Inr (p', n) \<Rightarrow> n = 1"
    by code_simp
  then obtain p' where p': "maybe_migrate first_draws first_target 10 two_islands = Inr (p', 1)"
    by (auto split: sum.splits)
  have "distinct_ids two_islands" by code_simp
  from migration_is_safe[OF first_draws_valid this p'] p' show ?thesis by auto
qed

end
