(* ===== verification/Islands.thy ===== *)
theory Islands
  imports Migration
begin

text \<open>
  Island health and soft restart (\<open>src/evoharness/evoplus/islands.py\<close>): the monitor that notices an
  island that has stopped contributing, and the injection that gives it something new to breed from.

  The three dictionaries of the monitor are association lists in insertion order. New identifiers,
  the clock and the island draw of \<open>insert\<close> are arguments, indexed by the island restarted.

  The lemmas show that a restart only ever adds copies of candidates that passed, that no island is
  restarted more often than its cap, that a restarted island is left alone for the whole patience
  window, and that an island is only judged stalled when it really lags.
\<close>

section \<open>The monitor\<close>

record island_restart =
  ir_generation :: int
  ir_island :: int
  ir_donor_island :: int
  ir_donor :: string
  ir_injected :: string
  ir_island_best :: real
  ir_global_best :: real
  ir_stalled_for :: int

record island_health =
  ih_island :: int
  ih_best :: real
  ih_improved :: int
  ih_stalled_for :: int
  ih_restarts :: int
  ih_stalled :: bool

record monitor =
  im_patience :: int
  im_floor :: real
  im_min_generation :: int
  im_max_restarts :: int
  im_best :: "(int \<times> real) list"
  im_improved :: "(int \<times> int) list"
  im_restarts :: "(int \<times> int) list"
  im_history :: "island_restart list"

datatype monitor_error = BadPatience | BadFloor | BadMinGeneration | BadMaxRestarts

definition mk_monitor :: "int \<Rightarrow> real \<Rightarrow> int \<Rightarrow> int \<Rightarrow> monitor_error + monitor" where
  "mk_monitor patience low min_generation max_restarts =
     (if patience < 1 then Inl BadPatience
      else if \<not> (0 \<le> low \<and> low \<le> 1) then Inl BadFloor
      else if min_generation < 0 then Inl BadMinGeneration
      else if max_restarts < 0 then Inl BadMaxRestarts
      else Inr \<lparr>im_patience = patience, im_floor = low, im_min_generation = min_generation,
                im_max_restarts = max_restarts, im_best = [], im_improved = [], im_restarts = [],
                im_history = []\<rparr>)"

text \<open>\<open>d.get(k, default)\<close>.\<close>

definition entry :: "(int \<times> 'a) list \<Rightarrow> int \<Rightarrow> 'a \<Rightarrow> 'a" where
  "entry d k v = (case map_of d k of None \<Rightarrow> v | Some x \<Rightarrow> x)"

definition on_candidate_graded :: "candidate \<Rightarrow> monitor \<Rightarrow> monitor" where
  "on_candidate_graded c m =
     (if \<not> passed c then m
      else if (case map_of (im_best m) (ca_island c) of None \<Rightarrow> True | Some b \<Rightarrow> b < fitness c)
      then m\<lparr>im_best := AList.update (ca_island c) (fitness c) (im_best m),
             im_improved := AList.update (ca_island c) (ca_generation c) (im_improved m)\<rparr>
      else m)"

section \<open>Diagnosis\<close>

definition global_best :: "monitor \<Rightarrow> real" where
  "global_best m = (if im_best m = [] then 0 else Max (set (map snd (im_best m))))"

definition is_stalled :: "monitor \<Rightarrow> int \<Rightarrow> real \<Rightarrow> int \<Rightarrow> real \<Rightarrow> int \<Rightarrow> bool" where
  "is_stalled m idx best stalled_for global generation =
     (if generation < im_min_generation m then False
      else if im_max_restarts m \<le> entry (im_restarts m) idx 0 then False
      else if stalled_for < im_patience m then False
      else if global \<le> 0 then False
      else if global \<le> best then False
      else best < global * im_floor m)"

definition health_of :: "monitor \<Rightarrow> int \<Rightarrow> int \<Rightarrow> island_health" where
  "health_of m generation idx =
     (let best = entry (im_best m) idx 0;
          improved = entry (im_improved m) idx 0;
          stalled_for = generation - improved in
      \<lparr>ih_island = idx, ih_best = best, ih_improved = improved, ih_stalled_for = stalled_for,
       ih_restarts = entry (im_restarts m) idx 0,
       ih_stalled = is_stalled m idx best stalled_for (global_best m) generation\<rparr>)"

definition survey :: "monitor \<Rightarrow> int \<Rightarrow> int \<Rightarrow> island_health list" where
  "survey m generation n = map (health_of m generation) [0 .. n - 1]"

section \<open>Intervention\<close>

definition pick_donor :: "population \<Rightarrow> int \<Rightarrow> int \<Rightarrow> candidate option" where
  "pick_donor p idx n =
     max_by fitness (concat (map (\<lambda>i. passed_candidates (island_view_of p i))
       (filter (\<lambda>i. i \<noteq> idx) [0 .. n - 1])))"

definition reseed_copy :: "candidate \<Rightarrow> int \<Rightarrow> string \<Rightarrow> candidate" where
  "reseed_copy donor idx fresh =
     \<lparr>ca_id = fresh, ca_code = ca_code donor, ca_generation = ca_generation donor, ca_parent = None,
      ca_island = idx, ca_operator = ''seed'', ca_kind = ca_kind donor, ca_title = ca_title donor,
      ca_summary = ca_summary donor, ca_model = ca_model donor, ca_inspirations = [],
      ca_report = ca_report donor, ca_embedding = ca_embedding donor,
      ca_signature = ca_signature donor, ca_duplicate = False, ca_children = 0, ca_archived = False,
      ca_metadata =
        AList.update ''island_reseed_from'' (JStr (ca_id donor))
          (AList.update ''seed_copy_of''
             (get_or (ca_metadata donor) ''seed_copy_of'' (JStr (ca_id donor))) (ca_metadata donor)),
      ca_timestamp = 0\<rparr>"

definition record_restart :: "int \<Rightarrow> island_health \<Rightarrow> candidate \<Rightarrow> candidate \<Rightarrow> monitor \<Rightarrow> monitor \<times> island_restart" where
  "record_restart generation h donor injected m =
     (let idx = ih_island h;
          event = \<lparr>ir_generation = generation, ir_island = idx, ir_donor_island = ca_island donor,
                   ir_donor = ca_id donor, ir_injected = ca_id injected, ir_island_best = ih_best h,
                   ir_global_best = global_best m, ir_stalled_for = ih_stalled_for h\<rparr> in
      (m\<lparr>im_restarts := AList.update idx (entry (im_restarts m) idx 0 + 1) (im_restarts m),
         im_improved := AList.update idx generation (im_improved m),
         im_history := im_history m @ [event]\<rparr>, event))"

fun restart_islands ::
  "(int \<Rightarrow> real) \<Rightarrow> (int \<Rightarrow> int) \<Rightarrow> (int \<Rightarrow> string) \<Rightarrow> int \<Rightarrow> int \<Rightarrow> island_health list \<Rightarrow>
   population \<Rightarrow> monitor \<Rightarrow> population \<times> monitor \<times> (population_error + island_restart list)" where
  "restart_islands now draw fresh generation n [] p m = (p, m, Inr [])"
| "restart_islands now draw fresh generation n (h # hs) p m =
     (if \<not> ih_stalled h then restart_islands now draw fresh generation n hs p m
      else case pick_donor p (ih_island h) n of
        None \<Rightarrow> restart_islands now draw fresh generation n hs p m
      | Some donor \<Rightarrow>
          (case insert_candidate (now (ih_island h)) draw
                  (reseed_copy donor (ih_island h) (fresh (ih_island h))) p of
             Inl e \<Rightarrow> (p, m, Inl e)
           | Inr (p', injected) \<Rightarrow>
               (let (m', event) = record_restart generation h donor injected m;
                    (p'', m'', r) = restart_islands now draw fresh generation n hs p' m' in
                (p'', m'', bindE r (\<lambda>events. Inr (event # events))))))"

definition maybe_restart ::
  "(int \<Rightarrow> real) \<Rightarrow> (int \<Rightarrow> int) \<Rightarrow> (int \<Rightarrow> string) \<Rightarrow> int \<Rightarrow> int \<Rightarrow> population \<Rightarrow> monitor \<Rightarrow>
   population \<times> monitor \<times> (population_error + island_restart list)" where
  "maybe_restart now draw fresh generation n p m =
     (if n < 2 \<or> im_max_restarts m = 0 then (p, m, Inr [])
      else restart_islands now draw fresh generation n (survey m generation n) p m)"

section \<open>Insertion of copies\<close>

lemma insert_candidate_rows:
  assumes "insert_candidate now draw c p = Inr (p', c')"
  shows "po_rows p' = po_rows p @ [stored now c']" "c' = c\<lparr>ca_island := ca_island c'\<rparr>"
    "po_cfg p' = po_cfg p" "po_readonly p' = po_readonly p" "ca_id c \<notin> ca_id ` set (po_rows p)"
    "0 \<le> ca_island c \<Longrightarrow> ca_island c' = ca_island c"
  using assms
  by (auto simp: insert_candidate_def bindE_Inr_iff Let_def get_candidate_def row_of_None_iff split: if_splits)

lemma pick_donor_ok:
  assumes "pick_donor p idx n = Some d"
  shows "d \<in> set (po_rows p)" "passed d" "ca_island d \<noteq> idx" "0 \<le> ca_island d" "ca_island d < n"
    and "e \<in> set (po_rows p) \<Longrightarrow> passed e \<Longrightarrow> ca_island e \<noteq> idx \<Longrightarrow> 0 \<le> ca_island e \<Longrightarrow>
      ca_island e < n \<Longrightarrow> fitness e \<le> fitness d"
proof -
  note donor = max_by_SomeD[OF assms[unfolded pick_donor_def]]
  show "d \<in> set (po_rows p)" "passed d" "ca_island d \<noteq> idx" "0 \<le> ca_island d" "ca_island d < n"
    using donor(1) by auto
  show "fitness e \<le> fitness d"
    if "e \<in> set (po_rows p)" "passed e" "ca_island e \<noteq> idx" "0 \<le> ca_island e" "ca_island e < n"
    using that passed_has_report[OF that(2)] by (intro donor(2)) auto
qed

section \<open>What a restart adds\<close>

text \<open>A copy carries the program and the report of a candidate that passed and was there before.\<close>

definition copy_of_passed :: "population \<Rightarrow> candidate \<Rightarrow> bool" where
  "copy_of_passed p c \<longleftrightarrow>
     (\<exists>d \<in> set (po_rows p). passed d \<and> ca_code c = ca_code d \<and> ca_report c = ca_report d
        \<and> (quarantined c \<longleftrightarrow> quarantined d) \<and> ca_generation c = ca_generation d)"

lemma stored_simps [simp]:
  "ca_code (stored now c) = ca_code c" "ca_report (stored now c) = ca_report c"
  "ca_generation (stored now c) = ca_generation c" "ca_island (stored now c) = ca_island c"
  "ca_id (stored now c) = ca_id c" "ca_metadata (stored now c) = ca_metadata c"
  "quarantined (stored now c) = quarantined c" "passed (stored now c) = passed c"
  "fitness (stored now c) = fitness c"
  by (simp_all add: stored_def quarantined_def passed_def fitness_def)

lemma reseed_copy_simps [simp]:
  "ca_id (reseed_copy d idx i) = i" "ca_island (reseed_copy d idx i) = idx"
  "ca_code (reseed_copy d idx i) = ca_code d" "ca_report (reseed_copy d idx i) = ca_report d"
  "ca_generation (reseed_copy d idx i) = ca_generation d"
  "quarantined (reseed_copy d idx i) = quarantined d"
  by (simp_all add: reseed_copy_def quarantined_def update_conv')

lemma copy_of_passed_step:
  assumes "po_rows p' = po_rows p @ [stored now (reseed_copy d idx i)]"
    and "d \<in> set (po_rows p)" "passed d" "copy_of_passed p' c"
  shows "copy_of_passed p c"
proof -
  obtain e where e: "e \<in> set (po_rows p')" "passed e" "ca_code c = ca_code e" "ca_report c = ca_report e"
      "quarantined c \<longleftrightarrow> quarantined e" "ca_generation c = ca_generation e"
    using assms(4) by (auto simp: copy_of_passed_def)
  show ?thesis
  proof (cases "e \<in> set (po_rows p)")
    case True
    with e show ?thesis by (auto simp: copy_of_passed_def)
  next
    case False
    then have "e = stored now (reseed_copy d idx i)" using e(1) assms(1) by simp
    with e assms(2,3) show ?thesis by (auto simp: copy_of_passed_def)
  qed
qed

text \<open>What one step of the restart loop does, when its insertion succeeds.\<close>

lemma restart_stepE:
  assumes "ih_stalled h" "pick_donor p (ih_island h) n = Some donor" "0 \<le> ih_island h"
    and "insert_candidate now draw (reseed_copy donor (ih_island h) fresh) p = Inr (p', injected)"
  shows "po_rows p' = po_rows p @ [stored now (reseed_copy donor (ih_island h) fresh)]"
    and "injected = reseed_copy donor (ih_island h) fresh" "po_cfg p' = po_cfg p"
    "donor \<in> set (po_rows p)" "passed donor" "fresh \<notin> ca_id ` set (po_rows p)"
proof -
  note rows = insert_candidate_rows[OF assms(4)]
  have inj: "injected = reseed_copy donor (ih_island h) fresh"
    using rows(2,6) assms(3) by simp
  then show "injected = reseed_copy donor (ih_island h) fresh" .
  show "po_rows p' = po_rows p @ [stored now (reseed_copy donor (ih_island h) fresh)]"
    "po_cfg p' = po_cfg p" "fresh \<notin> ca_id ` set (po_rows p)" using rows(1,3,5) inj by simp_all
  show "donor \<in> set (po_rows p)" "passed donor" using pick_donor_ok[OF assms(2)] by simp_all
qed

lemma record_restart_simps:
  assumes "record_restart generation h donor injected m = (m', event)"
  shows "im_history m' = im_history m @ [event]" "ir_injected event = ca_id injected"
    "ir_island event = ih_island h" "ir_generation event = generation" "ir_island_best event = ih_best h"
    "ir_global_best event = global_best m" "im_best m' = im_best m" "im_max_restarts m' = im_max_restarts m"
    "im_patience m' = im_patience m" "ir_stalled_for event = ih_stalled_for h"
    "entry (im_restarts m') i 0 = entry (im_restarts m) i 0 + (if i = ih_island h then 1 else 0)"
    "entry (im_improved m') i 0 = (if i = ih_island h then generation else entry (im_improved m) i 0)"
  using assms by (auto simp: record_restart_def Let_def entry_def update_conv')

text \<open>
  One run of the loop appends rows and history entries in step: \<open>new\<close> are the copies, \<open>events\<close> their
  records, whether or not the run ends with an error.
\<close>

definition restarts_done ::
  "population \<Rightarrow> monitor \<Rightarrow> island_health list \<Rightarrow> population \<Rightarrow> monitor \<Rightarrow> candidate list \<Rightarrow> island_restart list \<Rightarrow> bool" where
  "restarts_done p m hs p' m' new events \<longleftrightarrow>
     po_rows p' = po_rows p @ new \<and> po_cfg p' = po_cfg p \<and> (distinct_ids p \<longrightarrow> distinct_ids p')
   \<and> (\<forall>c \<in> set new. copy_of_passed p c \<and> (\<exists>h \<in> set hs. ih_stalled h \<and> ca_island c = ih_island h))
   \<and> im_history m' = im_history m @ events \<and> map ir_injected events = map ca_id new
   \<and> im_best m' = im_best m"

lemma restarts_done_step:
  assumes h: "ih_stalled h" "0 \<le> ih_island h" "pick_donor p (ih_island h) n = Some donor"
    and ins: "insert_candidate now draw (reseed_copy donor (ih_island h) fresh) p = Inr (p1, injected)"
    and rec: "record_restart generation h donor injected m = (m1, event)"
    and rest: "restarts_done p1 m1 hs p' m' new events"
  shows "restarts_done p m (h # hs) p' m'
     (stored now (reseed_copy donor (ih_island h) fresh) # new) (event # events)"
proof -
  let ?c = "stored now (reseed_copy donor (ih_island h) fresh)"
  note step = restart_stepE[OF h(1) h(3) h(2) ins]
  note m1 = record_restart_simps[OF rec]
  have "copy_of_passed p ?c" using step(4,5) by (auto simp: copy_of_passed_def)
  moreover have "copy_of_passed p c" if "copy_of_passed p1 c" for c
    by (rule copy_of_passed_step[OF step(1,4,5) that])
  moreover have "distinct_ids p1" if "distinct_ids p"
    using that step(1,6) by (simp add: distinct_ids_def)
  ultimately show ?thesis
    using rest h(1) step(1,2,3) m1 by (auto simp: restarts_done_def)
qed

lemma restarts_done_skip: "restarts_done p m hs p' m' new events \<Longrightarrow> restarts_done p m (h # hs) p' m' new events"
  by (auto simp: restarts_done_def)

lemma restart_islands_done:
  assumes "restart_islands now draw fresh generation n hs p m = (p', m', r)"
    and "\<And>h. h \<in> set hs \<Longrightarrow> 0 \<le> ih_island h"
  shows "\<exists>new events. restarts_done p m hs p' m' new events \<and> (\<forall>es. r = Inr es \<longrightarrow> es = events)"
  using assms
proof (induction hs arbitrary: p m p' m' r)
  case Nil
  then show ?case by (auto simp: restarts_done_def)
next
  case (Cons h hs)
  have nonneg: "\<And>h. h \<in> set hs \<Longrightarrow> 0 \<le> ih_island h" using Cons.prems(2) by simp
  show ?case
  proof (cases "ih_stalled h \<and> pick_donor p (ih_island h) n \<noteq> None")
    case False
    then have "restart_islands now draw fresh generation n hs p m = (p', m', r)"
      using Cons.prems(1) by (auto split: option.splits if_splits)
    from Cons.IH[OF this nonneg] show ?thesis using restarts_done_skip by blast
  next
    case True
    then obtain donor where donor: "pick_donor p (ih_island h) n = Some donor" by auto
    show ?thesis
    proof (cases "insert_candidate (now (ih_island h)) draw
        (reseed_copy donor (ih_island h) (fresh (ih_island h))) p")
      case (Inl e)
      then show ?thesis
        using Cons.prems(1) True donor by (auto simp: restarts_done_def)
    next
      case (Inr res)
      then obtain p1 injected where ins: "insert_candidate (now (ih_island h)) draw
          (reseed_copy donor (ih_island h) (fresh (ih_island h))) p = Inr (p1, injected)" by (cases res) auto
      obtain m1 event where rec: "record_restart generation h donor injected m = (m1, event)"
        by fastforce
      obtain p2 m2 r2 where rest: "restart_islands now draw fresh generation n hs p1 m1 = (p2, m2, r2)"
        by (metis prod_cases3)
      have res: "p' = p2" "m' = m2" "r = bindE r2 (\<lambda>events. Inr (event # events))"
        using Cons.prems(1) True donor ins rec rest by auto
      obtain new events where ih: "restarts_done p1 m1 hs p2 m2 new events" "\<forall>es. r2 = Inr es \<longrightarrow> es = events"
        using Cons.IH[OF rest nonneg] by blast
      have "restarts_done p m (h # hs) p' m'
         (stored (now (ih_island h)) (reseed_copy donor (ih_island h) (fresh (ih_island h))) # new) (event # events)"
        using restarts_done_step[OF _ _ donor ins rec ih(1)] True Cons.prems(2)[of h] res(1,2) by simp
      moreover have "es = event # events" if "r = Inr es" for es
        using that res(3) ih(2) by (auto simp: bindE_Inr_iff)
      ultimately show ?thesis by blast
    qed
  qed
qed

lemma survey_islands [simp]: "map ih_island (survey m generation n) = [0 .. n - 1]"
  by (simp add: survey_def health_of_def Let_def o_def)

lemma in_survey: "h \<in> set (survey m generation n) \<longleftrightarrow> (\<exists>i. 0 \<le> i \<and> i < n \<and> h = health_of m generation i)"
  by (auto simp: survey_def)

lemma health_of_island [simp]: "ih_island (health_of m generation i) = i"
  by (simp add: health_of_def Let_def)

lemma maybe_restart_done:
  assumes "maybe_restart now draw fresh generation n p m = (p', m', r)"
  shows "\<exists>new events. restarts_done p m (survey m generation n) p' m' new events \<and> (\<forall>es. r = Inr es \<longrightarrow> es = events)"
proof (cases "n < 2 \<or> im_max_restarts m = 0")
  case True
  with assms show ?thesis by (auto simp: maybe_restart_def restarts_done_def)
next
  case False
  then have "restart_islands now draw fresh generation n (survey m generation n) p m = (p', m', r)"
    using assms by (simp add: maybe_restart_def)
  then show ?thesis by (rule restart_islands_done) (auto simp: in_survey)
qed

text \<open>
  A restart only ever adds. Every row of the population stays as it is, and what is added behind
  them are copies, with the same program and the same report, of candidates that had passed, each on
  an existing island that the survey found stalled; identifiers stay unique. This holds also when an
  insertion fails half way.
\<close>

theorem restart_only_adds:
  assumes "maybe_restart now draw fresh generation n p m = (p', m', r)"
  shows "\<exists>new. po_rows p' = po_rows p @ new
       \<and> (\<forall>c \<in> set new. copy_of_passed p c \<and> 0 \<le> ca_island c \<and> ca_island c < n
            \<and> ih_stalled (health_of m generation (ca_island c)))
       \<and> (\<forall>events. r = Inr events \<longrightarrow> map ir_injected events = map ca_id new)
       \<and> (distinct_ids p \<longrightarrow> distinct_ids p')"
proof -
  obtain new events where *: "restarts_done p m (survey m generation n) p' m' new events"
      "\<forall>es. r = Inr es \<longrightarrow> es = events"
    using maybe_restart_done[OF assms] by blast
  have "0 \<le> ca_island c \<and> ca_island c < n \<and> ih_stalled (health_of m generation (ca_island c))"
    if c: "c \<in> set new" for c
  proof -
    obtain h where "h \<in> set (survey m generation n)" "ih_stalled h" "ca_island c = ih_island h"
      using *(1) c by (auto simp: restarts_done_def)
    then show ?thesis by (auto simp: in_survey)
  qed
  with * show ?thesis by (intro exI[of _ new]) (auto simp: restarts_done_def)
qed

section \<open>How often and how soon\<close>

text \<open>The count of restarts agrees with the history, and no island is above its cap.\<close>

definition capped :: "monitor \<Rightarrow> bool" where
  "capped m \<longleftrightarrow>
     (\<forall>i. int (length (filter (\<lambda>e. ir_island e = i) (im_history m))) = entry (im_restarts m) i 0
        \<and> entry (im_restarts m) i 0 \<le> im_max_restarts m)"

lemma record_restart_capped:
  assumes "record_restart generation h donor injected m = (m', event)" "capped m"
    and "entry (im_restarts m) (ih_island h) 0 < im_max_restarts m"
  shows "capped m'"
  using assms(2,3) record_restart_simps[OF assms(1)] by (auto simp: capped_def)

text \<open>
  What the loop keeps of an island that is not among those still to visit, and what it settles for
  those that it restarts.
\<close>

lemma restart_islands_frame:
  assumes "restart_islands now draw fresh generation n hs p m = (p', m', r)"
    and "distinct (map ih_island hs)"
  shows "(\<forall>i. i \<notin> ih_island ` set hs \<longrightarrow> entry (im_restarts m') i 0 = entry (im_restarts m) i 0
            \<and> entry (im_improved m') i 0 = entry (im_improved m) i 0)
     \<and> im_max_restarts m' = im_max_restarts m \<and> im_patience m' = im_patience m
     \<and> (capped m \<longrightarrow> (\<forall>h \<in> set hs. ih_stalled h \<longrightarrow> entry (im_restarts m) (ih_island h) 0 < im_max_restarts m)
          \<longrightarrow> capped m')
     \<and> (\<forall>es. r = Inr es \<longrightarrow> (\<forall>e \<in> set es. ir_generation e = generation
          \<and> (\<exists>h \<in> set hs. ih_stalled h \<and> ir_island e = ih_island h)
          \<and> entry (im_improved m') (ir_island e) 0 = generation))"
  using assms
proof (induction hs arbitrary: p m p' m' r)
  case (Cons h hs)
  show ?case
  proof (cases "ih_stalled h \<and> pick_donor p (ih_island h) n \<noteq> None")
    case False
    then have "restart_islands now draw fresh generation n hs p m = (p', m', r)"
      using Cons.prems(1) by (auto split: option.splits if_splits)
    from Cons.IH[OF this] Cons.prems(2) show ?thesis by auto
  next
    case True
    then obtain donor where donor: "pick_donor p (ih_island h) n = Some donor" by auto
    show ?thesis
    proof (cases "insert_candidate (now (ih_island h)) draw
        (reseed_copy donor (ih_island h) (fresh (ih_island h))) p")
      case (Inl e)
      then show ?thesis using Cons.prems(1) True donor by auto
    next
      case (Inr res)
      then obtain p1 injected where ins: "insert_candidate (now (ih_island h)) draw
          (reseed_copy donor (ih_island h) (fresh (ih_island h))) p = Inr (p1, injected)" by (cases res) auto
      obtain m1 event where rec: "record_restart generation h donor injected m = (m1, event)" by fastforce
      obtain p2 m2 r2 where rest: "restart_islands now draw fresh generation n hs p1 m1 = (p2, m2, r2)"
        by (metis prod_cases3)
      have res: "p' = p2" "m' = m2" "r = bindE r2 (\<lambda>events. Inr (event # events))"
        using Cons.prems(1) True donor ins rec rest by auto
      note m1 = record_restart_simps[OF rec]
      have out: "ih_island h \<notin> ih_island ` set hs" "distinct (map ih_island hs)" using Cons.prems(2) by auto
      note ih = Cons.IH[OF rest out(2)]
      have "capped m'" if "capped m"
        "\<forall>g \<in> set (h # hs). ih_stalled g \<longrightarrow> entry (im_restarts m) (ih_island g) 0 < im_max_restarts m"
      proof -
        have "capped m1" using record_restart_capped[OF rec that(1)] that(2) True by simp
        moreover have "\<forall>g \<in> set hs. ih_stalled g \<longrightarrow> entry (im_restarts m1) (ih_island g) 0 < im_max_restarts m1"
          using that(2) out(1) m1 by (auto simp: image_iff)
        ultimately show ?thesis using ih res(2) by blast
      qed
      moreover have "ir_generation e = generation
          \<and> (\<exists>g \<in> set (h # hs). ih_stalled g \<and> ir_island e = ih_island g)
          \<and> entry (im_improved m') (ir_island e) 0 = generation" if es: "r = Inr es" "e \<in> set es" for es e
      proof -
        obtain es2 where es2: "r2 = Inr es2" "es = event # es2" using es(1) res(3) by (auto simp: bindE_Inr_iff)
        have "entry (im_improved m') (ih_island h) 0 = generation" using ih out(1) res(2) m1(12) by simp
        with es(2) es2 ih m1(3,4) res(2) True show ?thesis by auto
      qed
      ultimately show ?thesis using ih m1 res(2) by auto
    qed
  qed
qed simp

lemma on_candidate_graded_simps [simp]:
  "im_restarts (on_candidate_graded c m) = im_restarts m" "im_history (on_candidate_graded c m) = im_history m"
  "im_max_restarts (on_candidate_graded c m) = im_max_restarts m" "im_patience (on_candidate_graded c m) = im_patience m"
  by (simp_all add: on_candidate_graded_def)

lemma stalled_below_cap:
  "ih_stalled (health_of m generation i) \<Longrightarrow> entry (im_restarts m) i 0 < im_max_restarts m
     \<and> im_patience m \<le> generation - entry (im_improved m) i 0
     \<and> entry (im_best m) i 0 < global_best m \<and> entry (im_best m) i 0 < global_best m * im_floor m"
  by (auto simp: health_of_def Let_def is_stalled_def split: if_splits)

lemma maybe_restart_capped:
  assumes "maybe_restart now draw fresh generation n p m = (p', m', r)" "capped m"
  shows "capped m' \<and> im_max_restarts m' = im_max_restarts m"
proof (cases "n < 2 \<or> im_max_restarts m = 0")
  case True
  with assms show ?thesis by (auto simp: maybe_restart_def)
next
  case False
  then have "restart_islands now draw fresh generation n (survey m generation n) p m = (p', m', r)"
    using assms(1) by (simp add: maybe_restart_def)
  moreover have "distinct (map ih_island (survey m generation n))" by simp
  moreover have "\<forall>h \<in> set (survey m generation n). ih_stalled h \<longrightarrow>
      entry (im_restarts m) (ih_island h) 0 < im_max_restarts m"
    using stalled_below_cap by (auto simp: in_survey)
  ultimately show ?thesis using restart_islands_frame assms(2) by blast
qed

text \<open>
  Everything that can happen to the monitor while a run goes on: a candidate is graded, the
  population is written by someone else, a generation ends.
\<close>

inductive monitor_step :: "population \<times> monitor \<Rightarrow> population \<times> monitor \<Rightarrow> bool" where
  graded: "monitor_step (p, m) (p, on_candidate_graded c m)"
| written: "monitor_step (p, m) (p', m)"
| ended: "maybe_restart now draw fresh generation n p m = (p', m', r) \<Longrightarrow> monitor_step (p, m) (p', m')"

inductive_cases monitor_stepE: "monitor_step s s'"

lemma monitor_step_capped:
  assumes "monitor_step s s'" "capped (snd s)"
  shows "capped (snd s') \<and> im_max_restarts (snd s') = im_max_restarts (snd s)"
  using assms by (cases rule: monitor_stepE) (auto simp: capped_def dest: maybe_restart_capped[unfolded capped_def])

lemma monitor_run_capped:
  assumes "monitor_step\<^sup>*\<^sup>* s s'" "capped (snd s)"
  shows "capped (snd s') \<and> im_max_restarts (snd s') = im_max_restarts (snd s)"
  using assms by (induction rule: rtranclp_induct) (auto dest: monitor_step_capped)

text \<open>
  However a run goes, a monitor that started fresh restarts no island more often than its cap,
  and its history holds exactly the restarts it counts.
\<close>

theorem restarts_are_capped:
  assumes "mk_monitor patience low min_generation max_restarts = Inr m"
    and "monitor_step\<^sup>*\<^sup>* (p, m) (p', m')"
  shows "int (length (filter (\<lambda>e. ir_island e = i) (im_history m'))) = entry (im_restarts m') i 0
       \<and> entry (im_restarts m') i 0 \<le> max_restarts"
proof -
  have "capped m \<and> im_max_restarts m = max_restarts"
    using assms(1) by (auto simp: mk_monitor_def capped_def entry_def split: if_splits)
  with monitor_run_capped[OF assms(2)] have "capped m' \<and> im_max_restarts m' = max_restarts" by auto
  then show ?thesis unfolding capped_def by metis
qed

lemma graded_improved:
  assumes "\<forall>c \<in> set cs. g \<le> ca_generation c" "g \<le> entry (im_improved m) i 0"
  shows "g \<le> entry (im_improved (fold on_candidate_graded cs m)) i 0
       \<and> im_patience (fold on_candidate_graded cs m) = im_patience m"
  using assms
proof (induction cs arbitrary: m)
  case (Cons c cs)
  have "g \<le> entry (im_improved (on_candidate_graded c m)) i 0"
    using Cons.prems by (auto simp: on_candidate_graded_def entry_def update_conv')
  from Cons.IH[OF _ this] Cons.prems(1) show ?case by simp
qed simp

text \<open>
  An island restarted at generation g was behind the best island, had been quiet for the whole
  patience window, and is left alone for the patience window that follows: whatever candidates of
  generation g or later are graded in between, no survey before generation g + patience finds it
  stalled again.
\<close>

theorem restarted_island_rests:
  assumes "maybe_restart now draw fresh g n p m = (p', m', Inr events)" and "e \<in> set events"
    and "\<forall>c \<in> set cs. g \<le> ca_generation c" and "g' < g + im_patience m"
  shows "\<not> ih_stalled (health_of (fold on_candidate_graded cs m') g' (ir_island e))
       \<and> im_patience m \<le> g - entry (im_improved m) (ir_island e) 0
       \<and> entry (im_best m) (ir_island e) 0 < global_best m"
proof -
  have "\<not> (n < 2 \<or> im_max_restarts m = 0)" using assms(1,2) by (auto simp: maybe_restart_def split: if_splits)
  then have run: "restart_islands now draw fresh g n (survey m g n) p m = (p', m', Inr events)"
    using assms(1) by (simp add: maybe_restart_def)
  have "distinct (map ih_island (survey m g n))" by simp
  from restart_islands_frame[OF run this] assms(2)
  have frame: "im_patience m' = im_patience m" "entry (im_improved m') (ir_island e) 0 = g" by auto
  note graded = graded_improved[OF assms(3), of m' "ir_island e"]
  have quiet: "\<not> ih_stalled (health_of (fold on_candidate_graded cs m') g' (ir_island e))"
    using stalled_below_cap[of "fold on_candidate_graded cs m'" g' "ir_island e"] graded frame assms(4) by force
  obtain h where "h \<in> set (survey m g n)" "ih_stalled h" "ir_island e = ih_island h"
    using restart_islands_frame[OF run] assms(2) by force
  then have "ih_stalled (health_of m g (ir_island e))" by (auto simp: in_survey)
  from stalled_below_cap[OF this] quiet show ?thesis by blast
qed

section \<open>Samples\<close>

definition sample_monitor :: monitor where
  "sample_monitor =
     \<lparr>im_patience = 2, im_floor = 3 / 4, im_min_generation = 1, im_max_restarts = 1,
      im_best = [(0, 4), (1, 1)], im_improved = [(0, 3), (1, 1)], im_restarts = [], im_history = []\<rparr>"

definition sample_restart :: "population \<times> monitor \<times> (population_error + island_restart list)" where
  "sample_restart =
     maybe_restart (\<lambda>_. 7) (\<lambda>_. 0) (\<lambda>_. ''new'') 5 2 two_islands sample_monitor"

lemma sample_restart_eq:
  "\<exists>p' m' e. sample_restart = (p', m', Inr [e]) \<and> length (po_rows p') = 5 \<and> ir_island e = 1"
proof -
  have "case sample_restart of (p', m', Inr [e]) \<Rightarrow> length (po_rows p') = 5 \<and> ir_island e = 1 | _ \<Rightarrow> False"
    by code_simp
  then show ?thesis by (auto split: prod.splits sum.splits list.splits)
qed

theorem restart_only_adds_witness:
  "\<exists>p' m' r c. sample_restart = (p', m', r) \<and> po_rows p' = po_rows two_islands @ [c]
     \<and> copy_of_passed two_islands c"
proof -
  obtain p' m' e where *: "sample_restart = (p', m', Inr [e])" "length (po_rows p') = 5"
    using sample_restart_eq by blast
  obtain new where new: "po_rows p' = po_rows two_islands @ new" "\<forall>c \<in> set new. copy_of_passed two_islands c"
    using restart_only_adds[OF *(1)[unfolded sample_restart_def]] by blast
  have "length (po_rows two_islands) = 4" by code_simp
  then have "length new = 1" using new(1) *(2) by simp
  then obtain c where "new = [c]" by (cases new) auto
  with new * show ?thesis by auto
qed

theorem restarts_are_capped_witness:
  "\<exists>m m'. mk_monitor 2 (3 / 4) 0 1 = Inr m \<and> m' = on_candidate_graded (sample_candidate ''a'' 1 0 2) m
     \<and> entry (im_restarts m') 0 0 \<le> 1"
proof -
  obtain m where m: "mk_monitor 2 (3 / 4) 0 1 = Inr m" by (simp add: mk_monitor_def)
  let ?m' = "on_candidate_graded (sample_candidate ''a'' 1 0 2) m"
  have "monitor_step\<^sup>*\<^sup>* (two_islands, m) (two_islands, ?m')"
    by (rule r_into_rtranclp) (rule monitor_step.graded)
  from restarts_are_capped[OF m this] m show ?thesis by blast
qed

theorem restarted_island_rests_witness:
  "\<exists>p' m' e. sample_restart = (p', m', Inr [e])
     \<and> \<not> ih_stalled (health_of (on_candidate_graded (sample_candidate ''x'' 6 1 0) m') 6 (ir_island e))"
proof -
  obtain p' m' e where *: "sample_restart = (p', m', Inr [e])" using sample_restart_eq by blast
  have "\<forall>c \<in> set [sample_candidate ''x'' 6 1 0]. 5 \<le> ca_generation c" "(6 :: int) < 5 + im_patience sample_monitor"
    by code_simp+
  from restarted_island_rests[OF *(1)[unfolded sample_restart_def] _ this, of e] *
  show ?thesis by (intro exI[of _ p'] exI[of _ m'] exI[of _ e]) simp
qed

end
