(* ===== verification/PopulationSteps.thy ===== *)
theory PopulationSteps
  imports Islands
begin

text \<open>
  What every write of the population has in common. The locale \<open>population_write\<close> is the contract
  of a write: it may append candidates and annotate the ones that are there, but identifiers stay
  unique and no program, parent, generation or report ever changes. \<open>annotation\<close> is the stronger
  contract of a write that appends nothing, and \<open>keeps_verdicts\<close> adds that it leaves alone who is
  selectable. Every write of the store and of the island monitor is an instance, so the facts proved
  once in the locales hold of any run.
\<close>

section \<open>Rows and candidates\<close>

lemma mapE_column_texts: "mapE column_text (map JStr xs) = Inr xs"
  by (induction xs) auto

lemma mapE_column_numbers: "mapE column_number (map (\<lambda>x. JFloat (Fin x)) xs) = Inr xs"
  by (induction xs) auto

lemma column_numbers_written:
  "column_numbers (map_option (\<lambda>xs. JList (map (\<lambda>x. JFloat (Fin x)) xs)) e) = Inr e"
  by (cases e) (simp_all add: mapE_column_numbers)

lemma column_report_written:
  "\<forall>r \<in> set_option m. wf_report r \<Longrightarrow> column_report (map_option report_to_json m) = Inr m"
  by (cases m) (simp_all add: read_written_report)

text \<open>
  A candidate with a well-formed report, written as a row of the table and read back, is the same
  candidate; only a missing timestamp has become the time of the write and an empty workspace kind
  has become \<open>file\<close>.
\<close>

theorem row_roundtrip:
  assumes "\<forall>r \<in> set_option (ca_report c). wf_report r"
  shows "from_row (to_row now c) = Inr (stored now c)"
  using column_report_written[OF assms]
  by (simp add: from_row_def to_row_def stored_def column_numbers_written mapE_column_texts)

theorem row_roundtrip_witness:
  "from_row (to_row 9 (sample_candidate ''a'' 1 0 2)) = Inr (stored 9 (sample_candidate ''a'' 1 0 2))"
  by (rule row_roundtrip) (simp add: sample_candidate_def wf_report_def plain_report_def)

lemma selectable_passed: "selectable_sql c \<Longrightarrow> passed c"
  by (auto simp: selectable_sql_def passed_def not_quarantined_sql_def quarantined_def get_or_def
      split: option.splits)

text \<open>The two readings agree when the flag is a Boolean or absent, as its one writer leaves it.\<close>

definition typed_flag :: "candidate \<Rightarrow> bool" where
  "typed_flag c \<longleftrightarrow>
     (case map_of (ca_metadata c) ''quarantined'' of None \<Rightarrow> True | Some (JBool _) \<Rightarrow> True | _ \<Rightarrow> False)"

text \<open>
  The SQL condition that selects candidates is at least as strict as the Python property: what a
  query calls selectable has passed and is not quarantined, and the two agree on every candidate
  whose quarantine flag is a Boolean or absent.
\<close>

theorem sql_agrees_with_python:
  "(selectable_sql c \<longrightarrow> passed c) \<and> (typed_flag c \<longrightarrow> selectable_sql c = passed c)"
proof -
  have "selectable_sql c" if "typed_flag c" "passed c"
    using that by (auto simp: typed_flag_def passed_def selectable_sql_def not_quarantined_sql_def
        quarantined_def get_or_def split: option.splits json.splits)
  with selectable_passed show ?thesis by blast
qed

theorem sql_agrees_with_python_witness:
  "selectable_sql (sample_candidate ''a'' 1 0 2) = passed (sample_candidate ''a'' 1 0 2)"
proof -
  have "typed_flag (sample_candidate ''a'' 1 0 2)" by code_simp
  with sql_agrees_with_python[of "sample_candidate ''a'' 1 0 2"] show ?thesis by blast
qed

section \<open>The contract of a write\<close>

definition grown :: "population \<Rightarrow> population \<Rightarrow> bool" where
  "grown p p' \<longleftrightarrow> (\<exists>new. map core (po_rows p') = map core (po_rows p) @ new)"

lemma grown_refl: "grown p p"
  by (simp add: grown_def)

lemma grown_trans: "grown p q \<Longrightarrow> grown q r \<Longrightarrow> grown p r"
  by (auto simp: grown_def)

definition verdict :: "candidate \<Rightarrow> string \<times> bool \<times> real" where
  "verdict c = (ca_id c, selectable_sql c, fitness c)"

locale population_write =
  fixes wr :: "population \<Rightarrow> population \<Rightarrow> bool"
  assumes grows: "wr p p' \<Longrightarrow> grown p p'"
    and keeps_ids: "wr p p' \<Longrightarrow> distinct_ids p \<Longrightarrow> distinct_ids p'"
begin

lemma run:
  assumes "wr\<^sup>*\<^sup>* p p'" "distinct_ids p"
  shows "grown p p' \<and> distinct_ids p'"
  using assms
  by (induction rule: rtranclp_induct) (auto intro: grown_refl grown_trans dest: grows keeps_ids)

end

lemma ca_id_core [simp]: "ca_id (core c) = ca_id c"
  by (simp add: core_def)

lemma fitness_core [simp]: "fitness (core c) = fitness c"
  by (simp add: core_def fitness_def)

lemma same_core_same_ids:
  assumes "map core (po_rows p') = map core (po_rows p)"
  shows "map ca_id (po_rows p') = map ca_id (po_rows p)"
proof -
  have "map ca_id (map core (po_rows p')) = map ca_id (map core (po_rows p))" by (simp only: assms)
  then show ?thesis by (simp add: o_def)
qed

locale annotation =
  fixes op :: "population \<Rightarrow> population_error + population"
  assumes same_core: "op p = Inr p' \<Longrightarrow> map core (po_rows p') = map core (po_rows p)"
begin

lemma same_count: "op p = Inr p' \<Longrightarrow> count_candidates p' = count_candidates p"
  by (drule same_core, drule arg_cong[of _ _ length]) (simp add: count_candidates_def)

end

sublocale annotation \<subseteq> population_write "\<lambda>p p'. op p = Inr p'"
  by unfold_locales (simp_all add: grown_def distinct_ids_def same_core same_core_same_ids[OF same_core])

locale keeps_verdicts = annotation +
  assumes same_verdicts: "distinct_ids p \<Longrightarrow> op p = Inr p' \<Longrightarrow> map verdict (po_rows p') = map verdict (po_rows p)"

section \<open>Every annotation\<close>

lemma core_upd [simp]:
  "core (c\<lparr>ca_island := i\<rparr>) = core c" "core (c\<lparr>ca_children := k\<rparr>) = core c"
  "core (c\<lparr>ca_archived := b\<rparr>) = core c" "core (c\<lparr>ca_metadata := m\<rparr>) = core c"
  "core (c\<lparr>ca_signature := s\<rparr>) = core c" "core (c\<lparr>ca_duplicate := d\<rparr>) = core c"
  "core (c\<lparr>ca_embedding := e\<rparr>) = core c"
  by (simp_all add: core_def)

lemma verdict_upd [simp]:
  "verdict (c\<lparr>ca_island := i\<rparr>) = verdict c" "verdict (c\<lparr>ca_children := k\<rparr>) = verdict c"
  "verdict (c\<lparr>ca_archived := b\<rparr>) = verdict c"
  by (simp_all add: verdict_def selectable_sql_def not_quarantined_sql_def fitness_def)

lemma verdict_metadata:
  "get_or m ''quarantined'' JNull = get_or (ca_metadata c) ''quarantined'' JNull \<Longrightarrow>
   verdict (c\<lparr>ca_metadata := m\<rparr>) = verdict c"
  by (simp add: verdict_def selectable_sql_def not_quarantined_sql_def fitness_def)

lemma map_upd_candidate:
  "(\<And>c. c \<in> set (po_rows p) \<Longrightarrow> ca_id c = i \<Longrightarrow> g (f c) = g c) \<Longrightarrow>
   map g (po_rows (upd_candidate i f p)) = map g (po_rows p)"
  by (auto simp: upd_candidate_def upd_rows_def)

lemma writable_Inr [simp]: "assert_writable p = Inr u \<longleftrightarrow> \<not> po_readonly p"
  by (auto simp: assert_writable_def)

interpretation charged: keeps_verdicts "note_attempt i"
  by unfold_locales (auto simp: note_attempt_def bindE_Inr_iff map_upd_candidate)

interpretation flags: annotation "update_candidate_flags c"
  by unfold_locales (auto simp: update_candidate_flags_def bindE_Inr_iff map_upd_candidate)

interpretation archive: keeps_verdicts refresh_archive
  by unfold_locales (auto elim!: refresh_archiveE simp: set_archive_def)

lemma quarantine_kept [simp]:
  "k \<noteq> ''quarantined'' \<Longrightarrow> get_or (AList.update k v m) ''quarantined'' w = get_or m ''quarantined'' w"
  by (simp add: get_or_def update_conv')

lemma get_candidate_row:
  "distinct_ids p \<Longrightarrow> get_candidate p i = Some c \<Longrightarrow> d \<in> set (po_rows p) \<Longrightarrow> ca_id d = i \<Longrightarrow> d = c"
  using row_of_SomeD[of ca_id i "po_rows p" c] by (auto simp: get_candidate_def intro: same_ids_same_row)

interpretation repair: keeps_verdicts "mark_repair_attempted i"
proof unfold_locales
  fix p p'
  assume "mark_repair_attempted i p = Inr p'"
  then show "map core (po_rows p') = map core (po_rows p)"
    by (auto simp: mark_repair_attempted_def bindE_Inr_iff map_upd_candidate split: option.splits)
next
  fix p p'
  assume "distinct_ids p" and op: "mark_repair_attempted i p = Inr p'"
  show "map verdict (po_rows p') = map verdict (po_rows p)"
  proof (cases "get_candidate p i")
    case None
    with op show ?thesis by (auto simp: mark_repair_attempted_def bindE_Inr_iff)
  next
    case (Some c)
    let ?f = "\<lambda>r. r\<lparr>ca_metadata := AList.update ''repair_attempted'' (JBool True) (ca_metadata c)\<rparr>"
    have "p' = upd_candidate i ?f p"
      using op Some by (auto simp: mark_repair_attempted_def bindE_Inr_iff)
    moreover have "verdict (?f d) = verdict d" if "d \<in> set (po_rows p)" "ca_id d = i" for d
      using get_candidate_row[OF \<open>distinct_ids p\<close> Some that] by (simp add: verdict_metadata)
    ultimately show ?thesis by (simp add: map_upd_candidate)
  qed
qed

definition migrate ::
  "(int \<Rightarrow> nat \<Rightarrow> nat \<Rightarrow> nat list) \<Rightarrow> (int \<Rightarrow> nat \<Rightarrow> int list \<Rightarrow> int) \<Rightarrow> int \<Rightarrow> population \<Rightarrow>
   population_error + population" where
  "migrate sample target generation p =
     bindE (maybe_migrate sample target generation p) (\<lambda>(p', n). Inr p')"

lemma apply_moves_core:
  "apply_moves generation ms p = Inr p' \<Longrightarrow> map core (po_rows p') = map core (po_rows p)"
proof (induction ms arbitrary: p)
  case (Cons move ms)
  obtain c source dest where "move = (c, source, dest)" by (cases move)
  then obtain m where "apply_moves generation ms
      (upd_candidate (ca_id c) (\<lambda>r. r\<lparr>ca_island := dest, ca_metadata := m\<rparr>) p) = Inr p'"
    using Cons.prems by (auto simp: bindE_Inr_iff)
  from Cons.IH[OF this] show ?case by (simp add: map_upd_candidate)
qed simp

interpretation migrated: annotation "migrate sample target generation"
  by unfold_locales (auto simp: migrate_def bindE_Inr_iff elim!: migrateE dest: apply_moves_core)

lemma add_history_quarantine:
  "add_history generation source dest m = Inr m' \<Longrightarrow>
   get_or m' ''quarantined'' JNull = get_or m ''quarantined'' JNull"
  by (auto simp: add_history_def Let_def split: option.splits json.splits)

lemma apply_moves_verdict:
  assumes "apply_moves generation ms p = Inr p'" "distinct (map (\<lambda>m. ca_id (fst m)) ms)"
    and "distinct_ids p" "\<And>c source dest. (c, source, dest) \<in> set ms \<Longrightarrow> c \<in> set (po_rows p)"
  shows "map verdict (po_rows p') = map verdict (po_rows p)"
  using assms
proof (induction ms arbitrary: p)
  case (Cons move ms)
  obtain c source dest where move: "move = (c, source, dest)" by (cases move)
  obtain m where m: "add_history generation source dest (ca_metadata c) = Inr m"
      "apply_moves generation ms (upd_candidate (ca_id c) (\<lambda>r. r\<lparr>ca_island := dest, ca_metadata := m\<rparr>) p) = Inr p'"
    using Cons.prems(1) by (auto simp: move bindE_Inr_iff)
  let ?f = "\<lambda>r. r\<lparr>ca_island := dest, ca_metadata := m\<rparr>"
  let ?q = "upd_candidate (ca_id c) ?f p"
  have c: "c \<in> set (po_rows p)" using Cons.prems(4)[of c source dest] by (simp add: move)
  have "distinct_ids ?q"
    using Cons.prems(3) by (simp add: distinct_ids_def upd_candidate_def map_key_upd_rows)
  moreover have "d \<in> set (po_rows ?q)" if "(d, s, t) \<in> set ms" for d s t
  proof -
    have "ca_id d \<noteq> ca_id c" using that Cons.prems(2) by (force simp: move)
    moreover have "d \<in> set (po_rows p)" using that Cons.prems(4) by auto
    ultimately show ?thesis by (force simp: upd_candidate_def upd_rows_def)
  qed
  ultimately have "map verdict (po_rows p') = map verdict (po_rows ?q)"
    using Cons.IH[OF m(2)] Cons.prems(2) by simp
  also have "\<dots> = map verdict (po_rows p)"
  proof (rule map_upd_candidate)
    fix d assume d: "d \<in> set (po_rows p)" "ca_id d = ca_id c"
    then have "d = c" using same_ids_same_row[OF Cons.prems(3)] c by blast
    then have "verdict (d\<lparr>ca_metadata := m\<rparr>) = verdict d"
      using add_history_quarantine[OF m(1)] by (simp add: verdict_metadata)
    moreover have "?f d = (d\<lparr>ca_metadata := m\<rparr>)\<lparr>ca_island := dest\<rparr>" by simp
    ultimately show "verdict (?f d) = verdict d" by (metis verdict_upd(1))
  qed
  finally show ?case .
qed simp

lemma migrate_keeps_verdicts:
  assumes "valid_draws sample target"
  shows "keeps_verdicts (migrate sample target generation)"
proof unfold_locales
  fix p p'
  assume ids: "distinct_ids p" and "migrate sample target generation p = Inr p'"
  then obtain n where "maybe_migrate sample target generation p = Inr (p', n)"
    by (auto simp: migrate_def bindE_Inr_iff)
  then show "map verdict (po_rows p') = map verdict (po_rows p)"
  proof (cases rule: migrateE)
    case 2
    have "c \<in> set (po_rows p)" if "(c, s, d) \<in> set (all_moves sample target p)" for c s d
      using all_moves_ok(1)[OF assms ids 2(1) that] by (simp add: set_migration_pool)
    with apply_moves_verdict[OF 2(2) all_moves_ids[OF assms ids 2(1)] ids] show ?thesis by blast
  qed simp
qed

section \<open>Every insertion\<close>

definition grown_verdicts :: "population \<Rightarrow> population \<Rightarrow> bool" where
  "grown_verdicts p p' \<longleftrightarrow> (\<exists>new. map verdict (po_rows p') = map verdict (po_rows p) @ new)"

locale verdict_write = population_write +
  assumes keeps_verdicts: "distinct_ids p \<Longrightarrow> wr p p' \<Longrightarrow> grown_verdicts p p'"
begin

lemma run_verdicts:
  assumes "wr\<^sup>*\<^sup>* p p'" "distinct_ids p"
  shows "grown_verdicts p p'"
  using assms
proof (induction rule: rtranclp_induct)
  case base
  then show ?case by (simp add: grown_verdicts_def)
next
  case (step q r)
  then have "grown_verdicts p q" "grown_verdicts q r" using run keeps_verdicts by blast+
  then show ?case by (auto simp: grown_verdicts_def)
qed

end

sublocale keeps_verdicts \<subseteq> verdict_write "\<lambda>p p'. op p = Inr p'"
  by unfold_locales (simp add: grown_verdicts_def same_verdicts)

definition appended :: "population \<Rightarrow> population \<Rightarrow> bool" where
  "appended p p' \<longleftrightarrow> (\<exists>new. po_rows p' = po_rows p @ new) \<and> (distinct_ids p \<longrightarrow> distinct_ids p')"

interpretation append: verdict_write appended
  by unfold_locales (auto simp: appended_def grown_def grown_verdicts_def)

lemma appended_trans: "appended p q \<Longrightarrow> appended q r \<Longrightarrow> appended p r"
  by (auto simp: appended_def)

lemma insert_appends:
  assumes "insert_candidate now draw c p = Inr (p', c')"
  shows "appended p p'"
proof -
  have "ca_id c' = ca_id c" using insert_candidate_rows(2)[OF assms] by (metis candidate.select_convs(1)
        candidate.surjective candidate.update_convs(5))
  then show ?thesis
    using insert_candidate_rows(1,5)[OF assms] by (auto simp: appended_def distinct_ids_def)
qed

lemma seed_islands_appends:
  "seed_islands now draw fresh seed idxs p = (p', r) \<Longrightarrow> appended p p'"
proof (induction idxs arbitrary: p p' r)
  case (Cons idx idxs)
  show ?case
  proof (cases "insert_candidate (now idx) draw (seed_copy seed idx (fresh idx)) p")
    case (Inl e)
    with Cons.prems show ?thesis by (simp add: appended_def)
  next
    case (Inr res)
    obtain p1 c where ins: "insert_candidate (now idx) draw (seed_copy seed idx (fresh idx)) p = Inr (p1, c)"
      using Inr by (cases res) auto
    obtain p2 r2 where rest: "seed_islands now draw fresh seed idxs p1 = (p2, r2)" by fastforce
    have "p' = p2" using Cons.prems ins rest by simp
    with appended_trans[OF insert_appends[OF ins] Cons.IH[OF rest]] show ?thesis by simp
  qed
qed (simp add: appended_def)

lemma seed_all_appends: "seed_all_islands now draw fresh seed islands p = (p', r) \<Longrightarrow> appended p p'"
  by (auto simp: seed_all_islands_def appended_def split: sum.splits dest: seed_islands_appends[unfolded appended_def])

lemma maybe_restart_appends:
  "maybe_restart now draw fresh generation n p m = (p', m', r) \<Longrightarrow> appended p p'"
  using maybe_restart_done by (fastforce simp: restarts_done_def appended_def)

section \<open>Whole runs\<close>

text \<open>The writes of the evolution loop, in any order and with any arguments.\<close>

inductive loop_step :: "population \<Rightarrow> population \<Rightarrow> bool" where
  inserted: "insert_candidate now draw c p = Inr (p', c') \<Longrightarrow> loop_step p p'"
| seeded: "seed_all_islands now' draw fresh seed islands p = (p', r) \<Longrightarrow> loop_step p p'"
| charged: "note_attempt i p = Inr p' \<Longrightarrow> loop_step p p'"
| marked: "mark_repair_attempted i p = Inr p' \<Longrightarrow> loop_step p p'"
| refreshed: "refresh_archive p = Inr p' \<Longrightarrow> loop_step p p'"
| migrated: "valid_draws sample target \<Longrightarrow> maybe_migrate sample target generation p = Inr (p', k) \<Longrightarrow> loop_step p p'"
| revived: "maybe_restart now' draw fresh generation n p m = (p', m', r') \<Longrightarrow> loop_step p p'"

text \<open>Those and the write of flags by an observer.\<close>

inductive population_step :: "population \<Rightarrow> population \<Rightarrow> bool" where
  looped: "loop_step p p' \<Longrightarrow> population_step p p'"
| flagged: "update_candidate_flags c p = Inr p' \<Longrightarrow> population_step p p'"

lemma migrate_eq: "maybe_migrate sample target generation p = Inr (p', k) \<Longrightarrow> migrate sample target generation p = Inr p'"
  by (simp add: migrate_def)

interpretation loop: verdict_write loop_step
proof unfold_locales
  fix p p'
  assume "loop_step p p'"
  then show "grown p p'"
    by cases (blast intro: append.grows insert_appends seed_all_appends maybe_restart_appends
        charged.grows repair.grows archive.grows migrated.grows migrate_eq)+
next
  fix p p'
  assume "loop_step p p'" "distinct_ids p"
  then show "distinct_ids p'"
    by cases (blast intro: append.keeps_ids insert_appends seed_all_appends maybe_restart_appends
        charged.keeps_ids repair.keeps_ids archive.keeps_ids migrated.keeps_ids migrate_eq)+
next
  fix p p'
  assume ids: "distinct_ids p" and "loop_step p p'"
  from this(2) show "grown_verdicts p p'"
  proof cases
    case (migrated sample target generation k)
    from keeps_verdicts.same_verdicts[OF migrate_keeps_verdicts[OF migrated(1)] ids migrate_eq[OF migrated(2)]]
    show ?thesis by (simp add: grown_verdicts_def)
  qed (use ids in \<open>blast intro: append.keeps_verdicts insert_appends seed_all_appends maybe_restart_appends
        charged.keeps_verdicts repair.keeps_verdicts archive.keeps_verdicts\<close>)+
qed

interpretation all_writes: population_write population_step
  by unfold_locales
    (auto elim!: population_step.cases dest: loop.grows loop.keeps_ids flags.grows flags.keeps_ids)

text \<open>
  Whatever a run does, nothing is lost: however many writes of whatever kind, the rows that were
  there are still there, in their order, with the same identifier, program, parent, generation,
  operator and report, and new rows only follow them. Identifiers stay unique.
\<close>

theorem population_only_grows:
  assumes "population_step\<^sup>*\<^sup>* p p'" and "distinct_ids p"
  shows "distinct_ids p' \<and> (\<exists>new. map core (po_rows p') = map core (po_rows p) @ new)"
  using all_writes.run[OF assms] by (simp add: grown_def)

definition run_config :: population_config where
  "run_config = default_population_config\<lparr>archive_size := 1\<rparr>"

theorem population_only_grows_witness:
  "\<exists>p'. refresh_archive \<lparr>po_cfg = run_config, po_readonly = False, po_rows = sample_rows\<rparr> = Inr p'
     \<and> distinct_ids p' \<and> (\<exists>new. map core (po_rows p') = map core sample_rows @ new)"
proof -
  let ?p = "\<lparr>po_cfg = run_config, po_readonly = False, po_rows = sample_rows\<rparr>"
  have "case refresh_archive ?p of Inr _ \<Rightarrow> True | Inl _ \<Rightarrow> False" by code_simp
  then obtain p' where p': "refresh_archive ?p = Inr p'" by (auto split: sum.splits)
  have "population_step\<^sup>*\<^sup>* ?p p'"
    using p' by (blast intro: population_step.looped loop_step.refreshed r_into_rtranclp)
  moreover have "distinct_ids ?p" by code_simp
  ultimately show ?thesis using population_only_grows[of ?p p'] p' by auto
qed

lemma best_candidate_verdict:
  assumes "best_candidate p = Some b"
  shows "(ca_id b, True, fitness b) \<in> set (map verdict (po_rows p))"
  using max_by_SomeD(1)[OF assms[unfolded best_candidate_def]] by (force simp: verdict_def)

lemma best_candidate_above:
  assumes "(i, True, f) \<in> set (map verdict (po_rows p))"
  shows "\<exists>b. best_candidate p = Some b \<and> f \<le> fitness b"
proof -
  obtain c where c: "c \<in> set (filter selectable_sql (po_rows p))" "f = fitness c"
    using assms by (auto simp: verdict_def)
  then obtain b where "best_candidate p = Some b"
    by (cases "best_candidate p") (auto simp: best_candidate_def filter_empty_conv)
  with max_by_SomeD(2)[OF this[unfolded best_candidate_def] c(1)] c(2) show ?thesis by blast
qed

text \<open>
  The best candidate of a run never gets worse: after any sequence of the loop's own writes
  (insertions, seeding, charges, repair marks, archive refreshes, migrations, island restarts) the
  best selectable candidate is at least as fit as before.
\<close>

theorem best_never_drops:
  assumes "loop_step\<^sup>*\<^sup>* p p'" and "distinct_ids p" and "best_candidate p = Some b"
  shows "\<exists>b'. best_candidate p' = Some b' \<and> fitness b \<le> fitness b'"
proof -
  obtain new where "map verdict (po_rows p') = map verdict (po_rows p) @ new"
    using loop.run_verdicts[OF assms(1,2)] by (auto simp: grown_verdicts_def)
  then have "(ca_id b, True, fitness b) \<in> set (map verdict (po_rows p'))"
    using best_candidate_verdict[OF assms(3)] by simp
  then show ?thesis by (rule best_candidate_above)
qed

theorem best_never_drops_witness:
  "\<exists>p' b'. migrate first_draws first_target 10 two_islands = Inr p' \<and> best_candidate p' = Some b' \<and> 4 \<le> fitness b'"
proof -
  have "case maybe_migrate first_draws first_target 10 two_islands of Inl _ \<Rightarrow> False | Inr _ \<Rightarrow> True"
    by code_simp
  then obtain p' n where p': "maybe_migrate first_draws first_target 10 two_islands = Inr (p', n)"
    by (auto split: sum.splits)
  have "loop_step\<^sup>*\<^sup>* two_islands p'"
    by (rule r_into_rtranclp) (rule loop_step.migrated[OF first_draws_valid p'])
  moreover have "distinct_ids two_islands" "best_candidate two_islands = Some (sample_candidate ''s'' 0 0 4)"
    "fitness (sample_candidate ''s'' 0 0 4) = 4" by code_simp+
  ultimately show ?thesis
    using best_never_drops[of two_islands p'] migrate_eq[OF p'] by auto
qed

end
