(* ===== verification/Selection.thy ===== *)
theory Selection
  imports Population
begin

text \<open>
  Parent selection and inspiration sampling (\<open>src/evoharness/core/selection.py\<close>): the five parent
  strategies with their weights, and the choice of the programs shown beside the parent.

  Weights are real numbers; \<open>exp\<close> and powers are the real functions, without rounding. A draw of the
  random generator is an argument: \<open>draw probs\<close> is \<open>rng.choice(len(probs), p=probs)\<close> and \<open>pick k n\<close>
  the \<open>k\<close>th \<open>rng.integers(n)\<close>. The sampling-weight policies are functions from candidates to numbers.

  The lemmas show that the weighted strategy draws from a probability distribution that favours
  fitter and less used candidates, that every strategy returns a candidate of the island that has
  passed, and that the inspirations fit their slots, repeat nothing and never include the parent.
\<close>

section \<open>Weights\<close>

definition stable_sigmoid :: "real \<Rightarrow> real" where
  "stable_sigmoid x = (if 0 \<le> x then 1 / (1 + exp (- x)) else exp x / (1 + exp x))"

definition median :: "real list \<Rightarrow> real" where
  "median xs =
     (let s = sort xs; n = length xs in
      if odd n then s ! (n div 2) else (s ! (n div 2 - 1) + s ! (n div 2)) / 2)"

definition policy_multiplier :: "(candidate \<Rightarrow> real) list \<Rightarrow> candidate \<Rightarrow> real" where
  "policy_multiplier policies c = foldl (\<lambda>m p. m * p c) 1 policies"

definition selection_pool :: "island_view \<Rightarrow> candidate list" where
  "selection_pool v = (if archive_candidates v \<noteq> [] then archive_candidates v else passed_candidates v)"

definition weighted_scale :: "candidate list \<Rightarrow> real" where
  "weighted_scale pool =
     (let scores = map fitness pool; alpha0 = median scores in
      max (median (map (\<lambda>x. \<bar>x - alpha0\<bar>) scores)) (1 / 1000000))"

definition weight :: "population_config \<Rightarrow> (candidate \<Rightarrow> real) list \<Rightarrow> candidate list \<Rightarrow> candidate \<Rightarrow> real" where
  "weight cfg policies pool c =
     stable_sigmoid (weighted_lambda cfg * (fitness c - median (map fitness pool)) / weighted_scale pool)
     * (1 / (1 + real_of_int (ca_children c))) * policy_multiplier policies c"

definition normalised :: "real list \<Rightarrow> real list" where
  "normalised w =
     (if sum_list w \<le> 0 then map (\<lambda>_. 1 / real (length w)) w else map (\<lambda>x. x / sum_list w) w)"

definition weighted_probabilities ::
  "population_config \<Rightarrow> (candidate \<Rightarrow> real) list \<Rightarrow> candidate list \<Rightarrow> real list" where
  "weighted_probabilities cfg policies pool = normalised (map (weight cfg policies pool) pool)"

text \<open>Power law: ranks in the stable order by descending fitness.\<close>

definition power_ranks :: "candidate list \<Rightarrow> nat list" where
  "power_ranks pool = sort_key (\<lambda>i. - fitness (pool ! i)) [0..<length pool]"

definition power_raw :: "population_config \<Rightarrow> candidate list \<Rightarrow> real list" where
  "power_raw cfg pool =
     fold (\<lambda>(rank, idx) raw. raw[idx := (real rank + 1) powr (- power_alpha cfg)])
       (enumerate 0 (power_ranks pool)) (replicate (length pool) 0)"

definition power_law_probabilities ::
  "population_config \<Rightarrow> (candidate \<Rightarrow> real) list \<Rightarrow> candidate list \<Rightarrow> real list" where
  "power_law_probabilities cfg policies pool =
     (let raw = map2 (*) (power_raw cfg pool) (map (policy_multiplier policies) pool) in
      map (\<lambda>x. x / sum_list raw) raw)"

section \<open>Parent selectors\<close>

text \<open>The beam selector's state is the identifier of its current parent.\<close>

datatype selector = Weighted | PowerLaw | Beam "string option" | SeedOnly | Latest

datatype selector_error = UnknownStrategy string

definition make_parent_selector :: "population_config \<Rightarrow> selector_error + selector" where
  "make_parent_selector cfg =
     (if parent_strategy cfg = ''weighted'' then Inr Weighted
      else if parent_strategy cfg = ''power_law'' then Inr PowerLaw
      else if parent_strategy cfg = ''beam'' then Inr (Beam None)
      else if parent_strategy cfg = ''seed_only'' then Inr SeedOnly
      else if parent_strategy cfg = ''latest'' then Inr Latest
      else Inl (UnknownStrategy (parent_strategy cfg)))"

text \<open>\<open>{c.id: c for c in pool}\<close>: the last candidate of an identifier.\<close>

definition by_id :: "candidate list \<Rightarrow> string \<Rightarrow> candidate option" where
  "by_id pool i = map_of (rev (map (\<lambda>c. (ca_id c, c)) pool)) i"

definition beam_current :: "candidate list \<Rightarrow> string option \<Rightarrow> candidate option" where
  "beam_current pool state =
     (case state of None \<Rightarrow> None | Some i \<Rightarrow> if i = [] then None else by_id pool i)"

definition beam_choice ::
  "population_config \<Rightarrow> string option \<Rightarrow> candidate list \<Rightarrow> candidate option \<times> string option" where
  "beam_choice cfg state pool =
     (let current = beam_current pool state;
          fresh = max_by fitness pool;
          moved = (fresh, case fresh of None \<Rightarrow> state | Some c \<Rightarrow> Some (ca_id c)) in
      case current of
        Some c \<Rightarrow> if ca_children c < beam_width cfg then (Some c, state) else moved
      | None \<Rightarrow> moved)"

text \<open>One \<open>sample\<close> method per strategy; \<open>None\<close> when the island has no candidate for it.\<close>

definition weighted_sample ::
  "population_config \<Rightarrow> (candidate \<Rightarrow> real) list \<Rightarrow> (real list \<Rightarrow> nat) \<Rightarrow> island_view \<Rightarrow> candidate option" where
  "weighted_sample cfg policies draw v =
     (let pool = selection_pool v in
      if pool = [] then None else Some (pool ! draw (weighted_probabilities cfg policies pool)))"

definition power_law_sample ::
  "population_config \<Rightarrow> (candidate \<Rightarrow> real) list \<Rightarrow> (real list \<Rightarrow> nat) \<Rightarrow> island_view \<Rightarrow> candidate option" where
  "power_law_sample cfg policies draw v =
     (let pool = selection_pool v in
      if pool = [] then None else Some (pool ! draw (power_law_probabilities cfg policies pool)))"

definition beam_sample ::
  "population_config \<Rightarrow> string option \<Rightarrow> island_view \<Rightarrow> candidate option \<times> string option" where
  "beam_sample cfg state v =
     (let pool = selection_pool v in
      if pool = [] then (None, state) else beam_choice cfg state pool)"

definition seed_only_sample :: "island_view \<Rightarrow> candidate option" where
  "seed_only_sample v =
     (case filter (\<lambda>c. ca_generation c = 0) (passed_candidates v) of [] \<Rightarrow> None | c # _ \<Rightarrow> Some c)"

definition latest_sample :: "island_view \<Rightarrow> candidate option" where
  "latest_sample v = max_by (\<lambda>c. (ca_generation c, ca_timestamp c)) (passed_candidates v)"

fun sample_parent ::
  "population_config \<Rightarrow> (candidate \<Rightarrow> real) list \<Rightarrow> (real list \<Rightarrow> nat) \<Rightarrow> island_view \<Rightarrow> selector \<Rightarrow>
   candidate option \<times> selector" where
  "sample_parent cfg policies draw v Weighted = (weighted_sample cfg policies draw v, Weighted)"
| "sample_parent cfg policies draw v PowerLaw = (power_law_sample cfg policies draw v, PowerLaw)"
| "sample_parent cfg policies draw v (Beam state) =
     (let (parent, state') = beam_sample cfg state v in (parent, Beam state'))"
| "sample_parent cfg policies draw v SeedOnly = (seed_only_sample v, SeedOnly)"
| "sample_parent cfg policies draw v Latest = (latest_sample v, Latest)"

lemmas sample_defs = weighted_sample_def power_law_sample_def beam_sample_def seed_only_sample_def latest_sample_def

section \<open>Inspirations\<close>

record inspiration_draw =
  id_archive :: "candidate list"
  id_top_k :: "candidate list"
  id_notes :: "(string \<times> string) list"

definition all_inspirations :: "inspiration_draw \<Rightarrow> candidate list" where
  "all_inspirations d = id_archive d @ id_top_k d"

definition inspiration_scope :: "population_config \<Rightarrow> candidate \<Rightarrow> population \<Rightarrow> candidate list" where
  "inspiration_scope cfg parent p =
     (if enforce_island_separation cfg then passed_candidates (island_view_of p (ca_island parent))
      else filter passed (all_candidates p))"

definition archive_scope :: "population_config \<Rightarrow> candidate \<Rightarrow> population \<Rightarrow> candidate list" where
  "archive_scope cfg parent p =
     (if enforce_island_separation cfg then archive_candidates (island_view_of p (ca_island parent))
      else filter ca_archived (inspiration_scope cfg parent p))"

text \<open>Walk a ranking and take what is not yet chosen until there are enough.\<close>

fun take_new :: "int \<Rightarrow> string set \<Rightarrow> candidate list \<Rightarrow> candidate list \<Rightarrow> candidate list" where
  "take_new limit seen chosen [] = chosen"
| "take_new limit seen chosen (c # cs) =
     (if limit \<le> int (length chosen) then chosen
      else if ca_id c \<in> seen then take_new limit seen chosen cs
      else take_new limit (insert (ca_id c) seen) (chosen @ [c]) cs)"

text \<open>Pop random members until there are enough; a pop shortens the list, so its length is enough fuel.\<close>

fun take_random ::
  "(nat \<Rightarrow> nat \<Rightarrow> nat) \<Rightarrow> int \<Rightarrow> nat \<Rightarrow> nat \<Rightarrow> candidate list \<Rightarrow> candidate list \<Rightarrow> candidate list" where
  "take_random pick limit k 0 chosen remaining = chosen"
| "take_random pick limit k (Suc fuel) chosen remaining =
     (if limit \<le> int (length chosen) \<or> remaining = [] then chosen
      else let i = pick k (length remaining) in
           take_random pick limit (Suc k) fuel (chosen @ [remaining ! i])
             (take i remaining @ drop (Suc i) remaining))"

definition num_elites :: "population_config \<Rightarrow> int" where
  "num_elites cfg = max 0 \<lfloor>real_of_int (num_archive_inspirations cfg) * elite_selection_ratio cfg\<rfloor>"

definition choose_archive ::
  "population_config \<Rightarrow> (nat \<Rightarrow> nat \<Rightarrow> nat) \<Rightarrow> candidate \<Rightarrow> candidate list \<Rightarrow> candidate list" where
  "choose_archive cfg pick parent scope =
     (let n = num_archive_inspirations cfg in
      case max_by fitness scope of
        None \<Rightarrow> []
      | Some best \<Rightarrow>
          if n \<le> 0 then []
          else let start = (if ca_id best = ca_id parent then [] else [best]);
                   elites = take_new (min n (1 + num_elites cfg))
                     (insert (ca_id parent) (ca_id ` set start)) start (sort_key (\<lambda>c. - fitness c) scope);
                   remaining = filter (\<lambda>c. ca_id c \<notin> insert (ca_id parent) (ca_id ` set elites)) scope in
               take_random pick n 0 (length remaining) elites remaining)"

definition choose_top_k :: "population_config \<Rightarrow> string set \<Rightarrow> candidate list \<Rightarrow> candidate list" where
  "choose_top_k cfg seen scope =
     take_new (num_top_k_inspirations cfg) seen [] (sort_key (\<lambda>c. - fitness c) scope)"

definition apply_policy ::
  "string set \<Rightarrow> (candidate \<times> string) option \<Rightarrow> inspiration_draw \<Rightarrow> inspiration_draw" where
  "apply_policy chosen_ids picked d =
     (case picked of
        None \<Rightarrow> d
      | Some (c, why) \<Rightarrow>
          if ca_id c \<in> chosen_ids then d\<lparr>id_notes := AList.update (ca_id c) why (id_notes d)\<rparr>
          else if id_top_k d \<noteq> [] then
            d\<lparr>id_top_k := butlast (id_top_k d) @ [c], id_notes := AList.update (ca_id c) why (id_notes d)\<rparr>
          else d)"

definition sample_inspirations ::
  "population_config \<Rightarrow> (candidate \<Rightarrow> candidate list \<Rightarrow> (candidate \<times> string) option) option \<Rightarrow>
   (nat \<Rightarrow> nat \<Rightarrow> nat) \<Rightarrow> candidate \<Rightarrow> population \<Rightarrow> inspiration_draw" where
  "sample_inspirations cfg policy pick parent p =
     (let scope = inspiration_scope cfg parent p;
          chosen = choose_archive cfg pick parent (archive_scope cfg parent p);
          top_k = choose_top_k cfg (insert (ca_id parent) (ca_id ` set chosen)) scope;
          d = \<lparr>id_archive = chosen, id_top_k = top_k, id_notes = []\<rparr> in
      case policy of
        None \<Rightarrow> d
      | Some f \<Rightarrow> apply_policy (insert (ca_id parent) (ca_id ` set (chosen @ top_k))) (f parent scope) d)"

section \<open>The weights are a distribution\<close>

lemma stable_sigmoid_eq: "stable_sigmoid x = 1 / (1 + exp (- x))"
proof (cases "0 \<le> x")
  case False
  have "exp x / (1 + exp x) = exp x / (exp x * (exp (- x) + 1))"
    by (simp add: distrib_left flip: exp_add)
  with False show ?thesis by (simp add: stable_sigmoid_def add.commute)
qed (simp add: stable_sigmoid_def)

lemma stable_sigmoid_pos: "0 < stable_sigmoid x"
  by (simp add: stable_sigmoid_eq add_pos_pos)

lemma stable_sigmoid_mono: "x \<le> y \<Longrightarrow> stable_sigmoid x \<le> stable_sigmoid y"
  unfolding stable_sigmoid_eq by (intro divide_left_mono) (simp_all add: add_pos_pos)

lemma weighted_scale_pos: "0 < weighted_scale pool"
  by (simp add: weighted_scale_def Let_def less_max_iff_disj)

lemma weight_nonneg:
  "0 \<le> ca_children c \<Longrightarrow> 0 \<le> policy_multiplier policies c \<Longrightarrow> 0 \<le> weight cfg policies pool c"
  unfolding weight_def using stable_sigmoid_pos by (intro mult_nonneg_nonneg) (auto intro: less_imp_le)

lemma weight_pos:
  "0 \<le> ca_children c \<Longrightarrow> 0 < policy_multiplier policies c \<Longrightarrow> 0 < weight cfg policies pool c"
  unfolding weight_def using stable_sigmoid_pos by (intro mult_pos_pos) auto

lemma weight_mono:
  assumes "0 \<le> weighted_lambda cfg" "fitness d \<le> fitness c"
    and "0 \<le> ca_children c" "ca_children c \<le> ca_children d"
    and "0 \<le> policy_multiplier policies d" "policy_multiplier policies d \<le> policy_multiplier policies c"
  shows "weight cfg policies pool d \<le> weight cfg policies pool c"
proof -
  have "weighted_lambda cfg * (fitness d - median (map fitness pool)) / weighted_scale pool
      \<le> weighted_lambda cfg * (fitness c - median (map fitness pool)) / weighted_scale pool"
    using assms(1,2) weighted_scale_pos[of pool] by (intro divide_right_mono mult_left_mono) auto
  moreover have "1 / (1 + real_of_int (ca_children d)) \<le> 1 / (1 + real_of_int (ca_children c))"
    using assms(3,4) by (intro divide_left_mono) auto
  ultimately show ?thesis
    unfolding weight_def using assms(3-6) stable_sigmoid_pos
    by (intro mult_mono stable_sigmoid_mono mult_nonneg_nonneg) (auto intro: less_imp_le)
qed

lemma sum_list_divide: "sum_list (map (\<lambda>x. x / (s :: real)) xs) = sum_list xs / s"
  by (induction xs) (simp_all add: add_divide_distrib)

lemma sum_list_normalised: "w \<noteq> [] \<Longrightarrow> sum_list (normalised w) = 1"
  by (auto simp: normalised_def sum_list_divide sum_list_triv)

text \<open>
  The weighted strategy draws from a probability distribution: its numbers are not negative and
  sum to one. With positive policy multipliers every candidate of the pool keeps a positive chance,
  and a candidate that is at least as fit, at most as often used and at least as favoured by the
  policies never has the smaller chance.
\<close>

theorem weighted_is_a_fair_distribution:
  assumes "pool \<noteq> []" and "0 \<le> weighted_lambda cfg"
    and "\<forall>c \<in> set pool. 0 \<le> ca_children c \<and> 0 < policy_multiplier policies c"
  shows "sum_list (weighted_probabilities cfg policies pool) = 1
       \<and> length (weighted_probabilities cfg policies pool) = length pool
       \<and> (\<forall>i < length pool. 0 < weighted_probabilities cfg policies pool ! i)
       \<and> (\<forall>i < length pool. \<forall>j < length pool.
            fitness (pool ! j) \<le> fitness (pool ! i) \<longrightarrow> ca_children (pool ! i) \<le> ca_children (pool ! j) \<longrightarrow>
            policy_multiplier policies (pool ! j) \<le> policy_multiplier policies (pool ! i) \<longrightarrow>
            weighted_probabilities cfg policies pool ! j \<le> weighted_probabilities cfg policies pool ! i)"
proof -
  let ?w = "map (weight cfg policies pool) pool"
  have pos: "0 < weight cfg policies pool c" if "c \<in> set pool" for c
    using assms(3) that by (intro weight_pos) auto
  have total: "0 < sum_list ?w"
  proof -
    have "0 < weight cfg policies pool (hd pool)" using assms(1) by (intro pos) simp
    moreover have "0 \<le> sum_list (map (weight cfg policies pool) (tl pool))"
      using pos assms(1) by (intro sum_list_nonneg) (auto dest: list.set_sel(2) intro: less_imp_le)
    ultimately show ?thesis using assms(1) by (cases pool) auto
  qed
  then have eq: "weighted_probabilities cfg policies pool ! i = weight cfg policies pool (pool ! i) / sum_list ?w"
    if "i < length pool" for i
    using that by (simp add: weighted_probabilities_def normalised_def)
  have "sum_list (weighted_probabilities cfg policies pool) = 1"
    using assms(1) by (simp add: weighted_probabilities_def sum_list_normalised)
  moreover have "length (weighted_probabilities cfg policies pool) = length pool"
    by (simp add: weighted_probabilities_def normalised_def)
  moreover have "0 < weighted_probabilities cfg policies pool ! i" if "i < length pool" for i
    using that pos total by (simp add: eq)
  moreover have "weighted_probabilities cfg policies pool ! j \<le> weighted_probabilities cfg policies pool ! i"
    if "i < length pool" "j < length pool" "fitness (pool ! j) \<le> fitness (pool ! i)"
      "ca_children (pool ! i) \<le> ca_children (pool ! j)"
      "policy_multiplier policies (pool ! j) \<le> policy_multiplier policies (pool ! i)" for i j
  proof -
    have "weight cfg policies pool (pool ! j) \<le> weight cfg policies pool (pool ! i)"
      using that assms(2,3) by (intro weight_mono) (auto simp: less_imp_le)
    then show ?thesis using that(1,2) total by (simp add: eq divide_right_mono)
  qed
  ultimately show ?thesis by blast
qed

theorem weighted_is_a_fair_distribution_witness:
  "sum_list (weighted_probabilities default_population_config []
      [sample_candidate ''a'' 1 0 3, sample_candidate ''b'' 1 0 2]) = 1"
proof -
  let ?pool = "[sample_candidate ''a'' 1 0 3, sample_candidate ''b'' 1 0 2]"
  have "\<forall>c \<in> set ?pool. 0 \<le> ca_children c \<and> 0 < policy_multiplier [] c"
    "0 \<le> weighted_lambda default_population_config"
    by (simp_all add: sample_candidate_def policy_multiplier_def default_population_config_def)
  from weighted_is_a_fair_distribution[OF _ this(2,1)] show ?thesis by simp
qed

section \<open>Parents\<close>

lemma selection_pool_passed:
  "c \<in> set (selection_pool v) \<Longrightarrow> c \<in> set (iv_candidates v) \<and> passed c"
  by (auto simp: selection_pool_def archive_candidates_def passed_candidates_def split: if_splits)

lemma selection_pool_Nil_iff: "selection_pool v = [] \<longleftrightarrow> passed_candidates v = []"
  by (auto simp: selection_pool_def archive_candidates_def passed_candidates_def filter_empty_conv)

lemma by_id_member: "by_id pool i = Some c \<Longrightarrow> c \<in> set pool \<and> ca_id c = i"
  unfolding by_id_def by (drule map_of_SomeD) auto

lemma by_id_Nil [simp]: "by_id [] i = None"
  by (simp add: by_id_def)

lemma beam_choice_member:
  assumes "beam_choice cfg state pool = (parent, state')"
  shows "(\<forall>c. parent = Some c \<longrightarrow> c \<in> set pool) \<and> (parent = None \<longrightarrow> pool = [])"
  using assms
  by (auto simp: beam_choice_def beam_current_def Let_def split: option.splits if_splits
      dest: by_id_member max_by_SomeD(1))

lemma length_power_raw: "length (power_raw cfg pool) = length pool"
proof -
  have "length (fold (\<lambda>(rank, idx) raw. raw[idx := f rank]) xs raw) = length raw"
    for f :: "nat \<Rightarrow> real" and xs raw
    by (induction xs arbitrary: raw) auto
  then show ?thesis by (simp add: power_raw_def)
qed

lemma length_probabilities [simp]:
  "length (weighted_probabilities cfg policies pool) = length pool"
  "length (power_law_probabilities cfg policies pool) = length pool"
  by (simp_all add: weighted_probabilities_def normalised_def power_law_probabilities_def Let_def length_power_raw)

text \<open>
  Whatever the strategy, a parent is a candidate of the island that has passed and is not
  quarantined; and every strategy but the seed-only one finds a parent whenever the island has a
  candidate that passed.
\<close>

theorem parent_has_passed:
  assumes "\<forall>probs. probs \<noteq> [] \<longrightarrow> draw probs < length probs"
    and "sample_parent cfg policies draw v sel = (parent, sel')"
  shows "(\<forall>c. parent = Some c \<longrightarrow> c \<in> set (iv_candidates v) \<and> passed c)
       \<and> (sel \<noteq> SeedOnly \<longrightarrow> passed_candidates v \<noteq> [] \<longrightarrow> parent \<noteq> None)"
proof -
  have drawn: "pool ! draw probs \<in> set pool" if "length probs = length pool" "pool \<noteq> []" for probs and pool :: "candidate list"
  proof -
    have "probs \<noteq> []" using that by auto
    with assms(1) have "draw probs < length pool" using that(1) by metis
    then show ?thesis by simp
  qed
  show ?thesis
  proof (cases sel)
    case (Beam state)
    show ?thesis
    proof (cases "selection_pool v = []")
      case True
      then show ?thesis using assms(2) Beam by (auto simp: selection_pool_Nil_iff sample_defs)
    next
      case False
      obtain state' where "beam_choice cfg state (selection_pool v) = (parent, state')"
        using assms(2) Beam False by (auto simp: Let_def sample_defs split: prod.splits)
      from beam_choice_member[OF this] False selection_pool_passed show ?thesis by auto
    qed
  next
    case SeedOnly
    then show ?thesis
      using assms(2)
      by (auto simp: sample_defs passed_candidates_def filter_eq_Cons_iff split: list.splits)
  next
    case Weighted
    then show ?thesis
      using assms(2) selection_pool_passed[OF drawn[of "weighted_probabilities cfg policies (selection_pool v)"]]
      by (auto simp: Let_def sample_defs selection_pool_Nil_iff[symmetric] split: if_splits)
  next
    case PowerLaw
    then show ?thesis
      using assms(2) selection_pool_passed[OF drawn[of "power_law_probabilities cfg policies (selection_pool v)"]]
      by (auto simp: Let_def sample_defs selection_pool_Nil_iff[symmetric] split: if_splits)
  next
    case Latest
    then have "max_by (\<lambda>c. (ca_generation c, ca_timestamp c)) (passed_candidates v) = parent"
      using assms(2) by (simp add: sample_defs)
    then show ?thesis
      by (cases parent) (auto simp: passed_candidates_def dest: max_by_SomeD(1))
  qed
qed

theorem parent_has_passed_witness:
  "\<exists>parent sel'. sample_parent default_population_config [] (\<lambda>_. 0)
      \<lparr>iv_island = 0, iv_candidates = [sample_candidate ''a'' 1 0 3]\<rparr> (Beam None) = (parent, sel')
     \<and> parent \<noteq> None"
proof -
  let ?v = "\<lparr>iv_island = 0, iv_candidates = [sample_candidate ''a'' 1 0 3]\<rparr>"
  obtain parent sel' where *: "sample_parent default_population_config [] (\<lambda>_. 0) ?v (Beam None) = (parent, sel')"
    by fastforce
  have "\<forall>probs :: real list. probs \<noteq> [] \<longrightarrow> 0 < length probs" by simp
  moreover have "passed_candidates ?v \<noteq> []" by code_simp
  ultimately have "parent \<noteq> None" using parent_has_passed[OF _ *] by blast
  with * show ?thesis by blast
qed

section \<open>Inspirations\<close>

text \<open>A choice that extends a list with new candidates from a source, of which it repeats none.\<close>

definition extends_from :: "candidate list \<Rightarrow> string set \<Rightarrow> candidate list \<Rightarrow> candidate list \<Rightarrow> bool" where
  "extends_from source seen chosen result \<longleftrightarrow>
     (\<exists>new. result = chosen @ new \<and> set new \<subseteq> set source \<and> distinct (map ca_id new)
        \<and> ca_id ` set new \<inter> seen = {})"

lemma take_new_extends: "extends_from cs seen chosen (take_new limit seen chosen cs)"
proof (induction cs arbitrary: seen chosen)
  case (Cons c cs)
  show ?case
  proof (cases "limit \<le> int (length chosen)")
    case True
    then show ?thesis by (simp add: extends_from_def)
  next
    case False
    show ?thesis
    proof (cases "ca_id c \<in> seen")
      case True
      with False Cons[of seen chosen] show ?thesis by (auto simp: extends_from_def)
    next
      case new: False
      obtain ys where "take_new limit (insert (ca_id c) seen) (chosen @ [c]) cs = (chosen @ [c]) @ ys"
          "set ys \<subseteq> set cs" "distinct (map ca_id ys)" "ca_id ` set ys \<inter> insert (ca_id c) seen = {}"
        using Cons[of "insert (ca_id c) seen" "chosen @ [c]"] by (auto simp: extends_from_def)
      with False new show ?thesis
        unfolding extends_from_def by (intro exI[of _ "c # ys"]) auto
    qed
  qed
qed (simp add: extends_from_def)

lemma take_new_length: "int (length (take_new limit seen chosen cs)) \<le> max limit (int (length chosen))"
proof (induction cs arbitrary: seen chosen)
  case (Cons c cs)
  show ?case using Cons[of seen chosen] Cons[of "insert (ca_id c) seen" "chosen @ [c]"] by auto
qed simp

lemma pop_nth:
  assumes "i < length xs"
  shows "mset xs = add_mset (xs ! i) (mset (take i xs @ drop (Suc i) xs))"
proof -
  have "mset xs = mset (take i xs @ xs ! i # drop (Suc i) xs)" using assms by (simp add: id_take_nth_drop[symmetric])
  then show ?thesis by simp
qed

lemma take_random_extends:
  assumes "\<forall>k n. 0 < n \<longrightarrow> pick k n < n" "distinct (map ca_id remaining)" "length remaining \<le> fuel"
  shows "(\<exists>new. take_random pick limit k fuel chosen remaining = chosen @ new
            \<and> set new \<subseteq> set remaining \<and> distinct (map ca_id new))
       \<and> (int (length chosen) \<le> limit \<longrightarrow>
            int (length (take_random pick limit k fuel chosen remaining))
              = min limit (int (length chosen + length remaining)))"
  using assms(2,3)
proof (induction fuel arbitrary: k chosen remaining)
  case (Suc fuel)
  show ?case
  proof (cases "limit \<le> int (length chosen) \<or> remaining = []")
    case True
    then show ?thesis by auto
  next
    case False
    define i where "i = pick k (length remaining)"
    define x where "x = remaining ! i"
    define rest where "rest = take i remaining @ drop (Suc i) remaining"
    have i: "i < length remaining" using False assms(1) by (simp add: i_def)
    have "mset (map ca_id remaining) = mset (map ca_id (x # rest))"
      using arg_cong[OF pop_nth[OF i], of "image_mset ca_id"] by (simp add: x_def rest_def)
    then have ids: "distinct (map ca_id (x # rest))"
      using Suc.prems(1) mset_eq_imp_distinct_iff by blast
    have len: "length remaining = Suc (length rest)" using i by (simp add: rest_def)
    have sub: "set rest \<subseteq> set remaining" "x \<in> set remaining"
      using i by (auto simp: rest_def x_def dest: in_set_takeD in_set_dropD)
    have eq: "take_random pick limit k (Suc fuel) chosen remaining
        = take_random pick limit (Suc k) fuel (chosen @ [x]) rest"
      using False by (simp add: Let_def i_def x_def rest_def)
    have "distinct (map ca_id rest)" "length rest \<le> fuel" using ids len Suc.prems(2) by auto
    note ih = Suc.IH[OF this, of "Suc k" "chosen @ [x]"]
    obtain new where new: "take_random pick limit (Suc k) fuel (chosen @ [x]) rest = (chosen @ [x]) @ new"
        "set new \<subseteq> set rest" "distinct (map ca_id new)"
      using conjunct1[OF ih] by blast
    have "ca_id x \<notin> ca_id ` set new" using new(2) ids by auto
    then have "take_random pick limit k (Suc fuel) chosen remaining = chosen @ (x # new)
        \<and> set (x # new) \<subseteq> set remaining \<and> distinct (map ca_id (x # new))"
      using new sub unfolding eq by auto
    moreover have "int (length (take_random pick limit k (Suc fuel) chosen remaining))
        = min limit (int (length chosen + length remaining))"
      using conjunct2[OF ih] False len unfolding eq by simp
    ultimately show ?thesis by blast
  qed
qed simp

lemma choose_archive_ok:
  assumes "\<forall>k n. 0 < n \<longrightarrow> pick k n < n" "distinct (map ca_id scope)"
  shows "distinct (map ca_id (choose_archive cfg pick parent scope))
     \<and> ca_id parent \<notin> ca_id ` set (choose_archive cfg pick parent scope)
     \<and> set (choose_archive cfg pick parent scope) \<subseteq> set scope
     \<and> int (length (choose_archive cfg pick parent scope))
         = min (max 0 (num_archive_inspirations cfg)) (int (length (filter (\<lambda>c. ca_id c \<noteq> ca_id parent) scope)))"
proof (cases "scope = [] \<or> num_archive_inspirations cfg \<le> 0")
  case True
  then show ?thesis by (auto simp: choose_archive_def Let_def split: option.splits)
next
  case False
  let ?n = "num_archive_inspirations cfg"
  obtain best where some: "max_by fitness scope = Some best"
    using False by (cases "max_by fitness scope") auto
  note best = some max_by_SomeD(1)[OF some]
  define start where "start = (if ca_id best = ca_id parent then [] else [best])"
  define elites where "elites = take_new (min ?n (1 + num_elites cfg))
      (insert (ca_id parent) (ca_id ` set start)) start (sort_key (\<lambda>c. - fitness c) scope)"
  define rest where "rest = filter (\<lambda>c. ca_id c \<notin> insert (ca_id parent) (ca_id ` set elites)) scope"
  have eq: "choose_archive cfg pick parent scope = take_random pick ?n 0 (length rest) elites rest"
    using False best(1) by (simp add: choose_archive_def Let_def start_def elites_def rest_def)
  obtain new where new: "elites = start @ new" "set new \<subseteq> set scope" "distinct (map ca_id new)"
      "ca_id ` set new \<inter> insert (ca_id parent) (ca_id ` set start) = {}"
    using take_new_extends[of "sort_key (\<lambda>c. - fitness c) scope" "insert (ca_id parent) (ca_id ` set start)"
      start "min ?n (1 + num_elites cfg)", folded elites_def]
    by (auto simp: extends_from_def)
  have elites: "distinct (map ca_id elites)" "ca_id parent \<notin> ca_id ` set elites" "set elites \<subseteq> set scope"
    using new best(2) by (auto simp: start_def split: if_splits)
  have "0 \<le> num_elites cfg" by (simp add: num_elites_def)
  then have short: "int (length elites) \<le> ?n"
    using take_new_length[of "min ?n (1 + num_elites cfg)" "insert (ca_id parent) (ca_id ` set start)" start] False
    unfolding elites_def by (auto simp: start_def split: if_splits)
  let ?others = "filter (\<lambda>c. ca_id c \<noteq> ca_id parent) scope"
  have rest: "distinct (map ca_id rest)" using assms(2) by (simp add: rest_def distinct_map_filter)
  have "length (filter (\<lambda>c. ca_id c \<in> set (map ca_id elites)) ?others) = length (map ca_id elites)"
  proof (rule length_filter_keys)
    have "set elites \<subseteq> set ?others"
      using elites(2,3) by (auto simp: image_iff subset_iff)
    then show "set (map ca_id elites) \<subseteq> ca_id ` set ?others" by auto
  qed (use elites(1) assms(2) in \<open>simp_all add: distinct_map_filter\<close>)
  moreover have "rest = filter (\<lambda>c. \<not> ca_id c \<in> set (map ca_id elites)) ?others"
    by (auto simp: rest_def intro: filter_cong)
  ultimately have total: "length elites + length rest = length ?others"
    using sum_length_filter_compl[of "\<lambda>c. ca_id c \<in> set (map ca_id elites)" ?others] by simp
  obtain more where more: "take_random pick ?n 0 (length rest) elites rest = elites @ more"
      "set more \<subseteq> set rest" "distinct (map ca_id more)"
    and len: "int (length (take_random pick ?n 0 (length rest) elites rest)) = min ?n (int (length elites + length rest))"
    using take_random_extends[OF assms(1) rest, of "length rest" ?n 0 elites] short by auto
  have "ca_id ` set more \<inter> insert (ca_id parent) (ca_id ` set elites) = {}" "set more \<subseteq> set scope"
    using more(2) by (auto simp: rest_def)
  then show ?thesis
    using elites more len total False unfolding eq by auto
qed

lemma scopes_ok:
  assumes "distinct_ids p"
  shows "distinct (map ca_id (inspiration_scope cfg parent p))" "distinct (map ca_id (archive_scope cfg parent p))"
    and "\<forall>c \<in> set (inspiration_scope cfg parent p). c \<in> set (po_rows p) \<and> passed c"
    and "set (archive_scope cfg parent p) \<subseteq> set (inspiration_scope cfg parent p)"
  using distinct_island_view[OF assms] distinct_all_candidates[OF assms]
  by (auto simp: inspiration_scope_def archive_scope_def passed_candidates_def archive_candidates_def
      distinct_map_filter all_candidates_def)

text \<open>
  The inspirations shown beside a parent fit their slots and repeat nothing: no candidate appears
  twice, the parent is never among them, the archive route fills exactly as many of its slots as there
  are other archive members, the top route stays within its slots, and everything shown has passed,
  unless the inspiration policy named it.
\<close>

theorem inspirations_fit_their_slots:
  assumes "\<forall>k n. 0 < n \<longrightarrow> pick k n < n" and "distinct_ids p"
    and "d = sample_inspirations cfg policy pick parent p"
  shows "distinct (map ca_id (all_inspirations d)) \<and> ca_id parent \<notin> ca_id ` set (all_inspirations d)
       \<and> int (length (id_archive d)) = min (max 0 (num_archive_inspirations cfg))
           (int (length (filter (\<lambda>c. ca_id c \<noteq> ca_id parent) (archive_scope cfg parent p))))
       \<and> int (length (id_top_k d)) \<le> max 0 (num_top_k_inspirations cfg)
       \<and> (\<forall>c \<in> set (all_inspirations d). c \<in> set (po_rows p) \<and> passed c
            \<or> (\<exists>f why. policy = Some f \<and> f parent (inspiration_scope cfg parent p) = Some (c, why)))"
proof -
  note scopes = scopes_ok[OF assms(2), where cfg = cfg and parent = parent]
  define scope where "scope = inspiration_scope cfg parent p"
  define chosen where "chosen = choose_archive cfg pick parent (archive_scope cfg parent p)"
  note arch = choose_archive_ok[OF assms(1) scopes(2), where cfg = cfg and parent = parent, folded chosen_def]
  define seen where "seen = insert (ca_id parent) (ca_id ` set chosen)"
  define top where "top = choose_top_k cfg seen scope"
  have top: "distinct (map ca_id top)" "ca_id ` set top \<inter> seen = {}" "set top \<subseteq> set scope"
      "int (length top) \<le> max 0 (num_top_k_inspirations cfg)"
    using take_new_extends[of "sort_key (\<lambda>c. - fitness c) scope" seen "[]" "num_top_k_inspirations cfg"]
      take_new_length[of "num_top_k_inspirations cfg" seen "[]" "sort_key (\<lambda>c. - fitness c) scope"]
    by (auto simp: top_def choose_top_k_def extends_from_def)
  let ?plain = "\<lparr>id_archive = chosen, id_top_k = top, id_notes = []\<rparr>"
  have members: "\<forall>c \<in> set (chosen @ top). c \<in> set (po_rows p) \<and> passed c"
    using arch top(3) scopes(3,4) by (auto simp: scope_def)
  have d: "d = ?plain \<or> (\<exists>c why f. policy = Some f \<and> f parent scope = Some (c, why)
      \<and> id_archive d = chosen \<and> (id_top_k d = top \<or> top \<noteq> [] \<and> id_top_k d = butlast top @ [c]
        \<and> ca_id c \<notin> insert (ca_id parent) (ca_id ` set (chosen @ top))))"
    unfolding assms(3) sample_inspirations_def Let_def apply_policy_def
      scope_def[symmetric] chosen_def[symmetric] seen_def[symmetric] top_def[symmetric]
    by (auto split: option.splits)
  have plain: "distinct (map ca_id (chosen @ top)) \<and> ca_id parent \<notin> ca_id ` set (chosen @ top)"
    using arch top(1,2) by (auto simp: seen_def)
  from d show ?thesis
  proof (elim disjE exE conjE)
    assume "d = ?plain"
    then show ?thesis using plain arch top members by (simp add: all_inspirations_def)
  next
    fix c why f
    assume "policy = Some f" "f parent scope = Some (c, why)" "id_archive d = chosen" "id_top_k d = top"
    then show ?thesis using plain arch top members by (simp add: all_inspirations_def)
  next
    fix c why f
    assume c: "policy = Some f" "f parent scope = Some (c, why)" "id_archive d = chosen" "top \<noteq> []"
      "id_top_k d = butlast top @ [c]" "ca_id c \<notin> insert (ca_id parent) (ca_id ` set (chosen @ top))"
    obtain xs x where xs: "top = xs @ [x]" using c(4) by (metis append_butlast_last_id)
    show ?thesis
      using plain arch top members c xs by (auto simp: all_inspirations_def scope_def)
  qed
qed

theorem inspirations_fit_their_slots_witness:
  "\<exists>d. d = sample_inspirations default_population_config None (\<lambda>_ _. 0) (sample_candidate ''a'' 1 0 3)
        \<lparr>po_cfg = default_population_config, po_readonly = False,
         po_rows = [sample_candidate ''a'' 1 0 3, sample_candidate ''b'' 1 0 2]\<rparr>
     \<and> ''a'' \<notin> ca_id ` set (all_inspirations d) \<and> length (id_top_k d) \<le> 1"
proof -
  let ?p = "\<lparr>po_cfg = default_population_config, po_readonly = False,
         po_rows = [sample_candidate ''a'' 1 0 3, sample_candidate ''b'' 1 0 2]\<rparr>"
  have "distinct_ids ?p" by code_simp
  from inspirations_fit_their_slots[OF _ this refl, of "\<lambda>_ _. 0" default_population_config None "sample_candidate ''a'' 1 0 3"]
  show ?thesis by (simp add: sample_candidate_def default_population_config_def)
qed

end
