(* ===== verification/Regex.thy ===== *)
theory Regex
  imports Prelude
begin

text \<open>
  The part of Python's \<open>re\<close> the code uses: a backtracking matcher. The engine works on a text split in
  two, what was read (reversed) and what is left, and on the groups captured so far. \<open>runs r s\<close> lists,
  in the order the engine tries them, the states in which \<open>r\<close> can leave the state \<open>s\<close>; the first of
  them is the match. Repetition is only ever applied to a character class.

  The lemmas say that an expression consumes a piece of the text, and that a match passes over the
  literals of its expression.
\<close>

section \<open>Expressions\<close>

type_synonym rx_state = "string \<times> string \<times> (nat \<times> string \<times> string) list"

datatype rx =
  Eps
| One "char \<Rightarrow> bool"
| Lit string
| Then rx rx
| Or rx rx
| Many "char \<Rightarrow> bool"
| Lazy "char \<Rightarrow> bool"
| Group nat rx
| LineStart
| LineEnd

definition maybe :: "rx \<Rightarrow> rx" where
  "maybe r = Or r Eps"

definition many1 :: "(char \<Rightarrow> bool) \<Rightarrow> rx" where
  "many1 p = Then (One p) (Many p)"

fun seq :: "rx list \<Rightarrow> rx" where
  "seq [] = Eps"
| "seq [r] = r"
| "seq (r # rs) = Then r (seq rs)"

fun read_lit :: "string \<Rightarrow> rx_state \<Rightarrow> rx_state list" where
  "read_lit [] s = [s]"
| "read_lit (w # ws) (past, [], g) = []"
| "read_lit (w # ws) (past, c # cs, g) = (if c = w then read_lit ws (c # past, cs, g) else [])"

fun greedy :: "(char \<Rightarrow> bool) \<Rightarrow> string \<Rightarrow> string \<Rightarrow> (nat \<times> string \<times> string) list \<Rightarrow> rx_state list" where
  "greedy p past [] g = [(past, [], g)]"
| "greedy p past (c # cs) g =
     (if p c then greedy p (c # past) cs g else []) @ [(past, c # cs, g)]"

fun reluctant :: "(char \<Rightarrow> bool) \<Rightarrow> string \<Rightarrow> string \<Rightarrow> (nat \<times> string \<times> string) list \<Rightarrow> rx_state list" where
  "reluctant p past [] g = [(past, [], g)]"
| "reluctant p past (c # cs) g =
     (past, c # cs, g) # (if p c then reluctant p (c # past) cs g else [])"

fun one_char :: "(char \<Rightarrow> bool) \<Rightarrow> rx_state \<Rightarrow> rx_state list" where
  "one_char p (past, [], g) = []"
| "one_char p (past, c # cs, g) = (if p c then [(c # past, cs, g)] else [])"

text \<open>A captured group is kept as what had been read when it began and when it ended.\<close>

definition capture :: "nat \<Rightarrow> string \<Rightarrow> rx_state \<Rightarrow> rx_state" where
  "capture k start s = (case s of (past, rest, g) \<Rightarrow> (past, rest, (k, start, past) # g))"

fun runs :: "rx \<Rightarrow> rx_state \<Rightarrow> rx_state list" where
  "runs Eps s = [s]"
| "runs (One p) s = one_char p s"
| "runs (Lit w) s = read_lit w s"
| "runs (Then a b) s = concat (map (runs b) (runs a s))"
| "runs (Or a b) s = runs a s @ runs b s"
| "runs (Many p) (past, rest, g) = greedy p past rest g"
| "runs (Lazy p) (past, rest, g) = reluctant p past rest g"
| "runs (Group k a) (past, rest, g) = map (capture k past) (runs a (past, rest, g))"
| "runs LineStart (past, rest, g) =
     (if past = [] \<or> hd past = CHR 0x0A then [(past, rest, g)] else [])"
| "runs LineEnd (past, rest, g) =
     (if rest = [] \<or> hd rest = CHR 0x0A then [(past, rest, g)] else [])"

text \<open>\<open>finditer\<close>: the leftmost match, and then the next one from the end of each match.\<close>

record rx_match =
  rm_start :: nat
  rm_end :: nat
  rm_groups :: "(nat \<times> string \<times> string) list"

fun matches_from :: "nat \<Rightarrow> rx \<Rightarrow> string \<Rightarrow> string \<Rightarrow> rx_match list" where
  "matches_from 0 r past rest = []"
| "matches_from (Suc n) r past rest =
     (case runs r (past, rest, []) of
        (past', rest', g) # _ \<Rightarrow>
          \<lparr>rm_start = length past, rm_end = length past', rm_groups = g\<rparr>
          # (if rest' \<noteq> rest then matches_from n r past' rest'
             else case rest of [] \<Rightarrow> [] | c # cs \<Rightarrow> matches_from n r (c # past) cs)
      | [] \<Rightarrow> (case rest of [] \<Rightarrow> [] | c # cs \<Rightarrow> matches_from n r (c # past) cs))"

definition find_iter :: "rx \<Rightarrow> string \<Rightarrow> rx_match list" where
  "find_iter r t = matches_from (Suc (length t)) r [] t"

definition rx_search :: "rx \<Rightarrow> string \<Rightarrow> rx_match option" where
  "rx_search r t = (case find_iter r t of [] \<Rightarrow> None | m # _ \<Rightarrow> Some m)"

definition group :: "rx_match \<Rightarrow> nat \<Rightarrow> string" where
  "group m k =
     (case map_of (rm_groups m) k of
        None \<Rightarrow> []
      | Some (start, past) \<Rightarrow> rev (take (length past - length start) past))"

section \<open>Character classes and substrings\<close>

definition spaces :: rx where
  "spaces = Many py_space"

definition not_newline :: "char \<Rightarrow> bool" where
  "not_newline c \<longleftrightarrow> c \<noteq> CHR 0x0A"

text \<open>\<open>str.find\<close> and the substring test.\<close>

fun has_prefix :: "string \<Rightarrow> string \<Rightarrow> bool" where
  "has_prefix [] t = True"
| "has_prefix (w # ws) [] = False"
| "has_prefix (w # ws) (c # cs) = (w = c \<and> has_prefix ws cs)"

fun find_sub :: "string \<Rightarrow> string \<Rightarrow> nat option" where
  "find_sub w [] = (if w = [] then Some 0 else None)"
| "find_sub w (c # cs) = (if has_prefix w (c # cs) then Some 0 else map_option Suc (find_sub w cs))"

definition occurs_in :: "string \<Rightarrow> string \<Rightarrow> bool" where
  "occurs_in w t \<longleftrightarrow> find_sub w t \<noteq> None"

section \<open>What a match consumes\<close>

text \<open>\<open>s'\<close> has read the piece \<open>w\<close> after \<open>s\<close>.\<close>

definition reads :: "string \<Rightarrow> rx_state \<Rightarrow> rx_state \<Rightarrow> bool" where
  "reads w s s' \<longleftrightarrow> fst s' = rev w @ fst s \<and> fst (snd s) = w @ fst (snd s')"

definition consumes :: "rx_state \<Rightarrow> rx_state \<Rightarrow> bool" where
  "consumes s s' \<longleftrightarrow> (\<exists>w. reads w s s')"

lemma consumes_refl [simp]: "consumes s s"
  by (simp add: consumes_def reads_def)

lemma consumes_trans: "consumes s u \<Longrightarrow> consumes u s' \<Longrightarrow> consumes s s'"
  unfolding consumes_def reads_def by (metis append_assoc rev_append)

lemma reads_lit: "s' \<in> set (read_lit w s) \<Longrightarrow> reads w s s'"
  by (induction w s rule: read_lit.induct) (auto simp: reads_def split: if_splits)

lemma consumes_char: "consumes (c # past, cs, g) s' \<Longrightarrow> consumes (past, c # cs, g) s'"
proof -
  assume "consumes (c # past, cs, g) s'"
  then obtain w where "reads w (c # past, cs, g) s'" by (auto simp: consumes_def)
  then have "reads (c # w) (past, c # cs, g) s'" by (simp add: reads_def)
  then show ?thesis unfolding consumes_def by blast
qed

lemma greedy_consumes: "s' \<in> set (greedy p past rest g) \<Longrightarrow> consumes (past, rest, g) s'"
  by (induction p past rest g rule: greedy.induct) (auto intro: consumes_char split: if_splits)

lemma reluctant_consumes: "s' \<in> set (reluctant p past rest g) \<Longrightarrow> consumes (past, rest, g) s'"
  by (induction p past rest g rule: reluctant.induct) (auto intro: consumes_char split: if_splits)

lemma one_char_consumes: "s' \<in> set (one_char p s) \<Longrightarrow> consumes s s'"
  by (induction p s rule: one_char.induct) (auto intro: consumes_char split: if_splits)

lemma consumes_capture: "consumes s s' \<Longrightarrow> consumes s (capture k past s')"
  by (cases s') (simp add: consumes_def reads_def capture_def)

lemma runs_consumes: "s' \<in> set (runs r s) \<Longrightarrow> consumes s s'"
proof (induction r arbitrary: s s')
  case (Then a b)
  then obtain u where "u \<in> set (runs a s)" "s' \<in> set (runs b u)" by auto
  with Then.IH show ?case by (blast intro: consumes_trans)
next
  case (Group k a)
  obtain past rest g where s: "s = (past, rest, g)" by (cases s)
  from Group.prems obtain u where "u \<in> set (runs a s)" "s' = capture k past u" by (auto simp: s)
  then show ?case using Group.IH[of u s] consumes_capture by simp
next
  case (Lit w)
  then have "reads w s s'" by (simp add: reads_lit)
  then show ?case unfolding consumes_def by blast
qed (cases s; auto intro: one_char_consumes greedy_consumes reluctant_consumes split: if_splits)+

text \<open>Where an expression is built around a literal, its match passes over the literal.\<close>

lemma runs_around_literal:
  assumes "s' \<in> set (runs (Then a (Then (Lit w) b)) s)"
  shows "\<exists>u v. consumes s u \<and> reads w u v \<and> consumes v s'"
proof -
  obtain u v where "u \<in> set (runs a s)" "v \<in> set (read_lit w u)" "s' \<in> set (runs b v)"
    using assms by auto
  with runs_consumes reads_lit show ?thesis by blast
qed

definition occurs_at :: "string \<Rightarrow> string \<Rightarrow> nat \<Rightarrow> bool" where
  "occurs_at w t i \<longleftrightarrow> (\<exists>xs ys. t = xs @ w @ ys \<and> length xs = i)"

text \<open>Every match of \<open>find_iter\<close> comes from a run at a split of the text.\<close>

lemma matches_from_member:
  assumes "m \<in> set (matches_from n r past rest)"
  shows "\<exists>b e s'. rev b @ e = rev past @ rest \<and> s' \<in> set (runs r (b, e, []))
       \<and> rm_start m = length b \<and> rm_end m = length (fst s')"
  using assms
proof (induction n arbitrary: past rest)
  case (Suc n)
  have next_char: ?case if "m \<in> set (case rest of [] \<Rightarrow> [] | c # cs \<Rightarrow> matches_from n r (c # past) cs)"
    using that Suc.IH by (cases rest) fastforce+
  show ?case
  proof (cases "runs r (past, rest, [])")
    case Nil
    with Suc.prems next_char show ?thesis by simp
  next
    case (Cons s' ss)
    obtain past' rest' g where s': "s' = (past', rest', g)" by (cases s')
    have run: "s' \<in> set (runs r (past, rest, []))" using Cons by simp
    consider "m = \<lparr>rm_start = length past, rm_end = length past', rm_groups = g\<rparr>"
      | "m \<in> set (matches_from n r past' rest')"
      | "m \<in> set (case rest of [] \<Rightarrow> [] | c # cs \<Rightarrow> matches_from n r (c # past) cs)"
      using Suc.prems Cons s' by (auto split: if_splits)
    then show ?thesis
    proof cases
      case 1
      with run s' show ?thesis by (intro exI[of _ past] exI[of _ rest] exI[of _ s']) simp
    next
      case 2
      have "rev past' @ rest' = rev past @ rest"
        using runs_consumes[OF run] by (auto simp: s' consumes_def reads_def)
      with Suc.IH[OF 2] show ?thesis by simp
    qed (rule next_char)
  qed
qed simp

lemma find_iter_around_literal:
  assumes "m \<in> set (find_iter (Then a (Then (Lit w) b)) t)"
  shows "\<exists>k. rm_start m \<le> k \<and> occurs_at w t k \<and> k + length w \<le> rm_end m"
proof -
  obtain l e s' where m: "rev l @ e = t" "s' \<in> set (runs (Then a (Then (Lit w) b)) (l, e, []))"
      "rm_start m = length l" "rm_end m = length (fst s')"
    using matches_from_member[OF assms[unfolded find_iter_def]] by (elim exE conjE) (rule that, simp_all)
  obtain u v x y where "reads x (l, e, []) u" "reads w u v" "reads y v s'"
    using runs_around_literal[OF m(2)] by (auto simp: consumes_def)
  then have "t = (rev l @ x) @ w @ (y @ fst (snd s'))" "length (fst s') = length l + length x + length w + length y"
    using m(1) by (auto simp: reads_def)
  moreover from this have "occurs_at w t (length (rev l @ x))" unfolding occurs_at_def by blast
  ultimately show ?thesis using m(3,4) by (intro exI[of _ "length (rev l @ x)"]) simp
qed

lemma has_prefix_iff: "has_prefix w t \<longleftrightarrow> (\<exists>ys. t = w @ ys)"
  by (induction w t rule: has_prefix.induct) auto

lemma find_sub_occurs: "find_sub w t = Some i \<Longrightarrow> occurs_at w t i"
proof (induction t arbitrary: i)
  case (Cons c cs)
  show ?case
  proof (cases "has_prefix w (c # cs)")
    case True
    with Cons.prems show ?thesis by (auto simp: occurs_at_def has_prefix_iff)
  next
    case False
    with Cons.prems obtain j where j: "find_sub w cs = Some j" "i = Suc j" by auto
    from Cons.IH[OF j(1)] obtain xs ys where "cs = xs @ w @ ys" "length xs = j" by (auto simp: occurs_at_def)
    then show ?thesis unfolding occurs_at_def using j(2) by (intro exI[of _ "c # xs"] exI[of _ ys]) simp
  qed
qed (auto simp: occurs_at_def split: if_splits)

lemma occurs_at_prefix:
  assumes "occurs_at w (P @ r) k" "k + length w \<le> length P"
  shows "occurs_at w P k"
proof -
  obtain xs ys where t: "P @ r = xs @ w @ ys" "length xs = k" using assms(1) by (auto simp: occurs_at_def)
  have "P = take (length P) (xs @ w @ ys)" using t(1) by (metis append_eq_conv_conj)
  also have "\<dots> = xs @ w @ take (length P - k - length w) ys" using assms(2) t(2) by simp
  finally show ?thesis using t(2) unfolding occurs_at_def by blast
qed

lemma occurs_at_suffix:
  assumes "occurs_at w (r @ S) k" "length r \<le> k"
  shows "occurs_at w S (k - length r)"
proof -
  obtain xs ys where t: "r @ S = xs @ w @ ys" "length xs = k" using assms(1) by (auto simp: occurs_at_def)
  have "S = drop (length r) (xs @ w @ ys)" using t(1) by (metis append_eq_conv_conj)
  also have "\<dots> = drop (length r) xs @ w @ ys" using assms(2) t(2) by simp
  finally show ?thesis using t(2) unfolding occurs_at_def by (intro exI[of _ "drop (length r) xs"] exI[of _ ys]) simp
qed

lemma occurs_at_find:
  assumes "occurs_at w t k"
  shows "find_sub w t \<noteq> None"
  using assms
proof (induction t arbitrary: k)
  case Nil
  then show ?case by (auto simp: occurs_at_def)
next
  case (Cons c cs)
  obtain as bs where t: "c # cs = as @ w @ bs" "length as = k" using Cons.prems unfolding occurs_at_def by blast
  show ?case
  proof (cases as)
    case Nil
    with t have "has_prefix w (c # cs)" by (simp add: has_prefix_iff)
    then show ?thesis by simp
  next
    case (Cons a as')
    with t have "occurs_at w cs (length as')" unfolding occurs_at_def by auto
    from Cons.IH[OF this] show ?thesis by simp
  qed
qed

lemma occurs_in_iff: "occurs_in w t \<longleftrightarrow> (\<exists>k. occurs_at w t k)"
  unfolding occurs_in_def using occurs_at_find find_sub_occurs by blast

text \<open>A text that ends in a character the word does not have has no part of the word at its end.\<close>

lemma occurs_behind:
  assumes "\<not> occurs_in w (xs @ [c])" "c \<notin> set w" "occurs_at w ((xs @ [c]) @ zs) k"
  shows "length (xs @ [c]) \<le> k"
proof (rule ccontr)
  assume k: "\<not> length (xs @ [c]) \<le> k"
  have "\<not> k + length w \<le> length (xs @ [c])"
    using occurs_at_prefix[OF assms(3)] assms(1) by (auto simp: occurs_in_iff)
  moreover obtain as bs where t: "(xs @ [c]) @ zs = as @ w @ bs" "length as = k"
    using assms(3) unfolding occurs_at_def by blast
  have "((xs @ [c]) @ zs) ! length xs = c" by simp
  then have "(as @ w @ bs) ! length xs = c" unfolding t(1) .
  ultimately have "w ! (length xs - k) = c" "length xs - k < length w"
    using k t(2) by (auto simp: nth_append split: if_splits)
  with assms(2) show False by (metis nth_mem)
qed

lemma find_sub_first:
  assumes "\<And>k. occurs_at w (xs @ w @ ys) k \<Longrightarrow> length xs \<le> k"
  shows "find_sub w (xs @ w @ ys) = Some (length xs)"
  using assms
proof (induction xs)
  case Nil
  have "has_prefix w (w @ ys)" by (simp add: has_prefix_iff)
  then show ?case by (cases "w @ ys") (auto simp: has_prefix_iff)
next
  case (Cons c xs)
  have "\<not> has_prefix w (c # xs @ w @ ys)"
    using Cons.prems[of 0] by (auto simp: has_prefix_iff occurs_at_def)
  moreover have "length xs \<le> k" if "occurs_at w (xs @ w @ ys) k" for k
  proof -
    from that have "\<exists>as bs. xs @ w @ ys = as @ w @ bs \<and> length as = k" by (simp add: occurs_at_def)
    then obtain as bs where "xs @ w @ ys = as @ w @ bs" "length as = k" by blast
    then have "occurs_at w ((c # xs) @ w @ ys) (Suc k)"
      unfolding occurs_at_def by (intro exI[of _ "c # as"] exI[of _ bs]) simp
    from Cons.prems[OF this] show ?thesis by simp
  qed
  ultimately show ?case using Cons.IH by simp
qed

lemma occurs_at_middle: "occurs_at w (xs @ w @ ys) (length xs)"
  unfolding occurs_at_def by blast

lemma find_sub_behind:
  assumes "\<not> occurs_in w (xs @ [c])" "c \<notin> set w"
  shows "find_sub w ((xs @ [c]) @ w @ ys) = Some (length xs + 1)"
  using find_sub_first[of w "xs @ [c]" ys] occurs_behind[OF assms, of "w @ ys"] by simp

lemma find_sub_least: "find_sub w t = Some i \<Longrightarrow> occurs_at w t k \<Longrightarrow> i \<le> k"
proof (induction t arbitrary: i k)
  case (Cons c cs)
  show ?case
  proof (cases "has_prefix w (c # cs)")
    case False
    with Cons.prems(1) obtain j where j: "find_sub w cs = Some j" "i = Suc j" by auto
    from Cons.prems(2) have "\<exists>as bs. c # cs = as @ w @ bs \<and> length as = k" unfolding occurs_at_def by blast
    then obtain as bs where t: "c # cs = as @ w @ bs" "length as = k" by blast
    with False have "as \<noteq> []" by (auto simp: has_prefix_iff)
    then obtain a as' where "as = a # as'" by (cases as) auto
    with t have "occurs_at w cs (k - 1)" "0 < k" unfolding occurs_at_def by auto
    with Cons.IH[OF j(1)] j(2) show ?thesis by fastforce
  qed (use Cons.prems in simp)
qed (auto split: if_splits)

lemma find_sub_split:
  assumes "find_sub w t = Some i"
  shows "t = take i t @ w @ drop (i + length w) t" "w \<noteq> [] \<Longrightarrow> \<not> occurs_in w (take i t)"
proof -
  from find_sub_occurs[OF assms] have "\<exists>xs ys. t = xs @ w @ ys \<and> length xs = i" by (simp add: occurs_at_def)
  then obtain xs ys where t: "t = xs @ w @ ys" "length xs = i" by blast
  then show split: "t = take i t @ w @ drop (i + length w) t" by simp
  show "\<not> occurs_in w (take i t)" if "w \<noteq> []"
  proof
    assume "occurs_in w (take i t)"
    then obtain k where k: "occurs_at w (take i t) k" by (auto simp: occurs_in_iff)
    from k have "\<exists>as bs. take i t = as @ w @ bs \<and> length as = k" unfolding occurs_at_def by blast
    then obtain as bs where a: "take i t = as @ w @ bs" "length as = k" by blast
    then have "occurs_at w t k" using split unfolding occurs_at_def by (metis append.assoc)
    from find_sub_least[OF assms this] have "i \<le> k" .
    moreover have "k + length w \<le> i" using a t by (metis add.assoc append_eq_conv_conj le_add1 length_append t(2))
    ultimately show False using that by (cases w) simp_all
  qed
qed

end
