(* ===== verification/Patch.thy ===== *)
theory Patch
  imports Regex "HOL-Library.Product_Lexorder"
begin

text \<open>
  The patch engine of the mutation operators (\<open>src/evoharness/core/operators.py\<close>): the markers of the
  editable regions, the parsing of a model's answer, and the application of patch blocks. The closest
  block of \<open>difflib\<close>, which only enriches an error message, is an argument. An error message is a
  constructor of \<open>patch_error\<close>.

  The lemmas show that no answer of a model changes the text before the first region or behind the
  last one, and that an answer can change the text between two regions.
\<close>

section \<open>Editable regions\<close>

definition begin_marker :: string where
  "begin_marker = ''EDIT-REGION-BEGIN''"

definition end_marker :: string where
  "end_marker = ''EDIT-REGION-END''"

definition inline_space :: "char \<Rightarrow> bool" where
  "inline_space c \<longleftrightarrow> py_space c \<and> c \<noteq> CHR 0x0D \<and> c \<noteq> CHR 0x0A"

definition comment_open :: rx where
  "comment_open = maybe (Or (Lit ''#'') (Or (Lit ''//'') (Or (Lit ''!'') (Or (Lit ''<!--'') (Lit ''(*'')))))"

definition comment_close :: rx where
  "comment_close = maybe (Or (Lit ''-->'') (Lit ''*)''))"

definition marker_rx :: "string \<Rightarrow> rx" where
  "marker_rx w = Then (Then comment_open (Many inline_space))
     (Then (Lit w) (Then (Many inline_space) comment_close))"

definition edit_begin :: rx where
  "edit_begin = marker_rx begin_marker"

definition edit_end :: rx where
  "edit_end = marker_rx end_marker"

text \<open>Events sorted by position, a begin (0) before an end (1) of the same position.\<close>

definition region_events :: "string \<Rightarrow> (nat \<times> nat) list" where
  "region_events t =
     sort (map (\<lambda>m. (rm_end m, 0)) (find_iter edit_begin t) @ map (\<lambda>m. (rm_start m, 1)) (find_iter edit_end t))"

fun pair_regions :: "nat list \<Rightarrow> (nat \<times> nat) list \<Rightarrow> (nat \<times> nat) list" where
  "pair_regions stack [] = []"
| "pair_regions stack ((pos, kind) # evs) =
     (if kind = 0 then pair_regions (pos # stack) evs
      else case stack of
             [] \<Rightarrow> pair_regions [] evs
           | start # rest \<Rightarrow> (start, pos) # pair_regions rest evs)"

definition editable_ranges :: "string \<Rightarrow> (nat \<times> nat) list" where
  "editable_ranges t = pair_regions [] (region_events t)"

datatype patch_error =
  MissingMarkers
| UnbalancedMarkers nat nat
| NoPatchBlocks
| EmptyOriginal
| OriginalNotFound "string option"
| OutsideRegion
| MarkersCorrupted patch_error
| NoCodeBlock

definition validate_edit_markers :: "string \<Rightarrow> patch_error option" where
  "validate_edit_markers t =
     (let n_begin = length (find_iter edit_begin t); n_end = length (find_iter edit_end t) in
      if n_begin = 0 \<or> n_end = 0 then Some MissingMarkers
      else if n_begin \<noteq> n_end then Some (UnbalancedMarkers n_begin n_end)
      else None)"

section \<open>Reading an answer\<close>

definition any_text :: rx where
  "any_text = Lazy (\<lambda>_. True)"

definition patch_pattern :: rx where
  "patch_pattern = seq
     [Lit (replicate 7 CHR ''<''), spaces, Lit ''ORIGINAL'', spaces, Lit nl, Group 1 any_text, Lit nl, spaces,
      Lit (replicate 7 CHR ''=''), spaces, Lit nl, Group 2 any_text, Lit nl, spaces,
      Lit (replicate 7 CHR ''>''), spaces, Lit ''UPDATED'', spaces]"

definition patch_blocks :: "string \<Rightarrow> (string \<times> string) list" where
  "patch_blocks t = map (\<lambda>m. (group m 1, group m 2)) (find_iter patch_pattern t)"

definition header_rx :: "string \<Rightarrow> rx" where
  "header_rx w = seq [LineStart, spaces, Lit w, spaces, Group 1 (many1 not_newline), LineEnd]"

definition header_field :: "string \<Rightarrow> string \<Rightarrow> string" where
  "header_field w t =
     (case rx_search (header_rx w) t of None \<Rightarrow> [] | Some m \<Rightarrow> strip (group m 1))"

definition parse_change_header :: "string \<Rightarrow> string \<times> string" where
  "parse_change_header t = (header_field ''TITLE:'' t, header_field ''SUMMARY:'' t)"

definition word_char :: "char \<Rightarrow> bool" where
  "word_char c \<longleftrightarrow>
     (let n = of_char c :: nat in
      48 \<le> n \<and> n \<le> 57 \<or> 65 \<le> n \<and> n \<le> 90 \<or> 97 \<le> n \<and> n \<le> 122 \<or> n = 95 \<or> n = 43 \<or> n = 45)"

definition fence :: string where
  "fence = replicate 3 (CHR 0x60)"

definition code_fence :: rx where
  "code_fence = seq [Lit fence, Many word_char, spaces, Lit nl, Group 1 any_text, Lit fence]"

definition strip_newlines :: "string \<Rightarrow> string" where
  "strip_newlines s =
     rev (dropWhile (\<lambda>c. c = CHR 0x0A) (rev (dropWhile (\<lambda>c. c = CHR 0x0A) s)))"

definition extract_code_block :: "string \<Rightarrow> string option" where
  "extract_code_block t =
     (case rev (find_iter code_fence t) of [] \<Rightarrow> None | m # _ \<Rightarrow> Some (strip_newlines (group m 1)))"

text \<open>Files of a multi-file answer; a path that looks like part of the instructions is dropped.\<close>

definition file_block_rx :: rx where
  "file_block_rx = seq
     [LineStart, Lit ''###'', spaces, Lit ''FILE:'', spaces,
      Group 1 (many1 (\<lambda>c. \<not> py_space c)), spaces, Lit nl,
      Lit fence, Many word_char, spaces, Lit nl, Group 2 any_text, Lit fence]"

definition placeholder_chars :: string where
  "placeholder_chars = ''<>{}[]|*?'' @ [CHR 0x22, CHR 0x27]"

definition placeholder_path :: "string \<Rightarrow> bool" where
  "placeholder_path p \<longleftrightarrow>
     (\<exists>c \<in> set p. c \<in> set placeholder_chars) \<or> list_all py_space p \<or> occurs_in ''..'' p"

text \<open>The last component of a POSIX path, without empty and \<open>.\<close> components.\<close>

definition path_name :: "string \<Rightarrow> string" where
  "path_name p =
     (case rev (filter (\<lambda>s. s \<noteq> [] \<and> s \<noteq> ''.'') (split_on (CHR ''/'') p)) of [] \<Rightarrow> [] | s # _ \<Rightarrow> s)"

definition is_usable_path :: "string \<Rightarrow> bool" where
  "is_usable_path p \<longleftrightarrow>
     (if placeholder_path p \<or> startswith p ''/'' then False
      else CHR ''.'' \<in> set (path_name p) \<and> (p = [] \<or> last p \<noteq> CHR ''.''))"

definition with_final_newline :: "string \<Rightarrow> string" where
  "with_final_newline body = (if body \<noteq> [] \<and> last body = CHR 0x0A then body else body @ nl)"

definition parse_file_blocks :: "string \<Rightarrow> (string \<times> string) list" where
  "parse_file_blocks t =
     fold (\<lambda>m files.
        let p = group m 1 in
        if is_usable_path p then AList.update p (with_final_newline (group m 2)) files else files)
       (find_iter file_block_rx t) []"

section \<open>Applying patch blocks\<close>

record patch_outcome =
  new_code :: "string option"
  patch_err :: "patch_error option"
  n_applied :: nat

definition strip_marker_lines :: "string \<Rightarrow> string" where
  "strip_marker_lines block =
     join nl (filter (\<lambda>ln. \<not> occurs_in begin_marker ln \<and> \<not> occurs_in end_marker ln)
       (split_on (CHR 0x0A) block))"

definition indent_of :: "string \<Rightarrow> nat" where
  "indent_of l = length (takeWhile (\<lambda>c. c = CHR '' '') l)"

definition reindent_line :: "int \<Rightarrow> string \<Rightarrow> string" where
  "reindent_line delta l =
     (if strip l = [] then l
      else if 0 \<le> delta then replicate (nat delta) (CHR '' '') @ l
      else drop (min (nat (- delta)) (indent_of l)) l)"

definition reindent :: "int \<Rightarrow> string \<Rightarrow> string" where
  "reindent delta block = join nl (map (reindent_line delta) (split_on (CHR 0x0A) block))"

fun match_shifted ::
  "string \<Rightarrow> string \<Rightarrow> string \<Rightarrow> string \<Rightarrow> string list \<Rightarrow> (nat \<times> string \<times> string) option" where
  "match_shifted t search replace first [] = None"
| "match_shifted t search replace first (line # rest) =
     (if strip line = strip first \<and> indent_of line \<noteq> indent_of first then
        (let delta = int (indent_of line) - int (indent_of first);
             shifted = reindent delta search in
         case find_sub shifted t of
           Some idx \<Rightarrow> Some (idx, shifted, reindent delta replace)
         | None \<Rightarrow> match_shifted t search replace first rest)
      else match_shifted t search replace first rest)"

definition find_indented_match :: "string \<Rightarrow> string \<Rightarrow> string \<Rightarrow> (nat \<times> string \<times> string) option" where
  "find_indented_match t search replace =
     (case find_sub search t of
        Some idx \<Rightarrow> Some (idx, search, replace)
      | None \<Rightarrow>
          (case List.find (\<lambda>ln. strip ln \<noteq> []) (split_on (CHR 0x0A) search) of
             None \<Rightarrow> None
           | Some first \<Rightarrow> match_shifted t search replace first (split_on (CHR 0x0A) t)))"

text \<open>One block: the new text, or the error with which the whole application stops.\<close>

definition apply_block ::
  "(string \<Rightarrow> string \<Rightarrow> string option) \<Rightarrow> string \<Rightarrow> string \<times> string \<Rightarrow> patch_error + string" where
  "apply_block closest t block =
     (let search = strip_marker_lines (fst block); replace = strip_marker_lines (snd block) in
      if strip search = [] then Inl EmptyOriginal
      else case find_indented_match t search replace of
             None \<Rightarrow> Inl (OriginalNotFound (closest t search))
           | Some (idx, found, rep) \<Rightarrow>
               if \<exists>(start, stop) \<in> set (editable_ranges t). start \<le> idx \<and> idx + length found \<le> stop
               then Inr (take idx t @ rep @ drop (idx + length found) t)
               else Inl OutsideRegion)"

fun apply_blocks ::
  "(string \<Rightarrow> string \<Rightarrow> string option) \<Rightarrow> string \<Rightarrow> nat \<Rightarrow> (string \<times> string) list \<Rightarrow> patch_outcome" where
  "apply_blocks closest t applied [] =
     (case validate_edit_markers t of
        Some e \<Rightarrow> \<lparr>new_code = None, patch_err = Some (MarkersCorrupted e), n_applied = applied\<rparr>
      | None \<Rightarrow> \<lparr>new_code = Some t, patch_err = None, n_applied = applied\<rparr>)"
| "apply_blocks closest t applied (block # blocks) =
     (case apply_block closest t block of
        Inl e \<Rightarrow> \<lparr>new_code = None, patch_err = Some e, n_applied = (if e = EmptyOriginal then 0 else applied)\<rparr>
      | Inr t' \<Rightarrow> apply_blocks closest t' (Suc applied) blocks)"

definition apply_patch ::
  "(string \<Rightarrow> string \<Rightarrow> string option) \<Rightarrow> string \<Rightarrow> string \<Rightarrow> patch_outcome" where
  "apply_patch closest original llm_output =
     (let blocks = patch_blocks llm_output in
      if blocks = [] then \<lparr>new_code = None, patch_err = Some NoPatchBlocks, n_applied = 0\<rparr>
      else apply_blocks closest original 0 blocks)"

definition apply_rewrite :: "string \<Rightarrow> patch_outcome" where
  "apply_rewrite llm_output =
     (case extract_code_block llm_output of
        None \<Rightarrow> \<lparr>new_code = None, patch_err = Some NoCodeBlock, n_applied = 0\<rparr>
      | Some code \<Rightarrow>
          (case validate_edit_markers code of
             Some e \<Rightarrow> \<lparr>new_code = None, patch_err = Some e, n_applied = 0\<rparr>
           | None \<Rightarrow> \<lparr>new_code = Some code, patch_err = None, n_applied = 1\<rparr>))"

section \<open>The frame of the program\<close>

lemma pair_regions_member:
  "(start, stop) \<in> set (pair_regions stack evs) \<Longrightarrow>
   (start \<in> set stack \<or> (start, 0) \<in> set evs) \<and> (\<exists>k. k \<noteq> 0 \<and> (stop, k) \<in> set evs)"
  by (induction stack evs rule: pair_regions.induct) (auto split: if_splits list.splits)

lemma editable_ranges_markers:
  assumes "(start, stop) \<in> set (editable_ranges t)"
  shows "\<exists>k. occurs_at begin_marker t k \<and> k + length begin_marker \<le> start"
    and "\<exists>k. occurs_at end_marker t k \<and> stop \<le> k"
proof -
  obtain m m' where "m \<in> set (find_iter edit_begin t)" "start = rm_end m"
      and "m' \<in> set (find_iter edit_end t)" "stop = rm_start m'"
    using pair_regions_member[OF assms[unfolded editable_ranges_def]] by (auto simp: region_events_def)
  then show "\<exists>k. occurs_at begin_marker t k \<and> k + length begin_marker \<le> start"
    and "\<exists>k. occurs_at end_marker t k \<and> stop \<le> k"
    unfolding edit_begin_def edit_end_def marker_rx_def
    using find_iter_around_literal by blast+
qed

text \<open>
  A text up to and with its first begin marker, and a text from its last end marker on.
\<close>

definition opens_region :: "string \<Rightarrow> bool" where
  "opens_region P \<longleftrightarrow> occurs_at begin_marker P (length P - length begin_marker)
     \<and> (\<forall>k. occurs_at begin_marker P k \<longrightarrow> length P \<le> k + length begin_marker)"

definition closes_region :: "string \<Rightarrow> bool" where
  "closes_region S \<longleftrightarrow> occurs_at end_marker S 0 \<and> (\<forall>k. occurs_at end_marker S k \<longrightarrow> k = 0)"

lemma ranges_inside_frame:
  assumes "(start, stop) \<in> set (editable_ranges (P @ M @ S))" "opens_region P" "closes_region S"
  shows "length P \<le> start" "stop \<le> length P + length M"
proof -
  obtain k where k: "occurs_at begin_marker (P @ M @ S) k" "k + length begin_marker \<le> start"
    using editable_ranges_markers(1)[OF assms(1)] by blast
  show "length P \<le> start"
  proof (rule ccontr)
    assume "\<not> length P \<le> start"
    with k have "occurs_at begin_marker P k" by (intro occurs_at_prefix[of _ P "M @ S"]) auto
    with assms(2) k(2) \<open>\<not> length P \<le> start\<close> show False by (auto simp: opens_region_def)
  qed
  obtain j where j: "occurs_at end_marker (P @ M @ S) j" "stop \<le> j"
    using editable_ranges_markers(2)[OF assms(1)] by blast
  show "stop \<le> length P + length M"
  proof (rule ccontr)
    assume "\<not> stop \<le> length P + length M"
    with j have "occurs_at end_marker S (j - length (P @ M))" by (intro occurs_at_suffix) auto
    with assms(3) have "j \<le> length (P @ M)" by (auto simp: closes_region_def)
    with j(2) \<open>\<not> stop \<le> length P + length M\<close> show False by simp
  qed
qed

lemma apply_block_frame:
  assumes "apply_block closest (P @ M @ S) block = Inr t'" "opens_region P" "closes_region S"
  shows "\<exists>M'. t' = P @ M' @ S"
proof -
  obtain start stop idx n mid where range: "(start, stop) \<in> set (editable_ranges (P @ M @ S))"
    and inside: "start \<le> idx" "idx + n \<le> stop"
    and t': "t' = take idx (P @ M @ S) @ mid @ drop (idx + n) (P @ M @ S)"
    using assms(1) by (auto simp: apply_block_def Let_def split: if_splits option.splits)
  have "length P \<le> idx" "idx + n \<le> length P + length M"
    using ranges_inside_frame[OF range assms(2,3)] inside by linarith+
  then have "t' = P @ (take (idx - length P) M @ mid @ drop (idx + n - length P) M) @ S"
    by (simp add: t')
  then show ?thesis by blast
qed

lemma apply_blocks_frame:
  assumes "new_code (apply_blocks closest (P @ M @ S) applied blocks) = Some new" "opens_region P" "closes_region S"
  shows "(\<exists>M'. new = P @ M' @ S) \<and> validate_edit_markers new = None
       \<and> n_applied (apply_blocks closest (P @ M @ S) applied blocks) = applied + length blocks"
  using assms(1)
proof (induction blocks arbitrary: M applied)
  case Nil
  then show ?case by (auto split: option.splits)
next
  case (Cons block blocks)
  then obtain t' where t': "apply_block closest (P @ M @ S) block = Inr t'" by (auto split: sum.splits)
  obtain M' where "t' = P @ M' @ S" using apply_block_frame[OF t' assms(2,3)] by blast
  with Cons.IH[of M' "Suc applied"] Cons.prems t' show ?case by simp
qed

lemma occurs_at_self: "occurs_at w w k \<Longrightarrow> k = 0"
  unfolding occurs_at_def by (auto dest: arg_cong[of _ _ length])

lemma occurs_at_0: "occurs_at w (w @ s) 0"
  unfolding occurs_at_def by simp

text \<open>
  C22: However a model answers, a patch that is accepted leaves the frame of the program alone: the text
  up to and with the first begin marker and the text from the last end marker on are byte for byte the
  same, every block of the answer was applied, and the markers of the result are balanced.
\<close>

theorem patch_keeps_the_frame:
  assumes "new_code (apply_patch closest (P @ M @ S) answer) = Some new"
    and "opens_region P" and "closes_region S"
  shows "(\<exists>M'. new = P @ M' @ S) \<and> validate_edit_markers new = None
       \<and> n_applied (apply_patch closest (P @ M @ S) answer) = length (patch_blocks answer)"
  using apply_blocks_frame[of closest P M S 0 "patch_blocks answer" new] assms
  by (auto simp: apply_patch_def Let_def split: if_splits)

definition patch_block :: "string \<Rightarrow> string \<Rightarrow> string" where
  "patch_block search replace =
     join nl [''<<<<<<< ORIGINAL'', search, ''======='', replace, ''>>>>>>> UPDATED'', []]"

theorem patch_keeps_the_frame_witness:
  "\<exists>new M'. new_code (apply_patch (\<lambda>_ _. None) (begin_marker @ (nl @ ''x'' @ nl) @ end_marker) (patch_block ''x'' ''y''))
       = Some new \<and> new = begin_marker @ M' @ end_marker"
proof -
  let ?o = "apply_patch (\<lambda>_ _. None) (begin_marker @ (nl @ ''x'' @ nl) @ end_marker) (patch_block ''x'' ''y'')"
  have "new_code ?o \<noteq> None" by code_simp
  then obtain new where new: "new_code ?o = Some new" by auto
  have frame: "opens_region begin_marker" "closes_region end_marker"
    using occurs_at_0[of begin_marker "[]"] occurs_at_0[of end_marker "[]"]
    by (auto simp: opens_region_def closes_region_def dest: occurs_at_self)
  from patch_keeps_the_frame[OF new frame] new show ?thesis by blast
qed

section \<open>Text between two regions\<close>

text \<open>
  A program with two regions, and the blocks of an answer that assembles two markers out of pieces.
  Lines with a whole marker are stripped from a block, but no line here holds one.
\<close>

definition two_regions :: "string \<Rightarrow> string \<Rightarrow> string \<Rightarrow> string" where
  "two_regions x k y =
     join nl [begin_marker, x, end_marker, k, begin_marker, y, end_marker]"

definition smuggling_blocks :: "(string \<times> string) list" where
  "smuggling_blocks =
     [(''x'', ''EDIT-REGION-q''), (''q'', ''BEGIN''), (''y'', ''EDIT-REGION-z''), (''z'', ''END''), (''K'', ''L'')]"

text \<open>
  C23: The text between two regions is not safe. A single block that quotes it is refused, but an answer
  whose blocks first assemble one more begin marker in the first region and one more end marker in the
  second makes the pairing of markers span the text in between, which its last block then rewrites; the
  result has balanced markers and is accepted.
\<close>

theorem text_between_regions_can_be_rewritten:
  "patch_err (apply_blocks (\<lambda>_ _. None) (two_regions ''x'' ''K'' ''y'') 0 [(''K'', ''L'')]) = Some OutsideRegion
 \<and> new_code (apply_blocks (\<lambda>_ _. None) (two_regions ''x'' ''K'' ''y'') 0 smuggling_blocks)
     = Some (two_regions begin_marker ''L'' end_marker)"
proof
  show "patch_err (apply_blocks (\<lambda>_ _. None) (two_regions ''x'' ''K'' ''y'') 0 [(''K'', ''L'')]) = Some OutsideRegion"
    by code_simp
  show "new_code (apply_blocks (\<lambda>_ _. None) (two_regions ''x'' ''K'' ''y'') 0 smuggling_blocks)
     = Some (two_regions begin_marker ''L'' end_marker)"
    by code_simp
qed

end
