(* ===== verification/Identity.thy ===== *)
theory Identity
  imports GraphWrites
begin

text \<open>
  The memoization key of a goal (\<open>src/evoharness/proof/identity.py\<close>): the proposition a declaration
  states, and the two hashers. Text is a list of Unicode code points here, because the quantifier that
  binds the hypotheses and two of Lean's brackets are not in the range of a HOL character. The hash,
  the Lean process and the random keys are parameters.
\<close>

section \<open>Unicode text\<close>

type_synonym utext = "int list"

definition lit :: "string \<Rightarrow> utext" where
  "lit s = map of_char s"

definition u_space :: "int \<Rightarrow> bool" where
  "u_space c \<longleftrightarrow> 9 \<le> c \<and> c \<le> 13 \<or> 28 \<le> c \<and> c \<le> 32 \<or> 8192 \<le> c \<and> c \<le> 8202
     \<or> c \<in> {133, 160, 5760, 8232, 8233, 8239, 8287, 12288}"

definition u_lstrip :: "utext \<Rightarrow> utext" where
  "u_lstrip s = dropWhile u_space s"

definition u_rstrip :: "utext \<Rightarrow> utext" where
  "u_rstrip s = rev (dropWhile u_space (rev s))"

definition u_strip :: "utext \<Rightarrow> utext" where
  "u_strip s = u_rstrip (u_lstrip s)"

definition u_startswith :: "utext \<Rightarrow> utext \<Rightarrow> bool" where
  "u_startswith s p \<longleftrightarrow> take (length p) s = p"

text \<open>\<open>s.split()\<close>, the words of a text, and \<open>" ".join(words)\<close>.\<close>

function u_words :: "utext \<Rightarrow> utext list" where
  "u_words [] = []"
| "u_words (c # cs) =
     (if u_space c then u_words cs
      else (c # takeWhile (\<lambda>x. \<not> u_space x) cs) # u_words (dropWhile (\<lambda>x. \<not> u_space x) cs))"
  by pat_completeness auto
termination
  by (relation "measure length") (auto simp: le_imp_less_Suc length_dropWhile_le)

fun u_unwords :: "utext list \<Rightarrow> utext" where
  "u_unwords [] = []"
| "u_unwords [w] = w"
| "u_unwords (w # ws) = w @ [32] @ u_unwords ws"

section \<open>The proposition of a declaration\<close>

definition open_brackets :: "utext" where
  "open_brackets = lit ''([{'' @ [10627]"

definition close_brackets :: "utext" where
  "close_brackets = lit '')]}'' @ [10628]"

text \<open>The index of the colon that is not inside a binder group, with the depth so far.\<close>

fun top_level_colon :: "int \<Rightarrow> utext \<Rightarrow> nat option" where
  "top_level_colon depth [] = None"
| "top_level_colon depth (c # cs) =
     (if c \<in> set open_brackets then map_option Suc (top_level_colon (depth + 1) cs)
      else if c \<in> set close_brackets then map_option Suc (top_level_colon (depth - 1) cs)
      else if c = 58 \<and> depth = 0 then Some 0
      else map_option Suc (top_level_colon depth cs))"

definition split_on_top_level_colon :: "utext \<Rightarrow> utext \<times> utext" where
  "split_on_top_level_colon body =
     (case top_level_colon 0 body of
        Some i \<Rightarrow> (u_strip (take i body), u_strip (drop (i + 1) body))
      | None \<Rightarrow> ([], u_strip body))"

fun drop_keyword :: "utext list \<Rightarrow> utext \<Rightarrow> utext" where
  "drop_keyword [] body = body"
| "drop_keyword (k # ks) body =
     (if u_startswith body (k @ [32]) then u_lstrip (drop (length k + 1) body) else drop_keyword ks body)"

definition declaration_keywords :: "utext list" where
  "declaration_keywords = map lit [''theorem'', ''lemma'', ''example'', ''def'']"

text \<open>The second part of \<open>body.split(None, 1)\<close>, or the empty text.\<close>

definition after_first_word :: "utext \<Rightarrow> utext" where
  "after_first_word body = u_lstrip (dropWhile (\<lambda>c. \<not> u_space c) (u_lstrip body))"

definition proposition_in :: "utext \<Rightarrow> utext" where
  "proposition_in body =
     (let (binders, conclusion) = split_on_top_level_colon body
      in if conclusion = [] then u_strip body
         else if binders = [] then conclusion
         else [8704, 32] @ binders @ [44, 32] @ conclusion)"

definition proposition_of :: "utext \<Rightarrow> utext" where
  "proposition_of statement =
     proposition_in (after_first_word (drop_keyword declaration_keywords (u_strip statement)))"

section \<open>The hashers\<close>

text \<open>\<open>ExactTextHasher\<close>; \<open>sha\<close> answers the digest of a text in hexadecimal.\<close>

definition exact_text_one :: "(utext \<Rightarrow> string) \<Rightarrow> utext \<Rightarrow> string" where
  "exact_text_one sha statement = ''text:'' @ sha (u_unwords (u_words (proposition_of statement)))"

definition exact_text_hash_many :: "(utext \<Rightarrow> string) \<Rightarrow> utext list \<Rightarrow> string list" where
  "exact_text_hash_many sha statements = map (exact_text_one sha) statements"

definition unresolved :: "string \<Rightarrow> string" where
  "unresolved uuid = ''unresolved:'' @ uuid"

definition is_unresolved :: "string \<Rightarrow> bool" where
  "is_unresolved identity \<longleftrightarrow> startswith identity ''unresolved:''"

text \<open>
  \<open>EVOIDENT (\S+) (.*)\<close> at the start of a text: the tag is the whole run of characters that are no
  spaces, and a space has to follow it; the rest of the line is the body.
\<close>

definition ident_here :: "utext \<Rightarrow> ((utext \<times> utext) \<times> utext) option" where
  "ident_here s =
     (if \<not> u_startswith s (lit ''EVOIDENT '') then None
      else let run = drop 9 s; tag = takeWhile (\<lambda>c. \<not> u_space c) run; rest = dropWhile (\<lambda>c. \<not> u_space c) run
        in if tag = [] \<or> rest = [] \<or> hd rest \<noteq> 32 then None
           else Some ((tag, takeWhile (\<lambda>c. c \<noteq> 10) (tl rest)), dropWhile (\<lambda>c. c \<noteq> 10) (tl rest)))"

fun ident_lines :: "nat \<Rightarrow> utext \<Rightarrow> (utext \<times> utext) list" where
  "ident_lines 0 s = []"
| "ident_lines (Suc n) [] = []"
| "ident_lines (Suc n) (c # cs) =
     (case ident_here (c # cs) of Some (m, rest) \<Rightarrow> m # ident_lines n rest | None \<Rightarrow> ident_lines n cs)"

definition batch_tag :: "nat \<Rightarrow> utext" where
  "batch_tag i = lit (''g'' @ nat_str i)"

definition identity_line :: "nat \<Rightarrow> utext \<Rightarrow> utext" where
  "identity_line i statement =
     lit ''identity_of '' @ [34] @ batch_tag i @ [34] @ lit '' ('' @ proposition_of statement @ lit '')''"

definition identity_source :: "utext \<Rightarrow> utext list \<Rightarrow> utext" where
  "identity_source helper statements =
     foldr (\<lambda>l t. l @ [10] @ t) (helper # map2 identity_line [0..<length statements] statements) []"

text \<open>
  \<open>LeanExprHasher\<close>. \<open>compile\<close> answers the output of Lean, or \<open>None\<close> when the toolchain is unavailable;
  \<open>uuid i\<close> is the random key of the \<open>i\<close>-th statement, should it need one.
\<close>

definition lean_found :: "(utext \<Rightarrow> string) \<Rightarrow> utext \<Rightarrow> utext \<Rightarrow> string option" where
  "lean_found sha output =
     map_of (rev (map (\<lambda>(tag, body). (tag, ''lean:'' @ sha (u_unwords (u_words body))))
       (ident_lines (length output) output)))"

definition lean_expr_hash_many ::
  "(utext \<Rightarrow> string) \<Rightarrow> (utext \<Rightarrow> utext option) \<Rightarrow> utext \<Rightarrow> (nat \<Rightarrow> string) \<Rightarrow> utext list \<Rightarrow> string list" where
  "lean_expr_hash_many sha compile helper uuid statements =
     (if statements = [] then []
      else case compile (identity_source helper statements) of
        None \<Rightarrow> map (\<lambda>i. unresolved (uuid i)) [0..<length statements]
      | Some output \<Rightarrow>
          map (\<lambda>i. case lean_found sha output (batch_tag i) of
                 Some key \<Rightarrow> key | None \<Rightarrow> unresolved (uuid i)) [0..<length statements])"

section \<open>Merging by text\<close>

definition word_ok :: "utext \<Rightarrow> bool" where
  "word_ok w \<longleftrightarrow> w \<noteq> [] \<and> (\<forall>c \<in> set w. \<not> u_space c)"

lemma u_words_ok: "w \<in> set (u_words s) \<Longrightarrow> word_ok w"
proof (induction s rule: u_words.induct)
  case (2 c cs)
  show ?case
  proof (cases "u_space c")
    case False
    then consider "w = c # takeWhile (\<lambda>x. \<not> u_space x) cs" | "w \<in> set (u_words (dropWhile (\<lambda>x. \<not> u_space x) cs))"
      using 2 by auto
    then show ?thesis
    proof cases
      case 1
      with False show ?thesis by (auto simp: word_ok_def dest: set_takeWhileD)
    next
      case 2
      with "2.IH"(2)[OF False] show ?thesis by simp
    qed
  next
    case True
    with 2 show ?thesis by simp
  qed
qed simp

lemma u_words_one: "word_ok w \<Longrightarrow> u_words w = [w]"
proof (cases w)
  case (Cons d ds)
  assume "word_ok w"
  with Cons have "\<not> u_space d" "\<forall>x \<in> set ds. \<not> u_space x" by (simp_all add: word_ok_def)
  then show ?thesis using Cons by (subst Cons, subst u_words.simps(2), subst dropWhile_all) simp_all
qed (simp add: word_ok_def)

lemma u_words_append:
  assumes "word_ok w" "u_space c"
  shows "u_words (w @ c # s) = w # u_words s"
proof -
  obtain d ds where w: "w = d # ds" "\<not> u_space d" "\<forall>x \<in> set ds. \<not> u_space x"
    using assms(1) by (cases w) (auto simp: word_ok_def)
  then have "takeWhile (\<lambda>x. \<not> u_space x) (ds @ c # s) = ds" "dropWhile (\<lambda>x. \<not> u_space x) (ds @ c # s) = c # s"
    using assms(2) by auto
  then show ?thesis using w assms(2) by simp
qed

lemma u_words_unwords: "(\<And>w. w \<in> set ws \<Longrightarrow> word_ok w) \<Longrightarrow> u_words (u_unwords ws) = ws"
proof (induction ws rule: u_unwords.induct)
  case (3 w v ws)
  have "u_space 32" by (simp add: u_space_def)
  with 3 show ?case by (simp add: u_words_append)
qed (simp_all add: u_words_one)

lemma normal_words: "u_words (u_unwords (u_words s)) = u_words s"
  by (rule u_words_unwords) (rule u_words_ok)

lemma unwords_words_iff: "u_unwords (u_words s) = u_unwords (u_words t) \<longleftrightarrow> u_words s = u_words t"
  using arg_cong[of "u_unwords (u_words s)" "u_unwords (u_words t)" u_words] by (metis normal_words)

definition normal_text :: "utext \<Rightarrow> utext" where
  "normal_text s = u_unwords (u_words (proposition_of s))"

text \<open>
  The default hasher merges two goals exactly when the propositions they state are the same
  sequence of words, whatever the white space between them, as long as the digest does not collide
  on the two.
\<close>

theorem exact_text_merges_iff:
  assumes "inj_on sha (normal_text ` {s, t})"
  shows "exact_text_one sha s = exact_text_one sha t \<longleftrightarrow>
    u_words (proposition_of s) = u_words (proposition_of t)"
proof -
  have "exact_text_one sha s = exact_text_one sha t \<longleftrightarrow> normal_text s = normal_text t"
    using inj_on_eq_iff[OF assms, of "normal_text s" "normal_text t"]
    by (simp add: exact_text_one_def normal_text_def)
  also have "\<dots> \<longleftrightarrow> u_words (proposition_of s) = u_words (proposition_of t)"
    unfolding normal_text_def by (rule unwords_words_iff)
  finally show ?thesis .
qed

text \<open>A declaration under a keyword and a name; \<open>rest\<close> has the binders, the colon and the conclusion.\<close>

definition declare_as :: "utext \<Rightarrow> utext \<Rightarrow> utext \<Rightarrow> utext" where
  "declare_as kw name rest = kw @ [32] @ name @ [32] @ rest"

lemma exact_text_merges_iff_witness:
  "exact_text_one (map char_of) (declare_as (lit ''lemma'') (lit ''b'') (lit '': p  = q''))
     = exact_text_one (map char_of) (declare_as (lit ''theorem'') (lit ''a'') (lit '': p = q''))
 \<and> exact_text_one (map char_of) (declare_as (lit ''lemma'') (lit ''b'') (lit '': q = p''))
     \<noteq> exact_text_one (map char_of) (declare_as (lit ''theorem'') (lit ''a'') (lit '': p = q''))"
proof
  let ?a = "declare_as (lit ''theorem'') (lit ''a'') (lit '': p = q'')"
  let ?b = "declare_as (lit ''lemma'') (lit ''b'') (lit '': p  = q'')"
  let ?c = "declare_as (lit ''lemma'') (lit ''b'') (lit '': q = p'')"
  have n: "normal_text ?a = [112, 32, 61, 32, 113]" "normal_text ?b = [112, 32, 61, 32, 113]"
    "normal_text ?c = [113, 32, 61, 32, 112]" by code_simp+
  have "u_words (proposition_of ?b) = u_words (proposition_of ?a)" by code_simp
  with exact_text_merges_iff[of "map char_of" ?b ?a]
  show "exact_text_one (map char_of) ?b = exact_text_one (map char_of) ?a" by (simp add: n)
  have "u_words (proposition_of ?c) \<noteq> u_words (proposition_of ?a)" by code_simp
  moreover have "inj_on (map char_of) (normal_text ` {?c, ?a})" by (simp add: n)
  ultimately show "exact_text_one (map char_of) ?c \<noteq> exact_text_one (map char_of) ?a"
    using exact_text_merges_iff[of "map char_of" ?c ?a] by blast
qed

section \<open>Renaming\<close>

lemma u_rstrip_append:
  assumes "\<exists>c \<in> set r. \<not> u_space c"
  shows "u_rstrip (x @ r) = x @ u_rstrip r"
  using assms by (auto simp: u_rstrip_def dropWhile_append1)

lemma u_lstrip_nonspace: "s \<noteq> [] \<Longrightarrow> \<not> u_space (hd s) \<Longrightarrow> u_lstrip (s @ r) = s @ r"
  by (cases s) (simp_all add: u_lstrip_def)

lemma u_strip_Nil_iff: "u_strip r = [] \<longleftrightarrow> (\<forall>c \<in> set r. u_space c)"
proof (cases "\<forall>c \<in> set r. u_space c")
  case True
  then show ?thesis by (auto simp: u_strip_def u_rstrip_def u_lstrip_def dest: set_dropWhileD)
next
  case False
  then have "dropWhile u_space r \<noteq> []" by (simp add: dropWhile_eq_Nil_conv)
  then have "hd (dropWhile u_space r) \<in> set (dropWhile u_space r)" "\<not> u_space (hd (dropWhile u_space r))"
    by (simp_all add: hd_dropWhile)
  then have "\<exists>c \<in> set (dropWhile u_space r). \<not> u_space c" by blast
  then show ?thesis using False by (auto simp: u_strip_def u_rstrip_def u_lstrip_def dropWhile_eq_Nil_conv)
qed

lemma after_name:
  assumes "word_ok name"
  shows "after_first_word (name @ 32 # r) = u_lstrip r"
proof -
  have "u_lstrip (name @ 32 # r) = name @ 32 # r"
    using assms by (intro u_lstrip_nonspace) (auto simp: word_ok_def)
  moreover have "dropWhile (\<lambda>c. \<not> u_space c) (name @ 32 # r) = 32 # r"
    using assms by (subst dropWhile_append2) (auto simp: word_ok_def u_space_def)
  ultimately show ?thesis by (simp add: after_first_word_def u_lstrip_def u_space_def)
qed

lemma keywords_eval:
  "declaration_keywords =
     [[116, 104, 101, 111, 114, 101, 109], [108, 101, 109, 109, 97], [101, 120, 97, 109, 112, 108, 101], [100, 101, 102]]"
  by code_simp

lemma keyword_ok: "kw \<in> set declaration_keywords \<Longrightarrow> word_ok kw"
  by (auto simp: keywords_eval word_ok_def u_space_def)

lemma keyword_dropped:
  assumes "kw \<in> set declaration_keywords"
  shows "drop_keyword declaration_keywords (kw @ 32 # r) = u_lstrip r"
  using assms unfolding keywords_eval by (auto simp: u_startswith_def)

lemma proposition_of_declaration:
  assumes "kw \<in> set declaration_keywords" "word_ok name" "u_strip rest \<noteq> []"
  shows "proposition_of (declare_as kw name rest) = proposition_in (u_lstrip (u_rstrip rest))"
proof -
  have "u_lstrip (kw @ 32 # name @ 32 # rest) = kw @ 32 # name @ 32 # rest"
    using keyword_ok[OF assms(1)] by (intro u_lstrip_nonspace) (auto simp: word_ok_def)
  moreover have "u_rstrip ((kw @ 32 # name @ [32]) @ rest) = (kw @ 32 # name @ [32]) @ u_rstrip rest"
    using assms(3) by (intro u_rstrip_append) (auto simp: u_strip_Nil_iff)
  ultimately have "u_strip (declare_as kw name rest) = kw @ 32 # (name @ 32 # u_rstrip rest)"
    by (simp add: u_strip_def declare_as_def)
  moreover have "u_lstrip (name @ 32 # u_rstrip rest) = name @ 32 # u_rstrip rest"
    using assms(2) by (intro u_lstrip_nonspace) (auto simp: word_ok_def)
  ultimately show ?thesis
    by (simp add: proposition_of_def keyword_dropped[OF assms(1)] after_name[OF assms(2)])
qed

text \<open>
  C24: A route cannot restate its goal, or a goal above it, under another name or keyword: under the
  default hasher the restatement has the identity of the goal it restates, so the store refuses the
  decomposition as a cycle and stays as it is.
\<close>

theorem renamed_restatement_is_refused:
  assumes "kw \<in> set declaration_keywords" "kw' \<in> set declaration_keywords" "word_ok name" "word_ok name'"
    and "u_strip rest \<noteq> []"
    and "well_formed s" "gid \<in> goal_ids s" "(upper, gid) \<in> (child_rel s)\<^sup>*"
    and "identity_of s upper = exact_text_one sha (declare_as kw name rest)"
    and "(exact_text_one sha (declare_as kw' name' rest), statement) \<in> set subgoals"
  shows "\<exists>ids. add_decomposition u now gid subgoals sk status s = (s, Inl (CycleError ids))"
proof -
  have same: "exact_text_one sha (declare_as kw' name' rest) = identity_of s upper"
    using assms(1-5,9) by (simp add: exact_text_one_def proposition_of_declaration)
  obtain parent where parent: "get_goal s gid = Inr parent" using wf_get_goal[OF assms(7)] by blast
  define anc where "anc = identity_of s ` {p. (p, gid) \<in> (child_rel s)\<^sup>+}"
  have anc: "ancestor_identities s gid = Inr anc"
    using ancestor_identities_eq[OF assms(6,7)] by (simp add: anc_def)
  have "identity_of s upper \<in> anc \<union> {g_identity parent}"
    using assms(8) identity_of_get[OF parent] unfolding rtrancl_eq_or_trancl anc_def by auto
  then have "set (map fst subgoals) \<inter> (anc \<union> {g_identity parent}) \<noteq> {}"
    using assms(10) unfolding same by force
  then obtain ids where "check_acyclic (anc \<union> {g_identity parent}) (map fst subgoals) = Inl (CycleError ids)"
    by (auto simp: check_acyclic_cases)
  moreover have "subgoals \<noteq> []" using assms(10) by auto
  ultimately show ?thesis
    using parent anc by (auto simp: add_decomposition_def check_decomposition_def)
qed

definition restated_store :: graph_store where
  "restated_store = empty_store\<lparr>
     st_goals := [new_goal ''goal_a'' ''text:p'' ''theorem a : p'' 1, new_goal ''goal_b'' ''text:q'' ''lemma b : q'' 2],
     st_decs := [sample_row], st_edges := [(''dec_1'', 0, ''goal_b'')]\<rparr>"

lemma renamed_restatement_is_refused_witness:
  "\<exists>ids. add_decomposition (\<lambda>_. []) 3 ''goal_b''
     [(exact_text_one (map char_of) (declare_as (lit ''lemma'') (lit ''fresh'') (lit '': p'')), ''lemma fresh : p'')]
     None DProposed restated_store = (restated_store, Inl (CycleError ids))"
proof (rule renamed_restatement_is_refused[where upper = "''goal_a''" and sha = "map char_of"
      and kw = "lit ''theorem''" and name = "lit ''a''" and kw' = "lit ''lemma''" and name' = "lit ''fresh''"
      and rest = "lit '': p''" and statement = "''lemma fresh : p''"])
  have ids: "goal_ids restated_store = {''goal_a'', ''goal_b''}"
    by (simp add: restated_store_def goal_ids_def new_goal_def)
  then show "''goal_b'' \<in> goal_ids restated_store" by simp
  show "well_formed restated_store"
    unfolding well_formed_def ids
    by (simp add: restated_store_def empty_store_def new_goal_def sample_row_def)
  have "(''goal_a'', ''goal_b'') \<in> child_rel restated_store"
    by (simp add: child_rel_def restated_store_def empty_store_def sample_row_def)
  then show "(''goal_a'', ''goal_b'') \<in> (child_rel restated_store)\<^sup>*" by blast
  have "exact_text_one (map char_of) (declare_as (lit ''theorem'') (lit ''a'') (lit '': p'')) = ''text:p''"
    by code_simp
  then show "identity_of restated_store ''goal_a''
      = exact_text_one (map char_of) (declare_as (lit ''theorem'') (lit ''a'') (lit '': p''))"
    by (simp add: identity_of_def restated_store_def new_goal_def)
  show "lit ''theorem'' \<in> set declaration_keywords" "lit ''lemma'' \<in> set declaration_keywords"
    by (simp_all add: declaration_keywords_def)
  show "word_ok (lit ''a'')" "word_ok (lit ''fresh'')" "u_strip (lit '': p'') \<noteq> []" by code_simp+
qed simp

section \<open>Keys that were not resolved\<close>

lemma lean_key_shape:
  assumes "lean_found sha output tag = Some key"
  shows "\<exists>d. key = ''lean:'' @ d"
  using map_of_SomeD[OF assms[unfolded lean_found_def]] by auto

lemma lean_expr_length [simp]:
  "length (lean_expr_hash_many sha compile helper uuid statements) = length statements"
  by (simp add: lean_expr_hash_many_def split: option.splits)

lemma lean_key_cases:
  assumes "i < length statements"
  shows "(\<exists>output d. compile (identity_source helper statements) = Some output
            \<and> lean_expr_hash_many sha compile helper uuid statements ! i = ''lean:'' @ d)
       \<or> lean_expr_hash_many sha compile helper uuid statements ! i = unresolved (uuid i)"
  using assms lean_key_shape by (auto simp: lean_expr_hash_many_def split: option.splits)

lemma unresolved_differs:
  assumes "j < length statements" "uuid j \<noteq> k"
  shows "lean_expr_hash_many sha compile helper uuid statements ! j \<noteq> unresolved k"
  using lean_key_cases[OF assms(1), of compile helper sha uuid]
proof
  assume "\<exists>output d. compile (identity_source helper statements) = Some output
      \<and> lean_expr_hash_many sha compile helper uuid statements ! j = ''lean:'' @ d"
  then obtain d where "lean_expr_hash_many sha compile helper uuid statements ! j = ''lean:'' @ d" by blast
  then show ?thesis by (simp add: unresolved_def)
next
  assume "lean_expr_hash_many sha compile helper uuid statements ! j = unresolved (uuid j)"
  with assms(2) show ?thesis by (simp add: unresolved_def)
qed

lemma resolved_ne_unresolved: "''lean:'' @ d \<noteq> unresolved k" "\<not> is_unresolved (''lean:'' @ d)" "is_unresolved (unresolved k)"
  by (simp_all add: unresolved_def is_unresolved_def startswith_def)

text \<open>
  A statement that Lean did not elaborate, or a whole batch when the toolchain is unavailable,
  fails towards \<open>not the same\<close>: its key is marked unresolved and differs from the key of every other
  statement of the batch and of any other batch whose random keys are different.
\<close>

theorem unresolved_never_merges:
  assumes "inj uuid" "\<And>i j. uuid i \<noteq> uuid' j"
    and "keys = lean_expr_hash_many sha compile helper uuid statements"
    and "keys' = lean_expr_hash_many sha compile' helper uuid' statements'"
    and "i < length statements" "is_unresolved (keys ! i) \<or> compile (identity_source helper statements) = None"
  shows "is_unresolved (keys ! i) \<and> (\<forall>j < length keys. j \<noteq> i \<longrightarrow> keys ! j \<noteq> keys ! i) \<and> keys ! i \<notin> set keys'"
proof -
  have key: "keys ! i = unresolved (uuid i)"
    using lean_key_cases[OF assms(5), of compile helper sha uuid] assms(6) resolved_ne_unresolved(2)
    unfolding assms(3) by auto
  have "keys ! j \<noteq> keys ! i" if "j < length statements" "j \<noteq> i" for j
    unfolding key unfolding assms(3) using that injD[OF assms(1), of j i] by (intro unresolved_differs) auto
  moreover have "keys' ! j \<noteq> keys ! i" if "j < length statements'" for j
    unfolding key unfolding assms(4) using that assms(2)[of i j] by (intro unresolved_differs) auto
  ultimately show ?thesis
    using key resolved_ne_unresolved(3) by (auto simp: in_set_conv_nth assms(3,4))
qed

text \<open>A batch of two whose second statement was elaborated, and another batch without a toolchain.\<close>

definition sample_batch :: "string list" where
  "sample_batch = lean_expr_hash_many (map char_of) (\<lambda>_. Some (lit ''EVOSKIP g0'' @ [10] @ lit ''EVOIDENT g1 x'')) []
     (\<lambda>i. replicate i (CHR ''a'')) [lit ''theorem a : p'', lit ''theorem b : q'']"

definition other_batch :: "string list" where
  "other_batch = lean_expr_hash_many (map char_of) (\<lambda>_. None) []
     (\<lambda>i. CHR ''b'' # replicate i (CHR ''a'')) [lit ''theorem a : p'']"

lemma unresolved_never_merges_witness:
  "sample_batch ! 1 = ''lean:x'' \<and> is_unresolved (sample_batch ! 0)
 \<and> (\<forall>j < length sample_batch. j \<noteq> 0 \<longrightarrow> sample_batch ! j \<noteq> sample_batch ! 0)
 \<and> sample_batch ! 0 \<notin> set other_batch"
proof
  show "sample_batch ! 1 = ''lean:x''" by code_simp
  have "inj (\<lambda>i :: nat. replicate i (CHR ''a''))" by (rule injI) (metis length_replicate)
  moreover have "replicate i (CHR ''a'') \<noteq> CHR ''b'' # replicate j (CHR ''a'')" for i j :: nat
    by (cases i) simp_all
  moreover have "is_unresolved (sample_batch ! 0)" by code_simp
  ultimately show "is_unresolved (sample_batch ! 0)
      \<and> (\<forall>j < length sample_batch. j \<noteq> 0 \<longrightarrow> sample_batch ! j \<noteq> sample_batch ! 0)
      \<and> sample_batch ! 0 \<notin> set other_batch"
    by (intro unresolved_never_merges[OF _ _ sample_batch_def other_batch_def]) simp_all
qed

section \<open>What the default hasher merges wrongly\<close>

text \<open>The text that Lean reads: a line comment runs from two dashes to the end of its line.\<close>

fun code_of :: "bool \<Rightarrow> utext \<Rightarrow> utext" where
  "code_of in_comment [] = []"
| "code_of True (c # cs) = (if c = 10 then 10 # code_of False cs else code_of True cs)"
| "code_of False (c # cs) =
     (if c = 45 \<and> cs \<noteq> [] \<and> hd cs = 45 then code_of True cs else c # code_of False cs)"

definition commented_two_lines :: utext where
  "commented_two_lines = lit ''theorem a : p -- note'' @ [10] @ lit ''and q''"

definition commented_one_line :: utext where
  "commented_one_line = lit ''theorem b : p -- note and q''"

text \<open>
  C25: Whitespace is not always layout: a line break ends a comment. Two declarations whose comment ends
  at different places have one identity under the default hasher, whatever the digest, although one
  states \<open>p and q\<close> and the other only \<open>p\<close>; a proof of the weaker one is a proof of the stronger one.
\<close>

theorem comments_are_merged_wrongly:
  "exact_text_one sha commented_two_lines = exact_text_one sha commented_one_line
 \<and> u_words (proposition_of (code_of False commented_two_lines)) = [lit ''p'', lit ''and'', lit ''q'']
 \<and> u_words (proposition_of (code_of False commented_one_line)) = [lit ''p'']"
proof (intro conjI)
  have "normal_text commented_two_lines = normal_text commented_one_line" by code_simp
  then show "exact_text_one sha commented_two_lines = exact_text_one sha commented_one_line"
    by (simp add: exact_text_one_def normal_text_def)
  show "u_words (proposition_of (code_of False commented_two_lines)) = [lit ''p'', lit ''and'', lit ''q'']"
    by code_simp
  show "u_words (proposition_of (code_of False commented_one_line)) = [lit ''p'']"
    by code_simp
qed

end
