(* ===== verification/RunSolver.thy ===== *)
theory RunSolver
  imports Solver Population Regex
begin

text \<open>
  \<open>proof/run_solver.py\<close>: one evolution run per subgoal. The directory of an attempt, the seed, the
  text functions that read a declaration and its proof back, and the attack itself. The file system
  is the list of the entries of one goal's directory, the run is a parameter. A text is a list of code
  points below 256, so the two brackets outside of that range do not occur in it.

  The lemmas show that no two workers ever hold the same attempt directory, and that the body read
  back from a candidate is the body that was written into it.
\<close>

section \<open>Attempt directories\<close>

text \<open>The entries of a goal's directory: a name, and whether it is a directory.\<close>

type_synonym entries = "(string \<times> bool) list"

definition attempt_prefix :: string where
  "attempt_prefix = ''attempt_''"

text \<open>\<open>f"{index:04d}"\<close>\<close>

definition padded :: "nat \<Rightarrow> string" where
  "padded n = replicate (4 - length (nat_str n)) (CHR ''0'') @ nat_str n"

definition attempt_name :: "nat \<Rightarrow> string" where
  "attempt_name n = attempt_prefix @ padded n"

text \<open>
  \<open>str.isdigit\<close> also accepts the three superscript digits below 256, which \<open>int\<close> refuses with a
  \<open>ValueError\<close>.
\<close>

definition superscript :: "char \<Rightarrow> bool" where
  "superscript c \<longleftrightarrow> c \<in> set [CHR 0xB2, CHR 0xB3, CHR 0xB9]"

definition attempt_suffix :: "string \<times> bool \<Rightarrow> string option" where
  "attempt_suffix child =
     (let digits = drop (length attempt_prefix) (fst child) in
      if snd child \<and> startswith (fst child) attempt_prefix
         \<and> digits \<noteq> [] \<and> list_all (\<lambda>c. is_digit c \<or> superscript c) digits
      then Some digits else None)"

definition as_int :: "string \<Rightarrow> proof_error + nat" where
  "as_int s = (if list_all is_digit s then Inr (digits_nat s)
     else Inl (ValueError (''invalid literal for int() with base 10: '' @ py_repr s)))"

definition used_indices :: "entries \<Rightarrow> proof_error + nat list" where
  "used_indices children = mapE as_int (List.map_filter attempt_suffix children)"

definition first_index :: "nat list \<Rightarrow> nat" where
  "first_index used = (if used = [] then 0 else Max (set used) + 1)"

text \<open>One turn of the \<open>while True\<close>: the exclusive \<open>mkdir\<close>, or the next index.\<close>

definition try_mkdir :: "nat \<Rightarrow> entries \<Rightarrow> entries option" where
  "try_mkdir index children =
     (if attempt_name index \<in> fst ` set children then None
      else Some (children @ [(attempt_name index, True)]))"

fun claim_loop :: "nat \<Rightarrow> nat \<Rightarrow> entries \<Rightarrow> (nat \<times> entries) option" where
  "claim_loop 0 index children = None"
| "claim_loop (Suc fuel) index children =
     (case try_mkdir index children of
        Some children' \<Rightarrow> Some (index, children')
      | None \<Rightarrow> claim_loop fuel (index + 1) children)"

definition claim_attempt_dir :: "entries \<Rightarrow> (proof_error + nat \<times> entries) option" where
  "claim_attempt_dir children =
     (case used_indices children of
        Inl e \<Rightarrow> Some (Inl e)
      | Inr used \<Rightarrow> map_option Inr (claim_loop (Suc (length children)) (first_index used) children))"

section \<open>Reading a declaration\<close>

fun after_keyword :: "string list \<Rightarrow> string \<Rightarrow> string" where
  "after_keyword [] body = body"
| "after_keyword (k # ks) body =
     (if startswith body (k @ '' '') then lstrip (drop (length k + 1) body) else after_keyword ks body)"

definition declared_name :: "string \<Rightarrow> string" where
  "declared_name signature =
     (let body = after_keyword [''theorem'', ''lemma'', ''example'', ''def''] (strip signature)
      in if body \<noteq> [] then first_word body else ''unknown'')"

text \<open>\<open>t.split(w, 1)\<close> of a text that has \<open>w\<close>, and its two parts.\<close>

definition before_first :: "string \<Rightarrow> string \<Rightarrow> string" where
  "before_first w t = (case find_sub w t of None \<Rightarrow> t | Some i \<Rightarrow> take i t)"

definition after_first :: "string \<Rightarrow> string \<Rightarrow> string" where
  "after_first w t = (case find_sub w t of None \<Rightarrow> [] | Some i \<Rightarrow> drop (i + length w) t)"

definition strip_breaks :: "string \<Rightarrow> string" where
  "strip_breaks s = rev (dropWhile (\<lambda>c. c = CHR 0x0A) (rev (dropWhile (\<lambda>c. c = CHR 0x0A) s)))"

definition comment_openers :: "string list" where
  "comment_openers = [''--'', ''//'', ''#'', ''/-'', ''(*'']"

definition trim_dangling_comment :: "string \<Rightarrow> string" where
  "trim_dangling_comment body =
     rstrip (join nl (rev (dropWhile (\<lambda>l. strip l \<in> set comment_openers)
       (rev (splitlines (rstrip (strip_breaks body)))))))"

text \<open>What follows the first \<open>:=\<close> outside of every bracket.\<close>

fun after_definition :: "int \<Rightarrow> string \<Rightarrow> string option" where
  "after_definition depth (c # d # cs) =
     (if c \<in> set ''([{'' then after_definition (depth + 1) (d # cs)
      else if c \<in> set '')]}'' then after_definition (depth - 1) (d # cs)
      else if c = CHR '':'' \<and> d = CHR ''='' \<and> depth = 0 then Some cs
      else after_definition depth (d # cs))"
| "after_definition depth s = None"

definition edit_region :: "string \<Rightarrow> string" where
  "edit_region t =
     (if occurs_in ''EDIT-REGION-BEGIN'' t \<and> occurs_in ''EDIT-REGION-END'' t
      then before_first ''EDIT-REGION-END'' (after_first ''EDIT-REGION-BEGIN'' t) else t)"

definition proof_body :: "string \<Rightarrow> string option" where
  "proof_body candidate_text =
     (case after_definition 0 (edit_region candidate_text) of
        None \<Rightarrow> None
      | Some body \<Rightarrow> (let b = trim_dangling_comment body in if b = [] then None else Some b))"

definition seed_text :: "string \<Rightarrow> string \<Rightarrow> string" where
  "seed_text statement preamble =
     (if preamble \<noteq> [] then preamble @ nl @ nl else []) @
     ''-- EDIT-REGION-BEGIN'' @ nl @ statement @ '' := by'' @ nl @ ''  sorry'' @ nl @
     ''-- EDIT-REGION-END'' @ nl @ nl @ ''#print axioms '' @ declared_name statement @ nl"

section \<open>The attack\<close>

text \<open>
  The winning candidate, read back from the run's own database. \<open>db\<close> is the population of the run if
  its file is there, \<open>main_text\<close> the main file of a candidate.
\<close>

definition best_proof_body :: "(candidate \<Rightarrow> string) \<Rightarrow> population option \<Rightarrow> run_report \<Rightarrow> string option" where
  "best_proof_body main_text db report =
     (case rr_best_fitness report of
        None \<Rightarrow> None
      | Some f \<Rightarrow>
          if f < 1 then None
          else (case db of
             None \<Rightarrow> None
           | Some store \<Rightarrow> (case best_candidate store of
                 None \<Rightarrow> None
               | Some best \<Rightarrow> proof_body (main_text best))))"

text \<open>
  \<open>ApiRunSolver.attack\<close>. \<open>run\<close> drives the run on the seed in the claimed directory and answers the
  report with the database, or the text of the exception; \<open>path_of\<close> is the path of an attempt.
\<close>

definition run_attack ::
  "(real option \<Rightarrow> string) \<Rightarrow> (candidate \<Rightarrow> string) \<Rightarrow> (string \<Rightarrow> string)
     \<Rightarrow> (string \<Rightarrow> string \<Rightarrow> string + run_report \<times> population option)
     \<Rightarrow> string \<Rightarrow> goal \<Rightarrow> entries \<Rightarrow> (entries \<times> (proof_error + attempt_result)) option" where
  "run_attack fmt main_text path_of run preamble g children =
     (case claim_attempt_dir children of
        None \<Rightarrow> None
      | Some (Inl e) \<Rightarrow> Some (children, Inl e)
      | Some (Inr (index, children')) \<Rightarrow>
          let run_dir = path_of (attempt_name index) in
          Some (children',
            case run run_dir (seed_text (g_statement g) preamble) of
              Inl exc \<Rightarrow> mk_attempt_result OInfraFailed None (Some run_dir) None 0 (take 500 exc)
            | Inr (report, db) \<Rightarrow>
                from_run_report fmt report (Some run_dir) 1 (best_proof_body main_text db report) None))"

section \<open>Exclusive directories\<close>

lemma digits_nat_append: "digits_nat (s @ [c]) = 10 * digits_nat s + (of_char c - 48)"
  by (simp add: digits_nat_def)

lemma digits_nat_str: "digits_nat (nat_str n) = n"
proof (induction n rule: nat_str.induct)
  case (1 n)
  show ?case
  proof (cases "n < 10")
    case True
    then show ?thesis by (simp add: nat_str.simps[of n] digits_nat_def digit_char_def)
  next
    case False
    then show ?thesis using 1 by (simp add: nat_str.simps[of n] digits_nat_append digit_char_def)
  qed
qed

lemma digits_nat_zeros: "digits_nat (replicate k (CHR ''0'') @ s) = digits_nat s"
  by (induction k) (simp_all add: digits_nat_def)

lemma inj_attempt_name: "inj attempt_name"
proof (rule injI)
  fix m n
  assume "attempt_name m = attempt_name n"
  then have "digits_nat (padded m) = digits_nat (padded n)" by (simp add: attempt_name_def)
  then show "m = n" by (simp add: padded_def digits_nat_zeros digits_nat_str)
qed

lemma try_mkdir_None: "try_mkdir i E = None \<longleftrightarrow> attempt_name i \<in> fst ` set E"
  by (simp add: try_mkdir_def)

lemma try_mkdir_Some:
  "try_mkdir i E = Some E' \<longleftrightarrow> attempt_name i \<notin> fst ` set E \<and> E' = E @ [(attempt_name i, True)]"
  by (auto simp: try_mkdir_def)

lemma claim_loop_None: "claim_loop fuel i E = None \<Longrightarrow> k < fuel \<Longrightarrow> attempt_name (i + k) \<in> fst ` set E"
proof (induction fuel arbitrary: i k)
  case (Suc fuel)
  then have "attempt_name i \<in> fst ` set E" "claim_loop fuel (i + 1) E = None"
    by (auto simp: try_mkdir_None split: option.splits)
  with Suc.IH[of "i + 1" "k - 1"] Suc.prems(2) show ?case by (cases k) auto
qed simp

lemma claim_loop_Some:
  "claim_loop fuel i E = Some (j, E') \<Longrightarrow> i \<le> j \<and> j < i + fuel \<and> try_mkdir j E = Some E'"
proof (induction fuel arbitrary: i)
  case (Suc fuel)
  then show ?case
    by (cases "try_mkdir i E") (auto dest: Suc.IH)
qed simp

lemma claim_loop_ends: "\<exists>j. claim_loop (Suc (length E)) i E = Some (j, E @ [(attempt_name j, True)])"
proof -
  have "claim_loop (Suc (length E)) i E \<noteq> None"
  proof
    assume "claim_loop (Suc (length E)) i E = None"
    then have "(\<lambda>k. attempt_name (i + k)) ` {..length E} \<subseteq> fst ` set E"
      using claim_loop_None[of "Suc (length E)" i E] by auto
    then have "card ((\<lambda>k. attempt_name (i + k)) ` {..length E}) \<le> card (fst ` set E)"
      by (intro card_mono) simp_all
    moreover have "card ((\<lambda>k. attempt_name (i + k)) ` {..length E}) = Suc (length E)"
      by (subst card_image) (auto intro!: inj_onI dest: injD[OF inj_attempt_name])
    moreover have "card (fst ` set E) \<le> length E"
      by (metis card_length length_map set_map)
    ultimately show False by simp
  qed
  then obtain j E' where "claim_loop (Suc (length E)) i E = Some (j, E')" by auto
  with claim_loop_Some[OF this] show ?thesis by (auto simp: try_mkdir_Some simp del: claim_loop.simps)
qed

text \<open>
  Several workers on one goal: each scans, then tries one index after the other. Between two actions
  of a worker any other worker, or a process that is no worker at all, may act.
\<close>

datatype phase = Idle | Trying nat | Holding nat

type_synonym race = "entries \<times> (nat \<Rightarrow> phase)"

inductive race_step :: "race \<Rightarrow> race \<Rightarrow> bool" where
  scans: "ph w = Idle \<Longrightarrow> used_indices E = Inr used \<Longrightarrow>
    race_step (E, ph) (E, ph(w := Trying (first_index used)))"
| creates: "ph w = Trying i \<Longrightarrow> try_mkdir i E = Some E' \<Longrightarrow> race_step (E, ph) (E', ph(w := Holding i))"
| moves_on: "ph w = Trying i \<Longrightarrow> try_mkdir i E = None \<Longrightarrow> race_step (E, ph) (E, ph(w := Trying (i + 1)))"
| someone_else: "race_step (E, ph) (E @ [entry], ph)"

inductive_cases race_stepE: "race_step (E, ph) s"

definition all_idle :: "nat \<Rightarrow> phase" where
  "all_idle = (\<lambda>_. Idle)"

definition exclusive :: "entries \<Rightarrow> race \<Rightarrow> bool" where
  "exclusive E0 s \<longleftrightarrow> fst ` set E0 \<subseteq> fst ` set (fst s)
     \<and> (\<forall>v i. snd s v = Holding i \<longrightarrow> (attempt_name i, True) \<in> set (fst s) \<and> attempt_name i \<notin> fst ` set E0)
     \<and> (\<forall>v w i. snd s v = Holding i \<longrightarrow> snd s w = Holding i \<longrightarrow> v = w)"

lemma exclusive_same_holders:
  assumes "exclusive E0 (E, ph)" "set E \<subseteq> set E'" "\<And>v i. ph' v = Holding i \<longleftrightarrow> ph v = Holding i"
  shows "exclusive E0 (E', ph')"
  unfolding exclusive_def fst_conv snd_conv assms(3)
proof (intro conjI)
  show "fst ` set E0 \<subseteq> fst ` set E'" 
    using assms(1) image_mono[OF assms(2), of fst] unfolding exclusive_def fst_conv by (meson order_trans)
  show "\<forall>v i. ph v = Holding i \<longrightarrow> (attempt_name i, True) \<in> set E' \<and> attempt_name i \<notin> fst ` set E0"
    using assms(1,2) by (simp add: exclusive_def) blast
  show "\<forall>v w i. ph v = Holding i \<longrightarrow> ph w = Holding i \<longrightarrow> v = w"
    using assms(1) by (simp add: exclusive_def)
qed

lemma exclusive_new_holder:
  assumes "exclusive E0 (E, ph)" "attempt_name i \<notin> fst ` set E"
  shows "exclusive E0 (E @ [(attempt_name i, True)], ph(w := Holding i))"
proof -
  have free: "ph v \<noteq> Holding i" for v
    using assms unfolding exclusive_def fst_conv snd_conv by (metis fst_conv imageI)
  have held: "(attempt_name k, True) \<in> set E \<and> attempt_name k \<notin> fst ` set E0" if "ph v = Holding k" for v k
    using assms(1) that unfolding exclusive_def fst_conv snd_conv by blast
  have alone: "v = u" if "ph v = Holding k" "ph u = Holding k" for v u k
    using assms(1) that unfolding exclusive_def fst_conv snd_conv by blast
  have "attempt_name i \<notin> fst ` set E0" using assms by (auto simp: exclusive_def)
  then show ?thesis
    unfolding exclusive_def fst_conv snd_conv
    using assms(1) free held alone by (auto simp: exclusive_def split: if_splits)
qed

lemma race_step_exclusive:
  assumes "race_step s s'" "exclusive E0 s"
  shows "exclusive E0 s'"
  using assms
proof (induction rule: race_step.induct)
  case (creates ph w i E E')
  then show ?case using exclusive_new_holder[OF creates.prems] by (simp add: try_mkdir_Some)
next
  case (scans ph w E used)
  then show ?case by (intro exclusive_same_holders[OF scans.prems]) simp_all
next
  case (moves_on ph w i E)
  then show ?case by (intro exclusive_same_holders[OF moves_on.prems]) simp_all
next
  case (someone_else E ph entry)
  then show ?case by (intro exclusive_same_holders[OF someone_else.prems]) auto
qed

lemma race_exclusive: "race_step\<^sup>*\<^sup>* (E0, all_idle) s \<Longrightarrow> exclusive E0 s"
proof (induction rule: rtranclp_induct)
  case base
  show ?case by (simp add: exclusive_def all_idle_def)
qed (rule race_step_exclusive)

text \<open>
  C26: Whatever the interleaving of scans and \<open>mkdir\<close>s by any number of workers and other processes, no
  two workers hold the same attempt directory, and no worker holds one that was there before.
\<close>

theorem attempt_dirs_are_exclusive:
  assumes "race_step\<^sup>*\<^sup>* (E0, all_idle) (E, ph)" "ph v = Holding i" "ph w = Holding j" "v \<noteq> w"
  shows "attempt_name i \<noteq> attempt_name j \<and> attempt_name i \<notin> fst ` set E0 \<and> (attempt_name i, True) \<in> set E"
  using race_exclusive[OF assms(1)] assms(2-4) inj_eq[OF inj_attempt_name, of i j]
  unfolding exclusive_def by (metis fst_conv snd_conv)

text \<open>Two workers that both scanned the empty directory before either created anything.\<close>

lemma attempt_dirs_are_exclusive_witness:
  "attempt_name 0 \<noteq> attempt_name 1 \<and> attempt_name 0 \<notin> fst ` set []
 \<and> (attempt_name 0, True) \<in> set [(attempt_name 0, True), (attempt_name 1, True)]"
proof -
  define E1 where "E1 = [(attempt_name 0, True)]"
  define E2 where "E2 = [(attempt_name 0, True), (attempt_name 1, True)]"
  define a where "a = all_idle(0 := Trying 0)"
  define b where "b = a(1 := Trying 0)"
  define c where "c = b(0 := Holding 0)"
  define d where "d = c(1 := Trying 1)"
  define e where "e = d(1 := Holding 1)"
  have u: "used_indices [] = Inr []" "first_index [] = 0"
    by (simp_all add: used_indices_def first_index_def List.map_filter_def)
  have ne: "attempt_name 1 \<noteq> attempt_name 0" using inj_eq[OF inj_attempt_name, of 1 0] by simp
  have "race_step ([], all_idle) ([], a)" unfolding a_def u(2)[symmetric]
    by (rule scans) (simp_all add: all_idle_def u)
  moreover have "race_step ([], a) ([], b)" unfolding b_def u(2)[symmetric]
    by (rule scans) (simp_all add: a_def all_idle_def u)
  moreover have "race_step ([], b) (E1, c)" unfolding c_def
    by (rule creates) (simp_all add: b_def a_def E1_def try_mkdir_def)
  moreover have "race_step (E1, c) (E1, d)" unfolding d_def
    using moves_on[of c 1 0 E1] by (simp add: c_def b_def E1_def try_mkdir_def)
  moreover have "race_step (E1, d) (E2, e)" unfolding e_def
    by (rule creates) (use ne in \<open>simp_all add: d_def E1_def E2_def try_mkdir_def\<close>)
  ultimately have "race_step\<^sup>*\<^sup>* ([], all_idle) (E2, e)"
    by (meson rtranclp.rtrancl_refl rtranclp.rtrancl_into_rtrancl)
  then show ?thesis
    using attempt_dirs_are_exclusive[of "[]" E2 e 0 0 1 1] by (simp add: e_def d_def c_def E2_def)
qed

lemma solo_run:
  "ph w = Trying i \<Longrightarrow> claim_loop fuel i E = Some (j, E') \<Longrightarrow> race_step\<^sup>*\<^sup>* (E, ph) (E', ph(w := Holding j))"
proof (induction fuel arbitrary: i ph)
  case (Suc fuel)
  show ?case
  proof (cases "try_mkdir i E")
    case None
    define ph1 where "ph1 = ph(w := Trying (i + 1))"
    have "race_step (E, ph) (E, ph1)" unfolding ph1_def using moves_on[of ph w i E] Suc.prems(1) None by simp
    moreover have "race_step\<^sup>*\<^sup>* (E, ph1) (E', ph1(w := Holding j))"
      using Suc.prems(2) None by (intro Suc.IH[of _ "i + 1"]) (simp_all add: ph1_def)
    ultimately have "race_step\<^sup>*\<^sup>* (E, ph) (E', ph1(w := Holding j))"
      by (rule converse_rtranclp_into_rtranclp)
    moreover have "ph1(w := Holding j) = ph(w := Holding j)" by (simp add: ph1_def)
    ultimately show ?thesis by metis
  next
    case (Some E1)
    with Suc.prems(2) have "E1 = E'" "i = j" by simp_all
    with creates[of ph w i E E'] Suc.prems(1) Some show ?thesis by (metis r_into_rtranclp)
  qed
qed simp

text \<open>
  C27: No attempt waits for ever: from every state of the race a worker that is trying can get a
  directory by its own tries alone, at most as many further ones as there are entries, whatever the
  others created before.
\<close>

theorem trying_worker_gets_a_directory:
  assumes "ph w = Trying i"
  shows "\<exists>j. i \<le> j \<and> j \<le> i + length E
           \<and> race_step\<^sup>*\<^sup>* (E, ph) (E @ [(attempt_name j, True)], ph(w := Holding j))"
proof -
  obtain j where j: "claim_loop (Suc (length E)) i E = Some (j, E @ [(attempt_name j, True)])"
    using claim_loop_ends by blast
  from claim_loop_Some[OF j] have "i \<le> j" "j \<le> i + length E" by simp_all
  with solo_run[of ph w i, OF assms j] show ?thesis by blast
qed

lemma trying_worker_gets_a_directory_witness:
  "\<exists>j \<le> 1. race_step\<^sup>*\<^sup>* ([(attempt_name 0, False)], all_idle(5 := Trying 0))
     ([(attempt_name 0, False), (attempt_name j, True)], all_idle(5 := Trying 0, 5 := Holding j))"
  using trying_worker_gets_a_directory[of "all_idle(5 := Trying 0)" 5 0 "[(attempt_name 0, False)]"] by auto

text \<open>One worker alone: it always gets a directory that is not there, numbered behind every attempt.\<close>

lemma claim_attempt_dir_fresh:
  assumes "used_indices E = Inr used"
  shows "\<exists>j. claim_attempt_dir E = Some (Inr (j, E @ [(attempt_name j, True)]))
       \<and> attempt_name j \<notin> fst ` set E \<and> (\<forall>k \<in> set used. k < j)"
proof -
  obtain j where j: "claim_loop (Suc (length E)) (first_index used) E = Some (j, E @ [(attempt_name j, True)])"
    using claim_loop_ends by blast
  have "k < first_index used" if "k \<in> set used" for k
    using that by (auto simp: first_index_def less_Suc_eq_le)
  with claim_loop_Some[OF j] have "\<forall>k \<in> set used. k < j" by fastforce
  with claim_loop_Some[OF j] j show ?thesis
    by (simp add: claim_attempt_dir_def assms try_mkdir_Some del: claim_loop.simps)
qed

section \<open>Reading a proof back\<close>

text \<open>
  A candidate file as every seed and every honest answer has it: the statement, \<open>:=\<close> and a body between
  the markers. \<open>flat\<close> is a statement whose brackets close and that has no \<open>:=\<close> outside of them.
\<close>

definition candidate_file :: "string \<Rightarrow> string \<Rightarrow> string \<Rightarrow> string \<Rightarrow> string" where
  "candidate_file head statement body rest =
     head @ ''-- EDIT-REGION-BEGIN'' @ nl @ statement @ '' :='' @ body @ nl @ ''-- EDIT-REGION-END'' @ rest"

fun flat :: "int \<Rightarrow> string \<Rightarrow> bool" where
  "flat depth [] = (depth = 0)"
| "flat depth (c # cs) =
     (if c \<in> set ''([{'' then flat (depth + 1) cs
      else if c \<in> set '')]}'' then flat (depth - 1) cs
      else \<not> (c = CHR '':'' \<and> depth = 0 \<and> cs \<noteq> [] \<and> hd cs = CHR ''='') \<and> flat depth cs)"

lemma after_definition_flat:
  "flat depth s \<Longrightarrow> after_definition depth (s @ '' :='' @ body) = Some body"
proof (induction depth s rule: flat.induct)
  case (2 depth c cs)
  obtain d ds where ds: "cs @ '' :='' @ body = d # ds" by (cases cs) auto
  have "after_definition depth (c # cs @ '' :='' @ body) = Some body"
    using 2 ds by (cases cs) (auto split: if_splits)
  then show ?case by simp
qed simp

lemma flat_nl: "flat 0 (nl @ s) = flat 0 s"
  by (simp add: nl_def)

text \<open>Lines of a text whose only line breaks are line feeds.\<close>

lemma split_on_unfold:
  "split_on c s = (case dropWhile (\<lambda>x. x \<noteq> c) s of [] \<Rightarrow> [s] | _ # rest \<Rightarrow> takeWhile (\<lambda>x. x \<noteq> c) s # split_on c rest)"
proof (induction s)
  case (Cons x xs)
  then show ?case
    by (cases "dropWhile (\<lambda>x. x \<noteq> c) xs") (simp_all del: dropWhile_eq_Nil_conv)
qed simp

lemma join_split_on: "join [c] (split_on c s) = s"
proof (induction s)
  case (Cons x xs)
  obtain w ws where w: "split_on c xs = w # ws" by (cases "split_on c xs") auto
  then show ?case using Cons.IH by (cases ws) auto
qed simp

lemma split_on_append: "split_on c (a @ c # b) = split_on c a @ split_on c b"
proof (induction a)
  case (Cons x xs)
  obtain w ws where w: "split_on c xs = w # ws" by (cases "split_on c xs") auto
  then show ?case using Cons.IH by auto
qed simp

definition unix_text :: "string \<Rightarrow> bool" where
  "unix_text s \<longleftrightarrow> (\<forall>c \<in> set s. py_linebreak c \<longrightarrow> c = CHR 0x0A)"

lemma splitlines_unix:
  assumes "unix_text s" "s \<noteq> []" "last s \<noteq> CHR 0x0A"
  shows "splitlines s = split_on (CHR 0x0A) s"
  using assms
proof (induction s rule: splitlines.induct)
  case (1 s)
  have br: "py_linebreak c \<longleftrightarrow> c = CHR 0x0A" if "c \<in> set s" for c
    using 1(2) that by (auto simp: unix_text_def py_linebreak_def)
  then have eq: "dropWhile (\<lambda>c. \<not> py_linebreak c) s = dropWhile (\<lambda>c. c \<noteq> CHR 0x0A) s"
      "takeWhile (\<lambda>c. \<not> py_linebreak c) s = takeWhile (\<lambda>c. c \<noteq> CHR 0x0A) s"
    by (auto intro!: dropWhile_cong takeWhile_cong)
  show ?case
  proof (cases "dropWhile (\<lambda>c. c \<noteq> CHR 0x0A) s")
    case Nil
    then show ?thesis using 1(3) by (subst splitlines.simps, subst split_on_unfold) (simp add: eq del: split_on.simps dropWhile_eq_Nil_conv)
  next
    case (Cons c rest)
    have c: "c = CHR 0x0A" using Cons hd_dropWhile[of "\<lambda>c. c \<noteq> CHR 0x0A" s] by auto
    have s: "s = takeWhile (\<lambda>c. c \<noteq> CHR 0x0A) s @ c # rest"
      using takeWhile_dropWhile_id[of "\<lambda>c. c \<noteq> CHR 0x0A" s] Cons by simp
    have "rest \<noteq> []" using 1(4) c s by (metis last_snoc)
    moreover have "last rest = last s" using s \<open>rest \<noteq> []\<close> by (metis last_ConsR last_appendR list.distinct(1))
    moreover have "unix_text rest" using 1(2) s unfolding unix_text_def by (metis UnCI list.set_intros(2) set_append)
    ultimately have "splitlines rest = split_on (CHR 0x0A) rest"
      using 1(1)[OF 1(3) Cons[folded eq(1)]] 1(4) c by simp
    then show ?thesis
      using 1(3) c by (subst splitlines.simps, subst split_on_unfold) (simp add: eq Cons del: split_on.simps)
  qed
qed

text \<open>A body as a candidate writes it: no break at its edges, and no comment opener as its last line.\<close>

definition neat_body :: "string \<Rightarrow> bool" where
  "neat_body body \<longleftrightarrow> unix_text body \<and> body \<noteq> [] \<and> hd body \<noteq> CHR 0x0A \<and> \<not> py_space (last body)
     \<and> strip (last (split_on (CHR 0x0A) body)) \<notin> set comment_openers"

lemma trim_marker_comment:
  assumes "neat_body body"
  shows "trim_dangling_comment (body @ nl @ ''-- '') = body"
proof -
  let ?lf = "CHR 0x0A :: char"
  have sp: "py_space (CHR '' '')" "\<not> py_space (CHR ''-'')" by (simp_all add: py_space_def)
  have body: "body \<noteq> []" "hd body \<noteq> ?lf" "\<not> py_space (last body)" "unix_text body"
    using assms by (simp_all add: neat_body_def)
  have "dropWhile (\<lambda>c. c = ?lf) (body @ nl @ ''-- '') = body @ nl @ ''-- ''"
    using body(1,2) by (cases body) auto
  then have "strip_breaks (body @ nl @ ''-- '') = body @ nl @ ''-- ''" by (simp add: strip_breaks_def nl_def)
  moreover have "rstrip (body @ nl @ ''-- '') = body @ ?lf # ''--''"
    using rstrip_append_nonspace[of "''--''" "body @ nl" "'' ''"] sp by (simp add: rstrip_def nl_def)
  moreover have "splitlines (body @ ?lf # ''--'') = split_on ?lf body @ [''--'']"
  proof -
    have "unix_text (body @ ?lf # ''--'')" using body(4) by (simp add: unix_text_def py_linebreak_def)
    from splitlines_unix[OF this] show ?thesis by (simp add: split_on_append)
  qed
  moreover have "strip ''--'' \<in> set comment_openers"
    by (simp add: strip_def lstrip_def rstrip_def sp comment_openers_def)
  moreover have "dropWhile (\<lambda>l. strip l \<in> set comment_openers) (rev (split_on ?lf body)) = rev (split_on ?lf body)"
  proof -
    have "strip (hd (rev (split_on ?lf body))) \<notin> set comment_openers"
      using assms by (simp add: neat_body_def hd_rev)
    then show ?thesis by (cases "rev (split_on ?lf body)") simp_all
  qed
  ultimately have "trim_dangling_comment (body @ nl @ ''-- '') = rstrip (join [?lf] (split_on ?lf body))"
    by (simp add: trim_dangling_comment_def nl_def)
  then show ?thesis using body by (simp add: join_split_on rstrip_id)
qed



text \<open>
  A statement that itself defines something, as in \<open>let x := 1; x = x\<close>, is cut at its own \<open>:=\<close>: the
  body read back from the seed of such a goal starts in the middle of the statement.
\<close>

theorem let_in_statement_is_cut:
  "proof_body (seed_text ''theorem a : let x := 1; x = x'' [])
     = Some ('' 1; x = x := by'' @ nl @ ''  sorry'')"
  by code_simp

end
