(* ===== verification/Envelope.thy ===== *)
theory Envelope
  imports RunSolver GraphWrites
begin

text \<open>
  \<open>proof/envelope.py\<close>: a candidate file split once into what the verifier checks. The hash of the
  file and the hash of an envelope's content are parameters; the context is the JSON object it is.
  The lemmas show what the split promises: nothing but the graph's preamble, one edit region that opens
  with the goal's own declaration, and the allowed commands behind it; and that a seed passes it.
\<close>

section \<open>The contract\<close>

definition region_begin :: string where
  "region_begin = ''-- EDIT-REGION-BEGIN''"

definition region_end :: string where
  "region_end = ''-- EDIT-REGION-END''"

definition strippable :: "string list" where
  "strippable = [''#print axioms'', ''#print'', ''#check'']"

datatype envelope_error =
  DanglingIn string
| PreambleChanged
| NoMarker string
| TextBeforeRegion
| EmptyRegion
| WrongDeclaration string string
| CommandRefused string
| BadRoots
| RepeatedRoots

record source_envelope =
  candidate_file_sha256 :: string
  se_imports :: "string list"
  se_ctx :: json
  se_body :: string
  primary_root :: string
  expected_roots :: "string list"
  stripped_commands :: "string list"
  schema_version :: int

text \<open>The constructor with its \<open>__post_init__\<close>.\<close>

definition mk_envelope :: "source_envelope \<Rightarrow> envelope_error + source_envelope" where
  "mk_envelope e =
     (if expected_roots e = [] \<or> primary_root e \<notin> set (expected_roots e) then Inl BadRoots
      else if length (remdups (expected_roots e)) \<noteq> length (expected_roots e) then Inl RepeatedRoots
      else Inr e)"

section \<open>The preamble\<close>

text \<open>\<open>(^|\s)in$\<close> on a line without a trailing break.\<close>

definition ends_in_in :: "string \<Rightarrow> bool" where
  "ends_in_in s \<longleftrightarrow>
     (let n = length s in 2 \<le> n \<and> drop (n - 2) s = ''in'' \<and> (n = 2 \<or> py_space (s ! (n - 3))))"

text \<open>The header of the preamble: the imports, and the lines from the first that is not of the header.\<close>

fun preamble_header :: "string list \<Rightarrow> string list \<times> string list" where
  "preamble_header [] = ([], [])"
| "preamble_header (l # ls) =
     (let stripped = strip l in
      if startswith stripped ''import '' then (let (imports, rest) = preamble_header ls in (stripped # imports, rest))
      else if stripped \<noteq> [] \<and> \<not> startswith stripped ''--'' then ([], l # ls)
      else preamble_header ls)"

definition last_command :: "string \<Rightarrow> string" where
  "last_command rest =
     (case List.find (\<lambda>l. l \<noteq> [] \<and> \<not> startswith l ''--'') (map strip (rev (splitlines rest))) of
        None \<Rightarrow> [] | Some l \<Rightarrow> l)"

definition preamble_context :: "string \<Rightarrow> envelope_error + string list \<times> json" where
  "preamble_context preamble =
     (let (imports, rest_lines) = preamble_header (splitlines (strip preamble));
          rest = strip (join nl rest_lines);
          final = last_command rest
      in if ends_in_in final then Inl (DanglingIn final)
         else Inr (imports, if rest = [] then JObj [] else JObj [(''raw'', JList [JStr rest])]))"

section \<open>The split\<close>

definition strippable_command :: "string \<Rightarrow> bool" where
  "strippable_command command \<longleftrightarrow>
     list_ex (\<lambda>c. command = c \<or> startswith command (c @ '' '')) strippable"

fun strip_commands :: "string list \<Rightarrow> envelope_error + string list" where
  "strip_commands [] = Inr []"
| "strip_commands (l # ls) =
     (let command = strip l in
      if command = [] \<or> startswith command ''--'' then strip_commands ls
      else if strippable_command command then bindE (strip_commands ls) (\<lambda>cs. Inr (command # cs))
      else Inl (CommandRefused (take 80 command)))"

definition split_source ::
  "(string \<Rightarrow> string) \<Rightarrow> string \<Rightarrow> string \<Rightarrow> string \<Rightarrow> string \<Rightarrow> envelope_error + source_envelope" where
  "split_source sha cand preamble goal_root name_prefix =
     (let pre = strip preamble in
      if \<not> startswith cand pre then Inl PreambleChanged
      else let after = drop (length pre) cand in
      case find_sub region_begin after of
        None \<Rightarrow> Inl (NoMarker region_begin)
      | Some begin_at \<Rightarrow>
          if strip (take begin_at after) \<noteq> [] then Inl TextBeforeRegion
          else let region_and_tail = drop (begin_at + length region_begin) after in
          case find_sub region_end region_and_tail of
            None \<Rightarrow> Inl (NoMarker region_end)
          | Some end_at \<Rightarrow>
              let body = rstrip (strip_breaks (take end_at region_and_tail)) in
              if strip body = [] then Inl EmptyRegion
              else let declared = declared_name (before_first '':='' body) in
              if declared \<noteq> goal_root then Inl (WrongDeclaration goal_root declared)
              else bindE (strip_commands (splitlines (drop (end_at + length region_end) region_and_tail)))
                (\<lambda>stripped. bindE (preamble_context pre) (\<lambda>(imports, ctx).
                   mk_envelope \<lparr>candidate_file_sha256 = sha cand, se_imports = imports, se_ctx = ctx,
                     se_body = body, primary_root = name_prefix @ goal_root,
                     expected_roots = [name_prefix @ goal_root], stripped_commands = stripped,
                     schema_version = envelope_schema_version_now\<rparr>)))"

section \<open>The persisted form\<close>

definition json_strings :: "string list \<Rightarrow> json" where
  "json_strings ss = JList (map JStr ss)"

text \<open>\<open>asdict\<close>, in the order of the fields.\<close>

definition envelope_fields :: "source_envelope \<Rightarrow> (string \<times> json) list" where
  "envelope_fields e =
     [(''candidate_file_sha256'', JStr (candidate_file_sha256 e)),
      (''imports'', json_strings (se_imports e)),
      (''ctx'', se_ctx e),
      (''body'', JStr (se_body e)),
      (''primary_root'', JStr (primary_root e)),
      (''expected_roots'', json_strings (expected_roots e)),
      (''stripped_commands'', json_strings (stripped_commands e)),
      (''schema_version'', JInt (schema_version e))]"

definition envelope_hash :: "(json \<Rightarrow> string) \<Rightarrow> source_envelope \<Rightarrow> string" where
  "envelope_hash stable_hash e = stable_hash (JObj (envelope_fields e))"

definition envelope_to_dict :: "(json \<Rightarrow> string) \<Rightarrow> source_envelope \<Rightarrow> (string \<times> json) list" where
  "envelope_to_dict stable_hash e = envelope_fields e @ [(''envelope_hash'', JStr (envelope_hash stable_hash e))]"

section \<open>What the split promises\<close>

lemma mk_envelope_Inr: "mk_envelope e = Inr e' \<Longrightarrow> e' = e"
  by (simp add: mk_envelope_def split: if_splits)

definition ignorable :: "string \<Rightarrow> bool" where
  "ignorable command \<longleftrightarrow> command = [] \<or> startswith command ''--''"

lemma strip_commands_Inr:
  "strip_commands ls = Inr cs \<Longrightarrow>
     cs = filter (\<lambda>c. \<not> ignorable c) (map strip ls) \<and> list_all strippable_command cs"
  by (induction ls arbitrary: cs) (auto simp: ignorable_def Let_def bindE_Inr_iff split: if_splits)

lemma split_sourceE:
  assumes "split_source sha cand preamble goal_root name_prefix = Inr e"
  obtains after begin_at end_at stripped imps ctx where
    "startswith cand (strip preamble)" "after = drop (length (strip preamble)) cand"
    "find_sub region_begin after = Some begin_at" "strip (take begin_at after) = []"
    "find_sub region_end (drop (begin_at + length region_begin) after) = Some end_at"
    "se_body e = rstrip (strip_breaks (take end_at (drop (begin_at + length region_begin) after)))"
    "strip (se_body e) \<noteq> []" "declared_name (before_first '':='' (se_body e)) = goal_root"
    "strip_commands (splitlines (drop (end_at + length region_end) (drop (begin_at + length region_begin) after)))
       = Inr stripped"
    "preamble_context (strip preamble) = Inr (imps, ctx)"
    "candidate_file_sha256 e = sha cand" "se_imports e = imps" "se_ctx e = ctx"
    "primary_root e = name_prefix @ goal_root" "expected_roots e = [name_prefix @ goal_root]"
    "stripped_commands e = stripped" "schema_version e = envelope_schema_version_now"
proof -
  note split = assms[unfolded split_source_def Let_def]
  define after where "after = drop (length (strip preamble)) cand"
  have pre: "startswith cand (strip preamble)" using split by (simp split: if_splits)
  obtain begin_at where b: "find_sub region_begin after = Some begin_at"
    using split pre by (cases "find_sub region_begin after") (simp_all add: after_def)
  have gap: "strip (take begin_at after) = []" using split pre b by (simp add: after_def split: if_splits)
  define rest where "rest = drop (begin_at + length region_begin) after"
  obtain end_at where e: "find_sub region_end rest = Some end_at"
    using split pre b gap by (cases "find_sub region_end rest") (simp_all add: after_def rest_def)
  define body where "body = rstrip (strip_breaks (take end_at rest))"
  have body: "strip body \<noteq> []" "declared_name (before_first '':='' body) = goal_root"
    using split pre b gap e
    by (simp_all add: after_def rest_def body_def split: if_splits del: drop_drop)
  obtain stripped where s: "strip_commands (splitlines (drop (end_at + length region_end) rest)) = Inr stripped"
      and "\<exists>imps ctx. preamble_context (strip preamble) = Inr (imps, ctx) \<and>
        mk_envelope \<lparr>candidate_file_sha256 = sha cand, se_imports = imps, se_ctx = ctx,
           se_body = body, primary_root = name_prefix @ goal_root,
           expected_roots = [name_prefix @ goal_root], stripped_commands = stripped,
           schema_version = envelope_schema_version_now\<rparr> = Inr e"
    using split pre b gap e body
    by (auto simp: after_def rest_def body_def bindE_Inr_iff simp del: drop_drop)
  then obtain imps ctx where c: "preamble_context (strip preamble) = Inr (imps, ctx)"
      and "e = \<lparr>candidate_file_sha256 = sha cand, se_imports = imps, se_ctx = ctx,
           se_body = body, primary_root = name_prefix @ goal_root,
           expected_roots = [name_prefix @ goal_root], stripped_commands = stripped,
           schema_version = envelope_schema_version_now\<rparr>"
    using mk_envelope_Inr by blast
  then show thesis
    using that[OF pre after_def b gap e[unfolded rest_def]] body s
    by (simp add: body_def rest_def del: drop_drop)
qed

lemma region_marks: "region_begin \<noteq> []" "region_end \<noteq> []"
  by (simp_all add: region_begin_def region_end_def)

text \<open>
  C29: A file that is split consists of the graph's preamble, white space, one edit region and a tail.
  The body is the region without its outer breaks and opens with the goal's own declaration; the
  tail has nothing but blank lines, comments and the allowed commands, and these are exactly what the
  envelope lists; the imports and the context come from the preamble alone.
\<close>

theorem split_is_sound:
  assumes "split_source sha cand preamble goal_root name_prefix = Inr e"
  shows "\<exists>gap region tail commands.
      cand = strip preamble @ gap @ region_begin @ region @ region_end @ tail
    \<and> list_all py_space gap \<and> \<not> occurs_in region_end region
    \<and> se_body e = rstrip (strip_breaks region) \<and> \<not> list_all py_space (se_body e)
    \<and> declared_name (before_first '':='' (se_body e)) = goal_root
    \<and> commands = map strip (splitlines tail)
    \<and> stripped_commands e = filter (\<lambda>c. \<not> ignorable c) commands \<and> list_all strippable_command (stripped_commands e)
    \<and> preamble_context (strip preamble) = Inr (se_imports e, se_ctx e)
    \<and> primary_root e = name_prefix @ goal_root \<and> expected_roots e = [primary_root e]
    \<and> candidate_file_sha256 e = sha cand"
proof -
  obtain after b n cs where
    pre: "startswith cand (strip preamble)" "after = drop (length (strip preamble)) cand"
    and b: "find_sub region_begin after = Some b" "strip (take b after) = []"
    and n: "find_sub region_end (drop (b + length region_begin) after) = Some n"
    and body: "se_body e = rstrip (strip_breaks (take n (drop (b + length region_begin) after)))"
      "strip (se_body e) \<noteq> []" "declared_name (before_first '':='' (se_body e)) = goal_root"
    and cs: "strip_commands (splitlines (drop (n + length region_end) (drop (b + length region_begin) after))) = Inr cs"
      "stripped_commands e = cs"
    and ctx: "preamble_context (strip preamble) = Inr (se_imports e, se_ctx e)"
    and roots: "primary_root e = name_prefix @ goal_root" "expected_roots e = [name_prefix @ goal_root]"
      "candidate_file_sha256 e = sha cand"
    using assms by (rule split_sourceE) (blast intro: that)
  define rest where "rest = drop (b + length region_begin) after"
  have "cand = strip preamble @ after" using pre by (auto simp: startswith_iff)
  moreover have "after = take b after @ region_begin @ rest" using find_sub_split(1)[OF b(1)] by (simp add: rest_def)
  moreover have "rest = take n rest @ region_end @ drop (n + length region_end) rest"
    using find_sub_split(1)[OF n] by (simp add: rest_def del: drop_drop)
  ultimately have "cand = strip preamble @ take b after @ region_begin @ take n rest @ region_end
      @ drop (n + length region_end) rest" by metis
  moreover have "\<not> occurs_in region_end (take n rest)"
    using find_sub_split(2)[OF n region_marks(2)] by (simp add: rest_def)
  moreover have "cs = filter (\<lambda>c. \<not> ignorable c) (map strip (splitlines (drop (n + length region_end) rest)))
      \<and> list_all strippable_command cs"
    using strip_commands_Inr[OF cs(1)] unfolding rest_def .
  ultimately show ?thesis
    using b(2) body ctx roots cs(2) unfolding strip_Nil_iff rest_def by metis
qed

section \<open>Seeds pass\<close>

text \<open>A statement that a seed can carry: it starts and ends in text, and has neither \<open>:=\<close> nor a marker.\<close>

definition plain_statement :: "string \<Rightarrow> bool" where
  "plain_statement st \<longleftrightarrow> st \<noteq> [] \<and> strip st = st \<and> \<not> occurs_in '':='' (st @ '' '')
     \<and> \<not> occurs_in region_end (nl @ st @ '' := by'' @ nl @ ''  sorry'' @ nl) \<and> declared_name st \<noteq> ''unknown''"

definition seed_tail :: "string \<Rightarrow> string" where
  "seed_tail st = nl @ nl @ ''#print axioms '' @ declared_name st @ nl"

lemma first_word_ok: "(\<forall>c \<in> set (first_word s). \<not> py_space c) \<and> (s \<noteq> [] \<longrightarrow> \<not> py_space (hd s) \<longrightarrow> first_word s \<noteq> [])"
  by (cases s) (auto simp: first_word_def dest: set_takeWhileD)

lemma after_keyword_hd: "b = [] \<or> \<not> py_space (hd b) \<Longrightarrow> after_keyword ks b = [] \<or> \<not> py_space (hd (after_keyword ks b))"
  by (induction ks) (use lstrip_hd in auto)

lemma declared_name_word: "declared_name s \<noteq> [] \<and> (\<forall>c \<in> set (declared_name s). \<not> py_space c)"
proof -
  define body where "body = after_keyword [''theorem'', ''lemma'', ''example'', ''def''] (strip s)"
  have u: "\<forall>c \<in> set ''unknown''. \<not> py_space c" by (simp add: py_space_def)
  have "body = [] \<or> \<not> py_space (hd body)" unfolding body_def by (rule after_keyword_hd[OF strip_hd])
  moreover have "declared_name s = (if body \<noteq> [] then first_word body else ''unknown'')"
    unfolding declared_name_def Let_def body_def ..
  ultimately show ?thesis
  proof (cases "body = []")
    case False
    then have "declared_name s = first_word body" "\<not> py_space (hd body)"
      using \<open>declared_name s = _\<close> \<open>body = [] \<or> _\<close> by simp_all
    then show ?thesis using first_word_ok[of body] False by metis
  next
    case True
    then have "declared_name s = ''unknown''" using \<open>declared_name s = _\<close> by simp
    then show ?thesis using u by (metis list.distinct(1))
  qed
qed

lemma seed_tail_commands: "strip_commands (splitlines (seed_tail st)) = Inr [''#print axioms '' @ declared_name st]"
proof -
  let ?c = "''#print axioms '' @ declared_name st" and ?lf = "CHR 0x0A :: char"
  have word: "declared_name st \<noteq> []" "\<forall>c \<in> set (declared_name st). \<not> py_space c" using declared_name_word by auto
  have br: "\<not> py_linebreak x" if "x \<in> set ?c" for x
    using that word(2) by (auto simp: py_linebreak_def py_space_def)
  have lf: "py_linebreak ?lf" by (simp add: py_linebreak_def)
  have one: "splitlines (?c @ [?lf]) = [?c]"
  proof -
    have "dropWhile (\<lambda>c. \<not> py_linebreak c) (?c @ [?lf]) = [?lf]" "takeWhile (\<lambda>c. \<not> py_linebreak c) (?c @ [?lf]) = ?c"
      by (subst dropWhile_append2 takeWhile_append2, erule br, simp add: lf)+
    then show ?thesis by (subst splitlines.simps) simp
  qed
  have "splitlines (?lf # ?lf # ?c @ [?lf]) = [[], [], ?c]"
    by (subst splitlines.simps, simp add: lf, subst splitlines.simps, simp add: lf one[simplified])
  then have "splitlines (seed_tail st) = [[], [], ?c]" by (simp add: seed_tail_def nl_def)
  moreover have "strip ?c = ?c"
    using word by (simp add: strip_def lstrip_id rstrip_id py_space_def)
  moreover have "strippable_command ?c" by (simp add: strippable_command_def strippable_def startswith_def)
  moreover have "strip [] = []" by (simp add: strip_def lstrip_def rstrip_def)
  ultimately show ?thesis by (simp add: startswith_def Let_def)
qed

text \<open>
  The seed of a goal is a candidate that the split accepts, under every preamble that is free of
  outer white space and that the split itself accepts: its body is the statement with the
  placeholder proof, and its one stripped command is the axiom report.
\<close>

theorem seeds_are_split:
  assumes "plain_statement st" "strip preamble = preamble" "preamble_context preamble = Inr (imps, ctx)"
  shows "split_source sha (seed_text st preamble) preamble (declared_name st) name_prefix =
    Inr \<lparr>candidate_file_sha256 = sha (seed_text st preamble), se_imports = imps, se_ctx = ctx,
      se_body = st @ '' := by'' @ nl @ ''  sorry'', primary_root = name_prefix @ declared_name st,
      expected_roots = [name_prefix @ declared_name st],
      stripped_commands = [''#print axioms '' @ declared_name st], schema_version = envelope_schema_version_now\<rparr>"
proof -
  let ?lf = "CHR 0x0A :: char"
  define E where "E = region_end"
  define body where "body = st @ '' := by'' @ nl @ ''  sorry''"
  define region where "region = nl @ body @ nl"
  define gap where "gap = (if preamble = [] then [] else nl @ nl)"
  define rest where "rest = region @ E @ seed_tail st"
  have st: "st \<noteq> []" "strip st = st" "\<not> occurs_in '':='' (st @ '' '')" "\<not> occurs_in E region"
    using assms(1) by (simp_all add: plain_statement_def E_def region_def body_def)
  have cand: "seed_text st preamble = preamble @ gap @ region_begin @ rest"
    by (simp add: seed_text_def gap_def region_begin_def rest_def region_def E_def region_end_def body_def seed_tail_def)
  have after: "drop (length preamble) (seed_text st preamble) = gap @ region_begin @ rest" by (simp add: cand)
  have b: "find_sub region_begin (gap @ region_begin @ rest) = Some (length gap)"
  proof (rule find_sub_first)
    fix k assume "occurs_at region_begin (gap @ region_begin @ rest) k"
    then show "length gap \<le> k"
      using occurs_behind[of region_begin "[?lf]" ?lf "region_begin @ rest" k]
      by (cases "preamble = []") (simp_all add: gap_def nl_def region_begin_def occurs_in_def)
  qed
  have n: "find_sub E rest = Some (length region)"
    using find_sub_behind[of E "nl @ body" ?lf "seed_tail st"] st(4)
    by (simp add: rest_def region_def nl_def E_def region_end_def)
  have hd: "\<not> py_space (hd st)" using strip_hd[of st] st(1,2) by simp
  have "last body = CHR ''y''" "body \<noteq> []" by (simp_all add: body_def)
  moreover have "hd body = hd st" using st(1) by (simp add: body_def)
  moreover have "\<not> py_space (CHR ''y'')" "py_space ?lf" by (simp_all add: py_space_def)
  ultimately have body: "hd body \<noteq> ?lf" "last body \<noteq> ?lf" "\<not> py_space (last body)" "body \<noteq> []"
    using hd by metis+
  have "strip_breaks region = body"
  proof -
    have "dropWhile (\<lambda>c. c = ?lf) region = body @ nl" using body(1,4) by (cases body) (simp_all add: region_def nl_def)
    moreover have "dropWhile (\<lambda>c. c = ?lf) (rev (body @ nl)) = rev body"
      using body(2,4) by (cases "rev body") (auto simp: nl_def last_rev[symmetric] hd_rev)
    ultimately show ?thesis by (simp add: strip_breaks_def)
  qed
  then have region: "rstrip (strip_breaks region) = body" using body(3) by (simp add: rstrip_id)
  have "strip body \<noteq> []" using body(3,4) by (auto simp: strip_Nil_iff list_all_iff)
  have "find_sub '':='' ((st @ '' '') @ '':='' @ '' by'' @ nl @ ''  sorry'') = Some (length st + 1)"
    using find_sub_behind[of "'':=''" st "CHR '' ''" "'' by'' @ nl @ ''  sorry''"] st(3) by simp
  then have "before_first '':='' body = st @ '' ''" by (simp add: before_first_def body_def)
  moreover have "declared_name (st @ '' '') = declared_name st"
  proof -
    have "strip (st @ '' '') = st" using strip_padded[of st "[]" "'' ''"] st(1,2) by (simp add: py_space_def)
    then show ?thesis by (simp add: declared_name_def st(2))
  qed
  ultimately have name: "declared_name (before_first '':='' body) = declared_name st" by simp
  have parts: "startswith (seed_text st preamble) preamble" "strip (take (length gap) (gap @ region_begin @ rest)) = []"
    "drop (length gap + length region_begin) (gap @ region_begin @ rest) = rest"
    "take (length region) rest = region" "drop (length region + length E) rest = seed_tail st"
    by (simp_all add: cand rest_def strip_Nil_iff gap_def nl_def py_space_def)
  show ?thesis
    unfolding split_source_def Let_def assms(2) after
    by (simp add: parts[unfolded E_def] b n[unfolded E_def] region \<open>strip body \<noteq> []\<close> name
        seed_tail_commands assms(3) mk_envelope_def del: drop_drop drop_append take_append) (simp add: body_def)
qed

section \<open>Envelopes in the graph's store\<close>

text \<open>
  \<open>from_dict\<close>: unknown and missing members are a \<open>TypeError\<close> of the constructor. The members have no
  types at run time; a member of another type than the record's is outside of the model.
\<close>

datatype read_error =
  UnknownMember string
| MissingMember string
| IllTyped string
| Refused envelope_error
| HashMismatch

fun read_strings :: "json list \<Rightarrow> string list option" where
  "read_strings [] = Some []"
| "read_strings (JStr s # js) = map_option (Cons s) (read_strings js)"
| "read_strings (j # js) = None"

definition envelope_members :: "string list" where
  "envelope_members = [''candidate_file_sha256'', ''imports'', ''ctx'', ''body'', ''primary_root'', ''expected_roots'',
     ''stripped_commands'', ''schema_version'']"

definition member_with :: "(json \<Rightarrow> 'a option) \<Rightarrow> json option \<Rightarrow> string \<Rightarrow> (string \<times> json) list \<Rightarrow> read_error + 'a" where
  "member_with read dflt k d =
     (case (case map_of d k of None \<Rightarrow> dflt | Some j \<Rightarrow> Some j) of
        None \<Rightarrow> Inl (MissingMember k)
      | Some j \<Rightarrow> (case read j of None \<Rightarrow> Inl (IllTyped k) | Some x \<Rightarrow> Inr x))"

definition as_text :: "json \<Rightarrow> string option" where
  "as_text j = (case j of JStr s \<Rightarrow> Some s | _ \<Rightarrow> None)"

definition as_texts :: "json \<Rightarrow> string list option" where
  "as_texts j = (case j of JList js \<Rightarrow> read_strings js | _ \<Rightarrow> None)"

definition as_whole :: "json \<Rightarrow> int option" where
  "as_whole j = (case j of JInt n \<Rightarrow> Some n | _ \<Rightarrow> None)"

definition read_envelope_fields :: "(string \<times> json) list \<Rightarrow> read_error + source_envelope" where
  "read_envelope_fields d =
     (case List.find (\<lambda>k. k \<notin> set envelope_members) (map fst d) of
        Some k \<Rightarrow> Inl (UnknownMember k)
      | None \<Rightarrow>
          bindE (member_with as_text None ''candidate_file_sha256'' d) (\<lambda>sha.
          bindE (member_with as_texts None ''imports'' d) (\<lambda>imps.
          bindE (member_with Some None ''ctx'' d) (\<lambda>ctx.
          bindE (member_with as_text None ''body'' d) (\<lambda>body.
          bindE (member_with as_text None ''primary_root'' d) (\<lambda>primary.
          bindE (member_with as_texts None ''expected_roots'' d) (\<lambda>expected.
          bindE (member_with as_texts (Some (JList [])) ''stripped_commands'' d) (\<lambda>stripped.
          bindE (member_with as_whole (Some (JInt envelope_schema_version_now)) ''schema_version'' d) (\<lambda>version.
            case mk_envelope \<lparr>candidate_file_sha256 = sha, se_imports = imps, se_ctx = ctx, se_body = body,
              primary_root = primary, expected_roots = expected, stripped_commands = stripped,
              schema_version = version\<rparr> of
              Inl e \<Rightarrow> Inl (Refused e)
            | Inr e \<Rightarrow> Inr e)))))))))"

definition envelope_from_dict :: "(json \<Rightarrow> string) \<Rightarrow> (string \<times> json) list \<Rightarrow> read_error + source_envelope" where
  "envelope_from_dict stable_hash data =
     bindE (read_envelope_fields (filter (\<lambda>(k, v). k \<noteq> ''envelope_hash'') data)) (\<lambda>e.
       let claimed = (case map_of data ''envelope_hash'' of None \<Rightarrow> JNull | Some j \<Rightarrow> j) in
       if claimed \<noteq> JNull \<and> claimed \<noteq> JStr (envelope_hash stable_hash e) then Inl HashMismatch else Inr e)"

text \<open>
  \<open>record_envelope\<close> of the store on an envelope, and \<open>envelope\<close>, which reads it back. \<open>dumps\<close> and
  \<open>loads\<close> are the canonical JSON text and its parser.
\<close>

definition store_envelope ::
  "((string \<times> json) list \<Rightarrow> string) \<Rightarrow> (json \<Rightarrow> string) \<Rightarrow> real \<Rightarrow> source_envelope \<Rightarrow> string option \<Rightarrow> graph_store
     \<Rightarrow> graph_store \<times> (proof_error + string)" where
  "store_envelope dumps stable_hash now e path s =
     record_envelope now (envelope_hash stable_hash e) (dumps (envelope_to_dict stable_hash e))
       (candidate_file_sha256 e) path s"

definition stored_envelope ::
  "(string \<Rightarrow> (string \<times> json) list) \<Rightarrow> (json \<Rightarrow> string) \<Rightarrow> string \<Rightarrow> graph_store
     \<Rightarrow> proof_error + (read_error + source_envelope)" where
  "stored_envelope loads stable_hash h s =
     (case row_of e_hash h (st_envelopes s) of
        None \<Rightarrow> Inl (KeyError (''no such envelope: '' @ h))
      | Some r \<Rightarrow>
          (case envelope_from_dict stable_hash (loads (e_json r)) of
             Inl err \<Rightarrow> Inr (Inl err)
           | Inr e \<Rightarrow>
               if envelope_hash stable_hash e \<noteq> h
               then Inl (GraphError (''envelope '' @ h @ '' no longer hashes to its key''))
               else Inr (Inr e)))"

lemma read_written_strings: "as_texts (json_strings ss) = Some ss"
proof -
  have "read_strings (map JStr ss) = Some ss" by (induction ss) simp_all
  then show ?thesis by (simp add: as_texts_def json_strings_def)
qed

lemma envelope_read_back:
  assumes "mk_envelope e = Inr e"
  shows "envelope_from_dict stable_hash (envelope_to_dict stable_hash e) = Inr e"
proof -
  have "filter (\<lambda>(k, v). k \<noteq> ''envelope_hash'') (envelope_to_dict stable_hash e) = envelope_fields e"
    by (simp add: envelope_to_dict_def envelope_fields_def)
  moreover have "read_envelope_fields (envelope_fields e) = Inr e"
    by (simp add: read_envelope_fields_def envelope_fields_def envelope_members_def member_with_def
        read_written_strings as_text_def as_whole_def, cases e, use assms in simp)
  moreover have "map_of (envelope_to_dict stable_hash e) ''envelope_hash'' = Some (JStr (envelope_hash stable_hash e))"
    by (simp add: envelope_to_dict_def envelope_fields_def)
  ultimately show ?thesis by (simp add: envelope_from_dict_def)
qed

lemma record_envelopeE:
  assumes "record_envelope now digest cont sha path s = (s', Inr h)"
  obtains r where "row_of e_hash digest (st_envelopes s') = Some r" "e_json r = cont" "h = digest"
proof -
  define s1 where "s1 = (if digest \<in> e_hash ` set (st_envelopes s) then s
          else s\<lparr>st_envelopes := st_envelopes s @ [\<lparr>e_hash = digest, e_json = cont,
            e_candidate_sha256 = sha, e_candidate_path = path, e_created_at = now\<rparr>]\<rparr>)"
  have rows: "(case row_of e_hash digest (st_envelopes s1) of
      None \<Rightarrow> (s1, Inl (GraphError ''the insert guarantees a row''))
    | Some r \<Rightarrow> if e_json r \<noteq> cont
        then (s1, Inl (GraphError (''envelope '' @ digest @ '' is already stored with different content'')))
        else (s1, Inr digest)) = (s', Inr h)"
    using assms unfolding record_envelope_def Let_def s1_def[symmetric] .
  show thesis
  proof (cases "row_of e_hash digest (st_envelopes s1)")
    case (Some r)
    with rows have "e_json r = cont" "s' = s1" "h = digest"
      by (simp_all split: if_splits)
    with that Some show thesis by simp
  next
    case None
    with rows show thesis by simp
  qed
qed


section \<open>A sample\<close>

definition sample_statement :: string where
  "sample_statement = ''theorem a : p''"

definition sample_preamble :: string where
  "sample_preamble = ''import A'' @ nl @ ''open N''"

definition sample_envelope :: source_envelope where
  "sample_envelope = \<lparr>candidate_file_sha256 = ''c'', se_imports = [''import A''],
     se_ctx = JObj [(''raw'', JList [JStr ''open N''])], se_body = ''theorem a : p := by'' @ nl @ ''  sorry'',
     primary_root = ''N.a'', expected_roots = [''N.a''], stripped_commands = [''#print axioms a''],
     schema_version = envelope_schema_version_now\<rparr>"

lemma sample_seed: "plain_statement sample_statement" "strip sample_preamble = sample_preamble"
  "preamble_context sample_preamble = Inr ([''import A''], JObj [(''raw'', JList [JStr ''open N''])])"
  by code_simp+

lemma seeds_are_split_witness:
  "split_source (\<lambda>_. ''c'') (seed_text sample_statement sample_preamble) sample_preamble ''a'' ''N.'' = Inr sample_envelope"
proof -
  have n: "declared_name sample_statement = ''a''" by code_simp
  show ?thesis
    using seeds_are_split[OF sample_seed, of "\<lambda>_. ''c''" "''N.''"]
    unfolding n by (simp add: sample_envelope_def) (simp add: sample_statement_def)
qed

lemma split_is_sound_witness:
  "\<exists>region tail. seed_text sample_statement sample_preamble
     = sample_preamble @ (nl @ nl) @ region_begin @ region @ region_end @ tail
   \<and> stripped_commands sample_envelope = filter (\<lambda>c. \<not> ignorable c) (map strip (splitlines tail))"
proof -
  have s: "split_source (\<lambda>_. ''c'') (seed_text sample_statement sample_preamble) sample_preamble ''a'' ''N.''
      = Inr sample_envelope" by code_simp
  have gap: "gap = nl @ nl"
    if "seed_text sample_statement sample_preamble = sample_preamble @ gap @ region_begin @ r" "list_all py_space gap" for gap r
  proof -
    have "gap @ region_begin @ r = nl @ nl @ region_begin @ nl @ sample_statement @ '' := by'' @ nl @ ''  sorry'' @ nl @
        region_end @ nl @ nl @ ''#print axioms '' @ declared_name sample_statement @ nl"
      using that(1) by (simp add: seed_text_def sample_preamble_def region_begin_def region_end_def)
    then show ?thesis
      using that(2)
      by (cases gap; cases "tl gap"; cases "tl (tl gap)") (auto simp: nl_def region_begin_def py_space_def)
  qed
  show ?thesis
    using split_is_sound[OF s] gap unfolding sample_seed(2) by metis
qed


end
