(* ===== verification/Grade.thy ===== *)
theory Grade
  imports RunSolver TrustPolicy Sketch
begin

text \<open>
  \<open>proof/grade.py\<close>: the score of one candidate file of a subgoal. The Lean process is a parameter: it
  answers its return code and output, or the reason why nothing could be measured. The workspace is the
  text of its main file, if it is there.
\<close>

section \<open>The axiom report\<close>

definition compiles_floor :: real where
  "compiles_floor = 30 / 100"

definition target_name :: "string \<Rightarrow> string" where
  "target_name source =
     (let region = (if occurs_in ''EDIT-REGION-BEGIN'' source then after_first ''EDIT-REGION-BEGIN'' source else source)
      in declared_name (before_first '':='' region))"

definition quoted :: "string \<Rightarrow> string" where
  "quoted name = [CHR 0x27] @ name @ [CHR 0x27]"

text \<open>
  The second search takes the first report that has a closing bracket behind it; when the first report
  has none, no later one has.
\<close>

definition reported_axioms :: "string \<Rightarrow> string \<Rightarrow> string list" where
  "reported_axioms out name =
     (if occurs_in (quoted name @ '' does not depend on any axioms'') out then []
      else let start = quoted name @ '' depends on axioms: ['' in
        if occurs_in start out \<and> CHR '']'' \<in> set (after_first start out)
        then remdups (filter (\<lambda>i. i \<noteq> []) (map strip (split_on (CHR '','')
               (takeWhile (\<lambda>c. c \<noteq> CHR '']'') (after_first start out)))))
        else [sorry_axiom])"

section \<open>The grader\<close>

record graded =
  gr_fitness :: real
  gr_passed :: bool
  gr_fault_kind :: "string option"
  gr_fault :: "string option"
  gr_notes :: "string option"
  gr_metrics :: "(string \<times> json) list"

datatype grade_error = InfraError string | PolicyError proof_error

definition failed_grade :: "string \<Rightarrow> string \<Rightarrow> string option \<Rightarrow> (string \<times> json) list \<Rightarrow> graded" where
  "failed_grade kind fault notes metrics =
     \<lparr>gr_fitness = 0, gr_passed = False, gr_fault_kind = Some kind, gr_fault = Some fault,
      gr_notes = notes, gr_metrics = metrics\<rparr>"

definition native_note :: "string list \<Rightarrow> string \<Rightarrow> string" where
  "native_note unverified notes =
     take 2000 (''native_decide axioms need the verifier's content recheck; a local compile cannot certify them: ''
       @ join '', '' (sorted_set unverified) @ nl @ notes)"

definition grade_axioms :: "axiom_policy \<Rightarrow> string \<Rightarrow> string \<Rightarrow> string list \<Rightarrow> grade_error + graded" where
  "grade_axioms p name out axioms =
     (let metrics = [(''declaration'', JStr name)];
          rest = filter (\<lambda>a. a \<noteq> sorry_axiom) axioms;
          trust = classify Map.empty rest;
          unverified = unverified_native Map.empty rest in
      case blocking p Map.empty rest of
        Inl e \<Rightarrow> Inl (PolicyError e)
      | Inr blocked \<Rightarrow>
          let forbidden = filter (\<lambda>a. a \<notin> set unverified) blocked in
          if forbidden \<noteq> []
          then Inr (failed_grade ''task_failure'' (''forbidden axioms: '' @ join '', '' (sorted_set forbidden)) None
            (metrics @ [(''axioms'', JStr (join '','' (sorted_set axioms))), (''trust'', JStr trust)]))
          else if sorry_axiom \<in> set axioms \<or> unverified \<noteq> []
          then Inr \<lparr>gr_fitness = compiles_floor, gr_passed = True, gr_fault_kind = None, gr_fault = None,
            gr_notes = Some (if unverified \<noteq> [] then native_note unverified (take 2000 out) else take 2000 out),
            gr_metrics = metrics @ [(''proved'', JInt 0), (''trust'', JStr trust)]\<rparr>
          else Inr \<lparr>gr_fitness = 1, gr_passed = True, gr_fault_kind = None, gr_fault = None,
            gr_notes = Some (''Lean reports '' @ name @ '' depends only on axioms at trust '' @ trust @
              '', within minimum_trust='' @ minimum_trust p @ ''.''),
            gr_metrics = metrics @ [(''proved'', JInt 1), (''axioms'', JStr (join '','' (sorted_set axioms))),
              (''trust'', JStr trust)]\<rparr>)"

definition grade ::
  "(string \<Rightarrow> string + int \<times> string) \<Rightarrow> axiom_policy \<Rightarrow> string option \<Rightarrow> grade_error + graded" where
  "grade compile p main =
     (case main of
        None \<Rightarrow> Inr (failed_grade ''invalid_candidate'' ''no subgoal.lean in the workspace'' None [])
      | Some source \<Rightarrow>
          let name = target_name source in
          (case compile source of
             Inl reason \<Rightarrow> Inl (InfraError reason)
           | Inr (returncode, out) \<Rightarrow>
               if returncode \<noteq> 0
               then let errors = filter error_search (splitlines out);
                        notes = take 2000 (join nl errors) in
                 Inr (failed_grade ''task_failure'' ''the file does not compile''
                   (Some (if notes \<noteq> [] then notes else take 2000 out))
                   [(''declaration'', JStr name), (''error_count'', JInt (int (length errors)))])
               else grade_axioms p name out (reported_axioms out name)))"

section \<open>What a score says\<close>

lemma axioms_without_sorry: "sorry_axiom \<notin> set axs \<Longrightarrow> filter (\<lambda>a. a \<noteq> sorry_axiom) axs = axs"
  by (rule filter_True) auto

lemma grade_axioms_cases:
  assumes "minimum_trust p = trust_name l" "rest = filter (\<lambda>a. a \<noteq> sorry_axiom) axs"
    and "unverified = unverified_native Map.empty rest"
  obtains (forbidden) r where "\<not> (\<forall>a \<in> set rest. a \<in> set unverified \<or> l \<le> axiom_trust Map.empty a)"
      "grade_axioms p name out axs = Inr r" "gr_fitness r = 0" "\<not> gr_passed r"
    | (unfinished) r where "\<forall>a \<in> set rest. a \<in> set unverified \<or> l \<le> axiom_trust Map.empty a"
      "sorry_axiom \<in> set axs \<or> unverified \<noteq> []"
      "grade_axioms p name out axs = Inr r" "gr_fitness r = compiles_floor" "gr_passed r"
    | (finished) r where "\<forall>a \<in> set rest. l \<le> axiom_trust Map.empty a"
      "sorry_axiom \<notin> set axs" "unverified = []"
      "grade_axioms p name out axs = Inr r" "gr_fitness r = 1" "gr_passed r"
proof -
  define forb where "forb = filter (\<lambda>a. a \<notin> set unverified) (filter (\<lambda>a. axiom_trust Map.empty a < l) rest)"
  have ok: "forb = [] \<longleftrightarrow> (\<forall>a \<in> set rest. a \<in> set unverified \<or> l \<le> axiom_trust Map.empty a)"
    by (auto simp: forb_def filter_empty_conv not_less)
  note g = grade_axioms_def[of p name out axs, folded assms(2), unfolded Let_def, folded assms(3),
      unfolded blocking_eq[OF assms(1)] sum.case, folded forb_def]
  show thesis
  proof (cases "forb = []")
    case False
    with g ok that(1) show ?thesis by (simp add: failed_grade_def)
  next
    case True
    note F = this
    show ?thesis
    proof (cases "sorry_axiom \<in> set axs \<or> unverified \<noteq> []")
      case True
      with g F ok that(2) show ?thesis by simp
    next
      case False
      with g F ok that(3) show ?thesis by simp
    qed
  qed
qed

lemma floor_between: "0 < compiles_floor" "compiles_floor < 1" "compiles_floor \<noteq> 0" "compiles_floor \<noteq> 1"
  by (simp_all add: compiles_floor_def)

lemma policy_floor:
  assumes "mk_axiom_policy t = Inr p"
  obtains l where "minimum_trust p = trust_name l"
  using assms by (auto simp: mk_axiom_policy_Inr_iff elim: valid_trust_cases)

lemma grade_axioms_full:
  assumes "mk_axiom_policy t = Inr p"
  shows "(\<exists>r. grade_axioms p name out axs = Inr r \<and> gr_fitness r = 1) \<longleftrightarrow>
    sorry_axiom \<notin> set axs \<and> unverified_native Map.empty axs = [] \<and> accepts p (classify Map.empty axs) = Inr True"
proof -
  obtain l where l: "minimum_trust p = trust_name l" using policy_floor[OF assms] .
  have acc: "accepts p (classify Map.empty axs) = Inr True \<longleftrightarrow> (\<forall>a \<in> set axs. l \<le> axiom_trust Map.empty a)"
    by (simp add: accepts_classify[OF l] le_proof_trust_iff)
  show ?thesis
  proof (cases rule: grade_axioms_cases[OF l refl refl, of axs name out])
    case (1 r)
    then have "\<not> (sorry_axiom \<notin> set axs \<and> (\<forall>a \<in> set axs. l \<le> axiom_trust Map.empty a))" by auto
    with "1"(2,3) acc show ?thesis by auto
  next
    case (2 r)
    then have "sorry_axiom \<in> set axs \<or> unverified_native Map.empty axs \<noteq> []"
      using axioms_without_sorry[of axs] by auto
    with "2"(3,4) floor_between(4) show ?thesis by auto
  next
    case (3 r)
    with acc axioms_without_sorry[of axs] show ?thesis by auto
  qed
qed

text \<open>
  C31: The full score comes from the axiom report and from nothing else: it is given exactly when the
  file compiled, the report of the declaration that opens the region lists neither \<open>sorryAx\<close> nor an
  axiom of \<open>native_decide\<close>, and the policy accepts all that it lists.
\<close>

theorem full_score_rests_on_the_report:
  assumes "mk_axiom_policy t = Inr p"
  shows "(\<exists>r. grade compile p main = Inr r \<and> gr_fitness r = 1) \<longleftrightarrow>
    (\<exists>source out axs. main = Some source \<and> compile source = Inr (0, out)
       \<and> axs = reported_axioms out (target_name source)
       \<and> sorry_axiom \<notin> set axs \<and> unverified_native Map.empty axs = []
       \<and> accepts p (classify Map.empty axs) = Inr True)"
proof (cases main)
  case (Some source)
  show ?thesis
  proof (cases "compile source")
    case (Inr a)
    obtain rc out where a: "a = (rc, out)" by (cases a)
    show ?thesis
    proof (cases "rc = 0")
      case True
      then have "grade compile p main = grade_axioms p (target_name source) out
          (reported_axioms out (target_name source))"
        using Some Inr a by (simp add: grade_def Let_def)
      with grade_axioms_full[OF assms] Some Inr a True show ?thesis by simp
    qed (use Some Inr a in \<open>auto simp: grade_def failed_grade_def Let_def\<close>)
  qed (use Some in \<open>simp add: grade_def\<close>)
qed (simp add: grade_def failed_grade_def)

text \<open>
  Every grade is one of three: zero and not passed, the floor and passed, one and passed; only a
  file that compiled passes; and the grader raises exactly when nothing could be measured.
\<close>

theorem grades_are_three:
  assumes "mk_axiom_policy t = Inr p"
  shows "case grade compile p main of
      Inl e \<Rightarrow> (\<exists>source reason. main = Some source \<and> compile source = Inl reason \<and> e = InfraError reason)
    | Inr r \<Rightarrow> (\<forall>source reason. main = Some source \<longrightarrow> compile source \<noteq> Inl reason)
        \<and> (gr_fitness r, gr_passed r) \<in> {(0, False), (compiles_floor, True), (1, True)}
        \<and> (gr_passed r \<longrightarrow> (\<exists>source out. main = Some source \<and> compile source = Inr (0, out)))"
proof (cases main)
  case (Some source)
  obtain l where l: "minimum_trust p = trust_name l" using policy_floor[OF assms] .
  show ?thesis
  proof (cases "compile source")
    case (Inr a)
    obtain rc out where a: "a = (rc, out)" by (cases a)
    show ?thesis
    proof (cases "rc = 0")
      case True
      define name where "name = target_name source"
      have "grade compile p main = grade_axioms p name out (reported_axioms out name)"
        using Some Inr a True by (simp add: grade_def name_def Let_def)
      then show ?thesis
        using Some Inr a True
        by (cases rule: grade_axioms_cases[OF l refl refl, of "reported_axioms out name" name out]) simp_all
    qed (use Some Inr a in \<open>simp add: grade_def failed_grade_def Let_def\<close>)
  qed (use Some in \<open>simp add: grade_def\<close>)
qed (simp add: grade_def failed_grade_def)

text \<open>A file with a proof, and what Lean prints about it.\<close>

definition proved_file :: string where
  "proved_file = candidate_file [] ''theorem a : p'' '' rfl'' []"

definition proved_report :: string where
  "proved_report = quoted ''a'' @ '' depends on axioms: [propext]'' @ nl"

lemma default_policy_made: "mk_axiom_policy ''audited'' = Inr default_policy"
  by (simp add: mk_axiom_policy_def valid_minimum_trust_def default_policy_def)

lemma full_score_rests_on_the_report_witness:
  "\<exists>r. grade (\<lambda>_. Inr (0, proved_report)) default_policy (Some proved_file) = Inr r \<and> gr_fitness r = 1"
proof -
  have "reported_axioms proved_report (target_name proved_file) = [''propext'']" by code_simp
  moreover have "sorry_axiom \<notin> set [''propext''] \<and> unverified_native Map.empty [''propext''] = []
      \<and> accepts default_policy (classify Map.empty [''propext'']) = Inr True" by code_simp
  ultimately show ?thesis
    using full_score_rests_on_the_report[OF default_policy_made, where compile = "\<lambda>_. Inr (0, proved_report)" and main = "Some proved_file"]
    by simp
qed

lemma grades_are_three_witness:
  "grade (\<lambda>_. Inl ''no lean'') default_policy (Some proved_file) = Inl (InfraError ''no lean'')"
  using grades_are_three[OF default_policy_made, where compile = "\<lambda>_. Inl ''no lean''" and main = "Some proved_file"]
  by (auto split: sum.splits)

section \<open>Seeds\<close>

lemma occurs_behind_break: "occurs_in '':='' (nl @ s) \<longleftrightarrow> occurs_in '':='' s"
  by (cases "find_sub '':='' s") (simp_all add: occurs_in_def nl_def)

lemma seed_target:
  assumes "strip st = st" "st \<noteq> []" "\<not> occurs_in ''EDIT-REGION-BEGIN'' (preamble @ nl @ nl @ ''-- '')"
    and "\<not> occurs_in '':='' (st @ '' '')"
  shows "target_name (seed_text st preamble) = declared_name st"
proof -
  define B where "B = ''EDIT-REGION-BEGIN''"
  define head where "head = (if preamble \<noteq> [] then preamble @ nl @ nl else []) @ ''--''"
  define rest where "rest = '' by'' @ nl @ ''  sorry'' @ nl @ ''-- EDIT-REGION-END'' @ nl @ nl @ ''#print axioms ''
      @ declared_name st @ nl"
  have seed: "seed_text st preamble = (head @ [CHR '' '']) @ B @ nl @ (st @ '' '') @ '':='' @ rest"
    by (simp add: seed_text_def head_def B_def rest_def)
  have "\<not> occurs_in B (head @ [CHR '' ''])"
  proof (cases "preamble = []")
    case True
    then have "head @ [CHR '' ''] = ''-- ''" by (simp add: head_def)
    moreover have "\<not> occurs_in B ''-- ''" unfolding B_def by code_simp
    ultimately show ?thesis by simp
  next
    case False
    with assms(3) show ?thesis by (simp add: head_def B_def)
  qed
  then have "find_sub B (seed_text st preamble) = Some (length head + 1)"
    unfolding seed by (rule find_sub_behind) (simp add: B_def)
  then have region: "occurs_in B (seed_text st preamble)"
      "after_first B (seed_text st preamble) = nl @ (st @ '' '') @ '':='' @ rest"
    by (simp_all add: occurs_in_def after_first_def) (simp add: seed)
  have "find_sub '':='' (((nl @ st) @ [CHR '' '']) @ '':='' @ rest) = Some (length (nl @ st) + 1)"
    using assms(4) by (intro find_sub_behind) (simp_all add: occurs_behind_break)
  then have "before_first '':='' (nl @ (st @ '' '') @ '':='' @ rest) = nl @ st @ '' ''"
    by (simp add: before_first_def nl_def)
  moreover have "strip (nl @ st @ '' '') = st"
    using strip_padded[OF assms(1,2), of nl "'' ''"] by (simp add: nl_def py_space_def)
  ultimately show ?thesis
    using region assms(1) by (simp add: target_name_def declared_name_def flip: B_def)
qed

text \<open>
  A fresh goal can be worked on: its seed, once Lean compiles it and reports the placeholder, passes
  with the score of the floor, so that there is a parent to mutate; it never scores as proved.
\<close>

theorem seeds_pass_at_the_floor:
  assumes "mk_axiom_policy t = Inr p" "strip st = st" "st \<noteq> []"
    and "\<not> occurs_in ''EDIT-REGION-BEGIN'' (preamble @ nl @ nl @ ''-- '')" "\<not> occurs_in '':='' (st @ '' '')"
    and "compile (seed_text st preamble) = Inr (0, out)" "reported_axioms out (declared_name st) = [sorry_axiom]"
  shows "\<exists>r. grade compile p (Some (seed_text st preamble)) = Inr r \<and> gr_passed r \<and> gr_fitness r = compiles_floor"
proof -
  obtain l where l: "minimum_trust p = trust_name l" using policy_floor[OF assms(1)] .
  have "grade compile p (Some (seed_text st preamble)) = grade_axioms p (declared_name st) out [sorry_axiom]"
    using assms(6,7) by (simp add: grade_def Let_def seed_target[OF assms(2-5)])
  then show ?thesis
    by (cases rule: grade_axioms_cases[OF l refl refl, of "[sorry_axiom]" "declared_name st" out]) simp_all
qed

lemma seeds_pass_at_the_floor_witness:
  "\<exists>r. grade (\<lambda>_. Inr (0, ''s: 'a' depends on axioms: [sorryAx]'')) default_policy (Some (seed_text ''theorem a : p'' [])) = Inr r
     \<and> gr_passed r \<and> gr_fitness r = compiles_floor"
  by (rule seeds_pass_at_the_floor[OF default_policy_made]) code_simp+

section \<open>A report that is not the goal's\<close>

text \<open>
  An answer that keeps the goal as it was, with its placeholder, and puts a helper with its own report
  in front of it, all inside of the region; and what Lean prints about the file.
\<close>

definition helper_in_front :: string where
  "helper_in_front = join nl
     [''-- EDIT-REGION-BEGIN'', ''theorem h : True := trivial'', ''#print axioms h'',
      ''theorem a : p := by'', ''  sorry'', ''-- EDIT-REGION-END'', ''#print axioms a'']"

definition helper_reports :: string where
  "helper_reports = quoted ''h'' @ '' does not depend on any axioms'' @ nl @
     quoted ''a'' @ '' depends on axioms: [sorryAx]'' @ nl"

text \<open>
  C32: The declaration that is graded is the first of the region, whatever it is called: an answer with a
  helper in front of the untouched goal gets the full score on the helper's report, and the run that
  ends with this answer is read as a proof of the goal, with a text that still has the placeholder.
\<close>

theorem helper_in_front_counts_as_proof:
  "(\<exists>r. grade (\<lambda>_. Inr (0, helper_reports)) default_policy (Some helper_in_front) = Inr r \<and> gr_fitness r = 1)
 \<and> reported_axioms helper_reports ''a'' = [sorry_axiom]
 \<and> (\<exists>body r. proof_body helper_in_front = Some body \<and> occurs_in ''sorry'' body
      \<and> from_run_report fmt \<lparr>rr_stopped_reason = ''solved'', rr_best_fitness = Some 1, rr_total_llm_cost = None\<rparr>
          (Some dir) 1 (Some body) None = Inr r \<and> ar_outcome r = OProved)"
proof (intro conjI)
  have "reported_axioms helper_reports (target_name helper_in_front) = []" by code_simp
  moreover have "unverified_native Map.empty [] = [] \<and> accepts default_policy (classify Map.empty []) = Inr True"
    by code_simp
  ultimately show "\<exists>r. grade (\<lambda>_. Inr (0, helper_reports)) default_policy (Some helper_in_front) = Inr r \<and> gr_fitness r = 1"
    using grade_axioms_full[OF default_policy_made, of "target_name helper_in_front" helper_reports "[]"]
    by (simp add: grade_def Let_def)
  show "reported_axioms helper_reports ''a'' = [sorry_axiom]" by code_simp
  obtain body where body: "proof_body helper_in_front = Some body" "occurs_in ''sorry'' body"
  proof
    show "proof_body helper_in_front = Some (join nl ['' trivial'', ''#print axioms h'', ''theorem a : p := by'', ''  sorry''])"
      by code_simp
    show "occurs_in ''sorry'' (join nl ['' trivial'', ''#print axioms h'', ''theorem a : p := by'', ''  sorry''])"
      by code_simp
  qed
  then have "truthy (Some body)" by (auto simp: truthy_def occurs_in_def)
  with body show "\<exists>body r. proof_body helper_in_front = Some body \<and> occurs_in ''sorry'' body
      \<and> from_run_report fmt \<lparr>rr_stopped_reason = ''solved'', rr_best_fitness = Some 1, rr_total_llm_cost = None\<rparr>
          (Some dir) 1 (Some body) None = Inr r \<and> ar_outcome r = OProved"
    by (intro exI[of _ body]) (simp add: from_run_report_def mk_attempt_result_Inr)
qed

end
