(* ===== verification/Propose.thy ===== *)
theory Propose
  imports Patch Sketch GraphStore
begin

text \<open>
  \<open>proof/propose.py\<close>: the reply of a model read as a route, and the source that asks for routes. The
  JSON parser and the printing of numbers, lists and objects by \<open>str\<close> are parameters; the hasher and
  the model's reply to each call are arguments. An error message is a constructor of \<open>proposal_error\<close>.
\<close>

section \<open>Reading a reply\<close>

datatype proposal_error =
  NotJson string
| NotAnObject
| NoLemmas
| NoBody
| SorryInBody
| LemmaNotAnObject
| UnusableName string
| ParentsName
| DuplicateName string
| NoSignature string
| SignatureWithBody string

definition json_fence :: rx where
  "json_fence = seq [Lit fence, maybe (Lit ''json''), spaces, Lit nl, Group 1 any_text, Lit fence]"

definition raw_json :: "string \<Rightarrow> string" where
  "raw_json t = (case rev (find_iter json_fence t) of [] \<Rightarrow> t | m # _ \<Rightarrow> group m 1)"

definition ascii_letter :: "char \<Rightarrow> bool" where
  "ascii_letter c \<longleftrightarrow> (let n = of_char c :: nat in 65 \<le> n \<and> n \<le> 90 \<or> 97 \<le> n \<and> n \<le> 122)"

definition usable_name :: "string \<Rightarrow> bool" where
  "usable_name name \<longleftrightarrow>
     (case name of [] \<Rightarrow> False
      | c # cs \<Rightarrow> (ascii_letter c \<or> c = CHR ''_'') \<and>
          list_all (\<lambda>d. ascii_letter d \<or> is_digit d \<or> d = CHR ''_'' \<or> d = CHR 0x27 \<or> d = CHR ''.'') cs)"

text \<open>\<open>str(value)\<close>; \<open>other\<close> prints numbers, lists and objects.\<close>

definition py_str :: "(json \<Rightarrow> string) \<Rightarrow> json \<Rightarrow> string" where
  "py_str other j =
     (case j of JStr s \<Rightarrow> s | JNull \<Rightarrow> ''None'' | JBool b \<Rightarrow> (if b then ''True'' else ''False'') | _ \<Rightarrow> other j)"

definition member_str :: "(json \<Rightarrow> string) \<Rightarrow> string \<Rightarrow> (string \<times> json) list \<Rightarrow> string" where
  "member_str other k members = strip (py_str other (case map_of members k of None \<Rightarrow> JStr [] | Some j \<Rightarrow> j))"

fun read_lemmas ::
  "(json \<Rightarrow> string) \<Rightarrow> string \<Rightarrow> string list \<Rightarrow> json list \<Rightarrow> proposal_error + subgoal_spec list" where
  "read_lemmas other parent seen [] = Inr []"
| "read_lemmas other parent seen (item # items) =
     (case item of
        JObj members \<Rightarrow>
          (let name = member_str other ''name'' members; signature = member_str other ''signature'' members in
           if \<not> usable_name name then Inl (UnusableName name)
           else if name = parent then Inl ParentsName
           else if name \<in> set seen then Inl (DuplicateName name)
           else if signature = [] then Inl (NoSignature name)
           else if occurs_in '':='' signature then Inl (SignatureWithBody name)
           else bindE (read_lemmas other parent (name # seen) items) (\<lambda>specs.
             Inr (\<lparr>sp_name = name, sp_identity = [], sp_signature = signature\<rparr> # specs)))
      | _ \<Rightarrow> Inl LemmaNotAnObject)"

definition parse_proposal ::
  "(string \<Rightarrow> string + json) \<Rightarrow> (json \<Rightarrow> string) \<Rightarrow> string \<Rightarrow> goal \<Rightarrow> string \<Rightarrow> string \<Rightarrow> proposal_error + sketch" where
  "parse_proposal loads other reply g parent preamble =
     (case loads (raw_json reply) of
        Inl exc \<Rightarrow> Inl (NotJson exc)
      | Inr payload \<Rightarrow>
          (case payload of
             JObj members \<Rightarrow>
               (case map_of members ''lemmas'' of
                  Some (JList (item # items)) \<Rightarrow>
                    (case map_of members ''parent_body'' of
                       Some (JStr body) \<Rightarrow>
                         if strip body = [] then Inl NoBody
                         else if occurs_in ''sorry'' body then Inl SorryInBody
                         else bindE (read_lemmas other parent [] (item # items)) (\<lambda>specs.
                           Inr \<lparr>sk_parent_name = parent, sk_parent_signature = g_statement g,
                             sk_parent_body = strip body, sk_subgoals = specs, sk_preamble = preamble\<rparr>)
                     | _ \<Rightarrow> Inl NoBody)
                | _ \<Rightarrow> Inl NoLemmas)
           | _ \<Rightarrow> Inl NotAnObject))"

section \<open>The source of routes\<close>

record decomposition_source =
  ds_parent_name :: string
  ds_preamble :: string
  ds_max_proposals :: int
  ds_errors :: "(string \<times> proposal_error) list"
  ds_counts :: "string \<rightharpoonup> nat"

definition used_proposals :: "decomposition_source \<Rightarrow> string \<Rightarrow> nat" where
  "used_proposals src identity = (case ds_counts src identity of None \<Rightarrow> 0 | Some n \<Rightarrow> n)"

text \<open>\<open>propose\<close>; \<open>reply\<close> is what the model answers to the prompt of this call, if it is asked.\<close>

definition propose ::
  "(string \<Rightarrow> string + json) \<Rightarrow> (json \<Rightarrow> string) \<Rightarrow> (string list \<Rightarrow> string list) \<Rightarrow> string \<Rightarrow> goal
     \<Rightarrow> decomposition_source \<Rightarrow> decomposition_source \<times> sketch option" where
  "propose loads other hash_many reply g src =
     (let used = used_proposals src (g_identity g) in
      if ds_max_proposals src \<le> int used then (src, None)
      else let asked = src\<lparr>ds_counts := (ds_counts src)(g_identity g \<mapsto> used + 1)\<rparr> in
      case parse_proposal loads other reply g (ds_parent_name src) (ds_preamble src) of
        Inl e \<Rightarrow> (asked\<lparr>ds_errors := ds_errors asked @ [(g_identity g, e)]\<rparr>, None)
      | Inr sk \<Rightarrow>
          (asked, Some (sk\<lparr>sk_subgoals :=
             map2 (\<lambda>spec identity. spec\<lparr>sp_identity := identity\<rparr>) (sk_subgoals sk)
               (hash_many (map sp_signature (sk_subgoals sk)))\<rparr>)))"

section \<open>What an accepted reply is\<close>

definition usable_spec :: "string \<Rightarrow> subgoal_spec \<Rightarrow> bool" where
  "usable_spec parent spec \<longleftrightarrow>
     usable_name (sp_name spec) \<and> sp_name spec \<noteq> parent \<and> sp_signature spec \<noteq> []
     \<and> \<not> occurs_in '':='' (sp_signature spec) \<and> sp_identity spec = []"

lemma read_lemmas_ok:
  "read_lemmas other parent seen items = Inr specs \<Longrightarrow>
     length specs = length items \<and> list_all (usable_spec parent) specs
     \<and> distinct (map sp_name specs) \<and> set (map sp_name specs) \<inter> set seen = {}"
proof (induction items arbitrary: seen specs)
  case (Cons item items)
  obtain members where item: "item = JObj members" using Cons.prems by (cases item) simp_all
  define name where "name = member_str other ''name'' members"
  define signature where "signature = member_str other ''signature'' members"
  have ok: "usable_name name" "name \<noteq> parent" "name \<notin> set seen" "signature \<noteq> []" "\<not> occurs_in '':='' signature"
    and "\<exists>rest. read_lemmas other parent (name # seen) items = Inr rest
      \<and> \<lparr>sp_name = name, sp_identity = [], sp_signature = signature\<rparr> # rest = specs"
    using Cons.prems unfolding item read_lemmas.simps json.case Let_def name_def[symmetric] signature_def[symmetric]
    by (simp_all add: bindE_Inr_iff split: if_splits)
  then obtain rest where rest: "read_lemmas other parent (name # seen) items = Inr rest"
      "specs = \<lparr>sp_name = name, sp_identity = [], sp_signature = signature\<rparr> # rest" by metis
  from Cons.IH[OF rest(1)] ok rest(2) show ?case by (simp add: usable_spec_def)
qed simp

lemma parse_proposalE:
  assumes "parse_proposal loads other reply g parent preamble = Inr sk"
  obtains members item items body specs where
    "loads (raw_json reply) = Inr (JObj members)" "map_of members ''lemmas'' = Some (JList (item # items))"
    "map_of members ''parent_body'' = Some (JStr body)" "strip body \<noteq> []" "\<not> occurs_in ''sorry'' body"
    "read_lemmas other parent [] (item # items) = Inr specs"
    "sk = \<lparr>sk_parent_name = parent, sk_parent_signature = g_statement g, sk_parent_body = strip body,
       sk_subgoals = specs, sk_preamble = preamble\<rparr>"
proof -
  obtain payload where l: "loads (raw_json reply) = Inr payload"
    using assms by (cases "loads (raw_json reply)") (simp_all add: parse_proposal_def)
  obtain members where m: "payload = JObj members" using assms l by (cases payload) (simp_all add: parse_proposal_def)
  obtain j where j: "map_of members ''lemmas'' = Some j"
    using assms l m by (cases "map_of members ''lemmas''") (simp_all add: parse_proposal_def)
  obtain js where js: "j = JList js" using assms l m j by (cases j) (simp_all add: parse_proposal_def)
  obtain item items where i: "js = item # items" using assms l m j js by (cases js) (simp_all add: parse_proposal_def)
  obtain b where b: "map_of members ''parent_body'' = Some b"
    using assms l m j js i by (cases "map_of members ''parent_body''") (simp_all add: parse_proposal_def)
  obtain body where body: "b = JStr body" using assms l m j js i b by (cases b) (simp_all add: parse_proposal_def)
  have "strip body \<noteq> [] \<and> \<not> occurs_in ''sorry'' body \<and> (\<exists>specs. read_lemmas other parent [] (item # items) = Inr specs
      \<and> \<lparr>sk_parent_name = parent, sk_parent_signature = g_statement g, sk_parent_body = strip body,
       sk_subgoals = specs, sk_preamble = preamble\<rparr> = sk)"
    using assms unfolding parse_proposal_def l m sum.case json.case j js i option.case list.case b body
    by (simp add: bindE_Inr_iff split: if_splits del: read_lemmas.simps)
  then show thesis using that l m j js i b body by blast
qed

lemma occurs_in_mid: "occurs_in w s \<Longrightarrow> occurs_in w (a @ s @ b)"
  unfolding occurs_in_iff occurs_at_def by (metis append.assoc)

lemma strip_infix: "\<exists>a b. s = a @ strip s @ b"
  using rstrip_prefix[of "lstrip s"] unfolding strip_def lstrip_def
  by (metis append.assoc takeWhile_dropWhile_id)

text \<open>
  A reply that is accepted is a route in the form the graph wants: at least one lemma, with distinct
  usable names none of which is the parent's, each with a signature that stops before \<open>:=\<close>; a closing
  body without \<open>sorry\<close>; and the very statement of the goal, so that the validator's first check,
  that the sketch closes this goal and no other, cannot fail on it.
\<close>

theorem accepted_proposals_are_well_formed:
  assumes "parse_proposal loads other reply g parent preamble = Inr sk"
  shows "sk_subgoals sk \<noteq> [] \<and> distinct (map sp_name (sk_subgoals sk)) \<and> list_all (usable_spec parent) (sk_subgoals sk)
    \<and> sk_parent_body sk \<noteq> [] \<and> \<not> occurs_in ''sorry'' (sk_parent_body sk)
    \<and> sk_parent_name sk = parent \<and> sk_parent_signature sk = g_statement g \<and> sk_preamble sk = preamble"
proof -
  obtain members item items body specs where p: "strip body \<noteq> []" "\<not> occurs_in ''sorry'' body"
    "read_lemmas other parent [] (item # items) = Inr specs"
    "sk = \<lparr>sk_parent_name = parent, sk_parent_signature = g_statement g, sk_parent_body = strip body,
       sk_subgoals = specs, sk_preamble = preamble\<rparr>"
    using assms by (rule parse_proposalE) (blast intro: that)
  have "\<not> occurs_in ''sorry'' (strip body)" using p(2) strip_infix[of body] occurs_in_mid by metis
  moreover have "specs \<noteq> []" using read_lemmas_ok[OF p(3)] by auto
  ultimately show ?thesis using p(1,4) read_lemmas_ok[OF p(3)] by simp
qed

section \<open>How often the source asks\<close>

fun propose_all ::
  "(string \<Rightarrow> string + json) \<Rightarrow> (json \<Rightarrow> string) \<Rightarrow> (string list \<Rightarrow> string list) \<Rightarrow> (string \<times> goal) list
     \<Rightarrow> decomposition_source \<Rightarrow> decomposition_source \<times> (string \<times> sketch option) list" where
  "propose_all loads other hash_many [] src = (src, [])"
| "propose_all loads other hash_many ((reply, g) # calls) src =
     (let (src1, answer) = propose loads other hash_many reply g src;
          (src2, answers) = propose_all loads other hash_many calls src1
      in (src2, (g_identity g, answer) # answers))"

definition offered :: "string \<Rightarrow> (string \<times> sketch option) list \<Rightarrow> nat" where
  "offered identity answers = length (filter (\<lambda>(i, a). i = identity \<and> a \<noteq> None) answers)"

definition failures :: "string \<Rightarrow> (string \<times> proposal_error) list \<Rightarrow> nat" where
  "failures identity es = length (filter (\<lambda>e. fst e = identity) es)"

lemma propose_cases:
  assumes "propose loads other hash_many reply g src = (src1, answer)"
  obtains (spent) "ds_max_proposals src \<le> int (used_proposals src (g_identity g))" "src1 = src" "answer = None"
    | (failed) e where "int (used_proposals src (g_identity g)) < ds_max_proposals src"
        "src1 = src\<lparr>ds_counts := (ds_counts src)(g_identity g \<mapsto> used_proposals src (g_identity g) + 1),
           ds_errors := ds_errors src @ [(g_identity g, e)]\<rparr>" "answer = None"
    | (route) sk where "int (used_proposals src (g_identity g)) < ds_max_proposals src"
        "src1 = src\<lparr>ds_counts := (ds_counts src)(g_identity g \<mapsto> used_proposals src (g_identity g) + 1)\<rparr>"
        "answer = Some sk"
proof (cases "ds_max_proposals src \<le> int (used_proposals src (g_identity g))")
  case True
  then have "src1 = src" "answer = None" using assms by (simp_all add: propose_def)
  with True show ?thesis by (rule that(1))
next
  case False
  show ?thesis
  proof (cases "parse_proposal loads other reply g (ds_parent_name src) (ds_preamble src)")
    case (Inl e)
    with assms False have "src1 = src\<lparr>ds_counts := (ds_counts src)(g_identity g \<mapsto> used_proposals src (g_identity g) + 1),
           ds_errors := ds_errors src @ [(g_identity g, e)]\<rparr>" "answer = None"
      by (simp_all add: propose_def Let_def)
    with False show ?thesis by (intro that(2)[of e]) simp_all
  next
    case (Inr sk)
    with assms False have "src1 = src\<lparr>ds_counts := (ds_counts src)(g_identity g \<mapsto> used_proposals src (g_identity g) + 1)\<rparr>"
      "\<exists>sk'. answer = Some sk'"
      by (auto simp: propose_def Let_def)
    with False show ?thesis using that(3) by auto
  qed
qed

lemma propose_accounts:
  assumes "propose loads other hash_many reply g src = (src1, answer)"
  shows "ds_max_proposals src1 = ds_max_proposals src
    \<and> (\<exists>new. ds_errors src1 = ds_errors src @ new
        \<and> used_proposals src1 identity = used_proposals src identity + offered identity [(g_identity g, answer)]
            + failures identity new)
    \<and> int (used_proposals src1 identity) \<le> max (int (used_proposals src identity)) (ds_max_proposals src)"
  using assms
proof (cases rule: propose_cases)
  case spent
  then show ?thesis by (simp add: offered_def failures_def)
next
  case (failed e)
  then show ?thesis by (auto simp: offered_def failures_def used_proposals_def)
next
  case (route sk)
  then show ?thesis by (auto simp: offered_def failures_def used_proposals_def)
qed

text \<open>
  Over any sequence of calls the model is asked for routes of one goal at most as often as allowed,
  and every time it was asked ends in a route that was offered or in a recorded error.
\<close>

theorem proposals_are_bounded:
  assumes "propose_all loads other hash_many calls src = (src', answers)"
  shows "(\<exists>new. ds_errors src' = ds_errors src @ new
        \<and> used_proposals src' identity = used_proposals src identity + offered identity answers + failures identity new)
    \<and> int (used_proposals src' identity) \<le> max (int (used_proposals src identity)) (ds_max_proposals src)"
  using assms
proof (induction loads other hash_many calls src arbitrary: answers rule: propose_all.induct)
  case (1 loads other hash_many src)
  then show ?case by (simp add: offered_def failures_def)
next
  case (2 loads other hash_many reply g calls src)
  obtain src1 answer where one: "propose loads other hash_many reply g src = (src1, answer)" by fastforce
  obtain rest where rest: "propose_all loads other hash_many calls src1 = (src', rest)"
      and ans: "answers = (g_identity g, answer) # rest"
    using 2(2) one by (auto split: prod.splits)
  obtain a where a: "ds_max_proposals src1 = ds_max_proposals src" "ds_errors src1 = ds_errors src @ a"
    "used_proposals src1 identity = used_proposals src identity + offered identity [(g_identity g, answer)] + failures identity a"
    "int (used_proposals src1 identity) \<le> max (int (used_proposals src identity)) (ds_max_proposals src)"
    using propose_accounts[OF one, of identity] by blast
  obtain b where b: "ds_errors src' = ds_errors src1 @ b"
    "used_proposals src' identity = used_proposals src1 identity + offered identity rest + failures identity b"
    "int (used_proposals src' identity) \<le> max (int (used_proposals src1 identity)) (ds_max_proposals src1)"
    using 2(1)[OF one[symmetric] refl rest] by blast
  have "offered identity answers = offered identity [(g_identity g, answer)] + offered identity rest"
    by (simp add: ans offered_def)
  moreover have "failures identity (a @ b) = failures identity a + failures identity b" by (simp add: failures_def)
  ultimately show ?case
    using a b by (intro conjI exI[of _ "a @ b"]) simp_all
qed

section \<open>Samples\<close>

definition sample_goal :: goal where
  "sample_goal = new_goal ''goal_a'' ''A'' ''theorem a : p'' 1"

definition sample_payload :: json where
  "sample_payload = JObj [(''lemmas'', JList [JObj [(''name'', JStr ''h''), (''signature'', JStr ''theorem h : q'')]]),
     (''parent_body'', JStr ''by exact h'')]"

definition null_payload :: json where
  "null_payload = JObj [(''lemmas'', JList [JObj [(''name'', JNull), (''signature'', JNull)]]),
     (''parent_body'', JStr ''by trivial'')]"

lemma accepted_proposals_are_well_formed_witness:
  "\<exists>sk. parse_proposal (\<lambda>_. Inr sample_payload) (\<lambda>_. []) ''x'' sample_goal ''a'' [] = Inr sk
     \<and> sk_subgoals sk \<noteq> [] \<and> sk_parent_signature sk = ''theorem a : p''"
proof -
  have "\<not> isl (parse_proposal (\<lambda>_. Inr sample_payload) (\<lambda>_. []) ''x'' sample_goal ''a'' [])" by code_simp
  then obtain sk where sk: "parse_proposal (\<lambda>_. Inr sample_payload) (\<lambda>_. []) ''x'' sample_goal ''a'' [] = Inr sk"
    by (cases "parse_proposal (\<lambda>_. Inr sample_payload) (\<lambda>_. []) ''x'' sample_goal ''a'' []") simp_all
  from accepted_proposals_are_well_formed[OF sk] sk show ?thesis by (auto simp: sample_goal_def new_goal_def)
qed

definition sample_source :: decomposition_source where
  "sample_source = \<lparr>ds_parent_name = ''a'', ds_preamble = [], ds_max_proposals = 1, ds_errors = [], ds_counts = Map.empty\<rparr>"

definition sample_calls :: "decomposition_source \<times> (string \<times> sketch option) list" where
  "sample_calls = propose_all (\<lambda>_. Inl ''no json'') (\<lambda>_. []) (map (\<lambda>_. ''id'')) [(''x'', sample_goal), (''y'', sample_goal)] sample_source"

lemma proposals_are_bounded_witness:
  "used_proposals (fst sample_calls) ''A'' \<le> 1
 \<and> (\<exists>new. used_proposals (fst sample_calls) ''A'' = offered ''A'' (snd sample_calls) + failures ''A'' new)"
proof -
  have "sample_calls = (fst sample_calls, snd sample_calls)" by simp
  note bounded = proposals_are_bounded[OF this[unfolded sample_calls_def], of "''A''", folded sample_calls_def]
  have "used_proposals sample_source ''A'' = 0" "ds_max_proposals sample_source = 1"
    by (simp_all add: sample_source_def used_proposals_def)
  with bounded show ?thesis by auto
qed

text \<open>
  A member that is present but \<open>null\<close> is not refused: it is printed, so a lemma without a name and
  without a signature enters the sketch as the lemma \<open>None\<close> that states \<open>None\<close>.
\<close>

theorem null_members_are_patched_up:
  "\<exists>sk. parse_proposal (\<lambda>_. Inr null_payload) other ''x'' sample_goal ''goal'' [] = Inr sk
     \<and> sk_subgoals sk = [\<lparr>sp_name = ''None'', sp_identity = [], sp_signature = ''None''\<rparr>]"
proof -
  have s: "strip ''None'' = ''None''" "strip ''by trivial'' = ''by trivial''" "usable_name ''None''"
    "\<not> occurs_in '':='' ''None''" "\<not> occurs_in ''sorry'' ''by trivial''" by code_simp+
  have n: "member_str other k [(''name'', JNull), (''signature'', JNull)] = ''None''"
    if "k = ''name'' \<or> k = ''signature''" for k
    using that s(1) by (auto simp: member_str_def py_str_def)
  show ?thesis
    by (simp add: parse_proposal_def null_payload_def n s Let_def)
qed

end
