(* ===== verification/Evidence.thy ===== *)
theory Evidence
  imports Population
begin

text \<open>
  The evidence of an evaluation (\<open>src/evoharness/evaluation/\<close>): the fault taxonomy (\<open>faults.py\<close>), the
  score namespaces (\<open>namespace.py\<close>), the envelope with the invariants of its constructor and its codec
  (\<open>evidence.py\<close>), and the policy that decides how the search may use it (\<open>policy.py\<close>). A field whose
  type the constructor itself checks holds the JSON value it was given; freezing a payload makes it
  immutable and leaves its value as it is. The digest of a payload is a parameter.

  The lemmas show which envelopes can exist, that one written is read back as itself, and that the
  decision of the policy agrees with the flags the population selects by.
\<close>

section \<open>Faults\<close>

datatype fault_kind =
  FMissing | FInfraError | FProtocolError | FTaskFailure | FTimeout | FInvalidCandidate | FUnknown

fun fault_value :: "fault_kind \<Rightarrow> string" where
  "fault_value FMissing = ''missing''"
| "fault_value FInfraError = ''infra_error''"
| "fault_value FProtocolError = ''protocol_error''"
| "fault_value FTaskFailure = ''task_failure''"
| "fault_value FTimeout = ''timeout''"
| "fault_value FInvalidCandidate = ''invalid_candidate''"
| "fault_value FUnknown = ''unknown''"

definition fault_kinds :: "fault_kind list" where
  "fault_kinds = [FMissing, FInfraError, FProtocolError, FTaskFailure, FTimeout, FInvalidCandidate, FUnknown]"

definition no_verdict_faults :: "fault_kind list" where
  "no_verdict_faults = [FMissing, FInfraError, FProtocolError, FUnknown]"

definition verdict_faults :: "fault_kind list" where
  "verdict_faults = [FTaskFailure, FTimeout, FInvalidCandidate]"

definition wire_vocab :: "string \<rightharpoonup> fault_kind" where
  "wire_vocab v = map_of (map (\<lambda>k. (fault_value k, k)) fault_kinds) v"

datatype evidence_error =
  EvTypeError string
| EvValueError string
| EvProtocol string fault_kind
| NamespaceMismatch "string list"

definition classify_fault :: "bool \<Rightarrow> string option \<Rightarrow> evidence_error + fault_kind option" where
  "classify_fault ok kind =
     (if (case kind of None \<Rightarrow> False | Some k \<Rightarrow> strip k = [])
      then Inl (EvTypeError ''fault_kind must be a non-empty string or None'')
      else if ok then Inr (case kind of None \<Rightarrow> None | Some _ \<Rightarrow> Some FProtocolError)
      else Inr (Some (case kind of None \<Rightarrow> FTaskFailure
                      | Some k \<Rightarrow> (case wire_vocab k of Some f \<Rightarrow> f | None \<Rightarrow> FUnknown))))"

section \<open>Strict JSON\<close>

fun strict_int :: "json \<Rightarrow> string \<Rightarrow> evidence_error + int" where
  "strict_int (JInt n) name = Inr n"
| "strict_int _ name = Inl (EvTypeError name)"

fun strict_bool :: "json \<Rightarrow> string \<Rightarrow> evidence_error + bool" where
  "strict_bool (JBool b) name = Inr b"
| "strict_bool _ name = Inl (EvTypeError name)"

fun optional_bool :: "json \<Rightarrow> string \<Rightarrow> evidence_error + bool option" where
  "optional_bool JNull name = Inr None"
| "optional_bool v name = bindE (strict_bool v name) (\<lambda>b. Inr (Some b))"

fun finite_float :: "py_float \<Rightarrow> bool" where
  "finite_float (Fin x) = True"
| "finite_float _ = False"

text \<open>A huge integer makes \<open>math.isfinite\<close> raise an \<open>OverflowError\<close>, which is an error here as well.\<close>

fun optional_finite_float :: "json \<Rightarrow> string \<Rightarrow> evidence_error + py_float option" where
  "optional_finite_float JNull name = Inr None"
| "optional_finite_float (JInt n) name =
     (case float_of_int n of Inr x \<Rightarrow> Inr (Some x) | Inl _ \<Rightarrow> Inl (EvTypeError name))"
| "optional_finite_float (JFloat x) name = (if finite_float x then Inr (Some x) else Inl (EvTypeError name))"
| "optional_finite_float _ name = Inl (EvTypeError name)"

fun json_finite :: "json \<Rightarrow> bool" where
  "json_finite (JFloat x) = finite_float x"
| "json_finite (JList js) = list_all json_finite js"
| "json_finite (JObj ms) = list_all (\<lambda>m. json_finite (snd m)) ms"
| "json_finite _ = True"

definition freeze_json :: "json \<Rightarrow> string \<Rightarrow> evidence_error + json" where
  "freeze_json v path = (if json_finite v then Inr v else Inl (EvValueError path))"

section \<open>Namespaces and coverage\<close>

record score_namespace =
  criterion_hash :: string
  measurement_hash :: string
  evaluator_hash :: string
  universe_hash :: string

definition namespace_fields :: "score_namespace \<Rightarrow> (string \<times> string) list" where
  "namespace_fields n =
     [(''criterion_hash'', criterion_hash n), (''measurement_hash'', measurement_hash n),
      (''evaluator_hash'', evaluator_hash n), (''universe_hash'', universe_hash n)]"

definition mk_namespace :: "score_namespace \<Rightarrow> evidence_error + score_namespace" where
  "mk_namespace n =
     (case List.find (\<lambda>(k, v). strip v = []) (namespace_fields n) of
        Some (k, _) \<Rightarrow> Inl (EvValueError k) | None \<Rightarrow> Inr n)"

definition require_comparable :: "score_namespace \<Rightarrow> score_namespace \<Rightarrow> evidence_error + unit" where
  "require_comparable a b =
     (if a = b then Inr ()
      else Inl (NamespaceMismatch (map (fst \<circ> fst)
        (filter (\<lambda>(x, y). snd x \<noteq> snd y) (zip (namespace_fields a) (namespace_fields b))))))"

definition namespace_to_json :: "score_namespace \<Rightarrow> json" where
  "namespace_to_json n = JObj (map (\<lambda>(k, v). (k, JStr v)) (namespace_fields n))"

text \<open>\<open>cls(**payload)\<close>: a field that is not a text is refused by the constructor like a blank one.\<close>

fun namespace_text :: "json option \<Rightarrow> string \<Rightarrow> evidence_error + string" where
  "namespace_text (Some (JStr s)) k = (if strip s = [] then Inl (EvValueError k) else Inr s)"
| "namespace_text _ k = Inl (EvValueError k)"

definition namespace_keys :: "string list" where
  "namespace_keys = [''criterion_hash'', ''measurement_hash'', ''evaluator_hash'', ''universe_hash'']"

fun namespace_from_json :: "json \<Rightarrow> evidence_error + score_namespace" where
  "namespace_from_json (JObj d) =
     (if set (map fst d) \<noteq> set namespace_keys then Inl (EvValueError ''score namespace fields mismatch'')
      else bindE (namespace_text (map_of d ''criterion_hash'') ''criterion_hash'') (\<lambda>c.
           bindE (namespace_text (map_of d ''measurement_hash'') ''measurement_hash'') (\<lambda>m.
           bindE (namespace_text (map_of d ''evaluator_hash'') ''evaluator_hash'') (\<lambda>e.
           bindE (namespace_text (map_of d ''universe_hash'') ''universe_hash'') (\<lambda>u.
             Inr \<lparr>criterion_hash = c, measurement_hash = m, evaluator_hash = e, universe_hash = u\<rparr>)))))"
| "namespace_from_json _ = Inl (EvTypeError ''score namespace must be a JSON object'')"

record coverage =
  planned_units :: int
  executed_units :: int
  trustworthy_units :: int

definition mk_coverage :: "int \<Rightarrow> int \<Rightarrow> int \<Rightarrow> evidence_error + coverage" where
  "mk_coverage planned executed trustworthy =
     (if planned < 0 then Inl (EvValueError ''planned_units must be non-negative'')
      else if executed < 0 then Inl (EvValueError ''executed_units must be non-negative'')
      else if trustworthy < 0 then Inl (EvValueError ''trustworthy_units must be non-negative'')
      else if trustworthy > executed then Inl (EvValueError ''trustworthy_units cannot exceed executed_units'')
      else if 0 < planned \<and> planned < executed then Inl (EvValueError ''executed_units cannot exceed planned_units'')
      else Inr \<lparr>planned_units = planned, executed_units = executed, trustworthy_units = trustworthy\<rparr>)"

definition coverage_declared :: "coverage \<Rightarrow> bool" where
  "coverage_declared c \<longleftrightarrow> planned_units c > 0"

definition coverage_complete :: "coverage \<Rightarrow> bool" where
  "coverage_complete c \<longleftrightarrow>
     coverage_declared c \<and> executed_units c = planned_units c \<and> trustworthy_units c = planned_units c"

definition coverage_to_json :: "coverage \<Rightarrow> json" where
  "coverage_to_json c = JObj
     [(''planned_units'', JInt (planned_units c)), (''executed_units'', JInt (executed_units c)),
      (''trustworthy_units'', JInt (trustworthy_units c))]"

definition coverage_keys :: "string list" where
  "coverage_keys = [''planned_units'', ''executed_units'', ''trustworthy_units'']"

fun decode_coverage :: "json \<Rightarrow> evidence_error + coverage" where
  "decode_coverage (JObj d) =
     (if set (map fst d) \<noteq> set coverage_keys then Inl (EvValueError ''coverage fields mismatch'')
      else bindE (strict_int (get_or d ''planned_units'' JNull) ''planned_units'') (\<lambda>p.
           bindE (strict_int (get_or d ''executed_units'' JNull) ''executed_units'') (\<lambda>e.
           bindE (strict_int (get_or d ''trustworthy_units'' JNull) ''trustworthy_units'') (\<lambda>t.
             mk_coverage p e t))))"
| "decode_coverage _ = Inl (EvTypeError ''coverage must be a JSON object'')"

section \<open>The envelope\<close>

record evidence =
  ev_id :: string
  ev_candidate :: json
  ev_namespace :: score_namespace
  ev_valid :: bool
  ev_admissible :: "bool option"
  ev_fitness :: "py_float option"
  ev_fault :: "fault_kind option"
  ev_coverage :: coverage
  ev_objective_met :: "bool option"
  ev_verifier :: json
  ev_observations :: json
  ev_missing :: "json list"
  ev_budget :: "py_float option"
  ev_provenance :: json
  ev_artifacts :: json

fun present_text :: "json \<Rightarrow> bool" where
  "present_text (JStr s) = (strip s \<noteq> [])"
| "present_text _ = False"

text \<open>The checks of single fields, and the payloads that are frozen.\<close>

definition check_fields :: "evidence \<Rightarrow> evidence_error + unit" where
  "check_fields e =
     (if \<not> present_text (ev_candidate e) then Inl (EvValueError ''candidate_id must be non-empty'')
      else if \<not> (case ev_fitness e of None \<Rightarrow> True | Some x \<Rightarrow> finite_float x) then Inl (EvTypeError ''fitness'')
      else if \<not> (case ev_budget e of None \<Rightarrow> False | Some x \<Rightarrow> finite_float x \<and> \<not> float_negative x)
      then Inl (EvValueError ''budget_used_usd must be non-negative and finite'')
      else if ev_artifacts e \<noteq> JNull \<and> \<not> present_text (ev_artifacts e)
      then Inl (EvValueError ''artifacts_ref must be non-empty when present'')
      else if \<not> list_all present_text (ev_missing e)
      then Inl (EvValueError ''missing_reasons must contain non-empty strings'')
      else bindE (freeze_json (ev_observations e) ''observations'') (\<lambda>_.
           bindE (freeze_json (ev_provenance e) ''provenance'') (\<lambda>_. Inr ())))"

definition protocol :: "string \<Rightarrow> evidence_error" where
  "protocol message = EvProtocol message FProtocolError"

definition is_no_verdict :: "fault_kind option \<Rightarrow> bool" where
  "is_no_verdict f \<longleftrightarrow> (case f of None \<Rightarrow> False | Some k \<Rightarrow> k \<in> set no_verdict_faults)"

definition check_verdict :: "evidence \<Rightarrow> evidence_error + unit" where
  "check_verdict e =
     (if ev_valid e
      then if ev_admissible e = None \<or> ev_fitness e = None
           then Inl (protocol ''valid evidence requires admissibility and fitness'')
           else if is_no_verdict (ev_fault e) then Inl (protocol ''no-verdict fault cannot mark evidence valid'')
           else if ev_admissible e \<noteq> Some (ev_fault e \<noteq> Some FInvalidCandidate)
           then Inl (protocol ''admissibility contradicts fault_kind'')
           else if ev_missing e \<noteq> [] then Inl (protocol ''valid evidence cannot carry missing reasons'')
           else Inr ()
      else if ev_admissible e \<noteq> None \<or> ev_fitness e \<noteq> None
           then Inl (protocol ''no-verdict evidence cannot carry admissibility or fitness'')
           else if \<not> is_no_verdict (ev_fault e) then Inl (protocol ''invalid evaluation requires a no-verdict fault'')
           else if ev_missing e = [] then Inl (protocol ''no-verdict evidence requires a reason'')
           else if ev_objective_met e \<noteq> None then Inl (protocol ''no-verdict evidence cannot assess the objective'')
           else Inr ())"

definition check_objective :: "evidence \<Rightarrow> evidence_error + unit" where
  "check_objective e =
     (if ev_objective_met e \<noteq> None \<and> \<not> present_text (ev_verifier e)
      then Inl (protocol ''objective assessment requires verifier identity'')
      else if ev_objective_met e = None \<and> ev_verifier e \<noteq> JNull
      then Inl (protocol ''verifier identity requires an objective assessment'')
      else if ev_objective_met e = Some True \<and>
        (\<not> ev_valid e \<or> ev_admissible e \<noteq> Some True \<or> ev_fault e \<noteq> None \<or> \<not> coverage_complete (ev_coverage e))
      then Inl (protocol ''objective_met=True requires complete admissible evidence'')
      else Inr ())"

definition normalize_and_validate :: "evidence \<Rightarrow> evidence_error + unit" where
  "normalize_and_validate e =
     bindE (check_fields e) (\<lambda>_. bindE (check_verdict e) (\<lambda>_. check_objective e))"

section \<open>Codec and identity\<close>

definition evidence_content :: "evidence \<Rightarrow> (string \<times> json) list" where
  "evidence_content e =
     [(''schema_version'', JInt 1),
      (''candidate_id'', ev_candidate e),
      (''namespace'', namespace_to_json (ev_namespace e)),
      (''evaluation_valid'', JBool (ev_valid e)),
      (''admissible'', or_null JBool (ev_admissible e)),
      (''fitness'', or_null JFloat (ev_fitness e)),
      (''fault_kind'', or_null (\<lambda>k. JStr (fault_value k)) (ev_fault e)),
      (''coverage'', coverage_to_json (ev_coverage e)),
      (''objective_met'', or_null JBool (ev_objective_met e)),
      (''objective_verifier_hash'', ev_verifier e),
      (''observations'', ev_observations e),
      (''missing_reasons'', JList (ev_missing e)),
      (''budget_used_usd'', or_null JFloat (ev_budget e)),
      (''provenance'', ev_provenance e),
      (''artifacts_ref'', ev_artifacts e)]"

definition evidence_hash :: "(json \<Rightarrow> string) \<Rightarrow> evidence \<Rightarrow> string" where
  "evidence_hash digest e = digest (JObj (evidence_content e))"

definition assign_or_validate_id :: "(json \<Rightarrow> string) \<Rightarrow> evidence \<Rightarrow> evidence_error + evidence" where
  "assign_or_validate_id digest e =
     (let expected = evidence_hash digest e in
      if ev_id e = [] \<or> ev_id e = ''auto'' then Inr (e\<lparr>ev_id := expected\<rparr>)
      else if ev_id e \<noteq> expected then Inl (protocol ''evidence_id does not match content hash'')
      else Inr e)"

text \<open>The constructor with its \<open>__post_init__\<close>.\<close>

definition mk_evidence :: "(json \<Rightarrow> string) \<Rightarrow> evidence \<Rightarrow> evidence_error + evidence" where
  "mk_evidence digest e = bindE (normalize_and_validate e) (\<lambda>_. assign_or_validate_id digest e)"

definition encode_evidence :: "evidence \<Rightarrow> json" where
  "encode_evidence e = JObj ((''evidence_id'', JStr (ev_id e)) # evidence_content e)"

definition evidence_keys :: "string list" where
  "evidence_keys = [''evidence_id'', ''candidate_id'', ''namespace'', ''evaluation_valid'', ''admissible'', ''fitness'',
     ''fault_kind'', ''coverage'', ''objective_met'', ''objective_verifier_hash'', ''observations'',
     ''missing_reasons'', ''budget_used_usd'', ''provenance'', ''artifacts_ref'', ''schema_version'']"

fun evidence_id_text :: "json \<Rightarrow> evidence_error + string" where
  "evidence_id_text (JStr s) =
     (if s = [] then Inl (EvTypeError ''evidence_id must be a non-empty string'') else Inr s)"
| "evidence_id_text _ = Inl (EvTypeError ''evidence_id must be a non-empty string'')"

fun fault_text :: "json \<Rightarrow> evidence_error + string option" where
  "fault_text JNull = Inr None"
| "fault_text (JStr s) = Inr (Some s)"
| "fault_text _ = Inl (EvTypeError ''fault_kind must be a string or None'')"

fun reason_list :: "json \<Rightarrow> evidence_error + json list" where
  "reason_list (JList js) = Inr js"
| "reason_list _ = Inl (EvTypeError ''missing_reasons must be a list'')"

definition as_fault :: "string option \<Rightarrow> evidence_error + fault_kind option" where
  "as_fault raw =
     (case raw of None \<Rightarrow> Inr None
      | Some s \<Rightarrow> (case wire_vocab s of Some k \<Rightarrow> Inr (Some k) | None \<Rightarrow> Inl (EvValueError s)))"

definition decode_members :: "(json \<Rightarrow> string) \<Rightarrow> (string \<times> json) list \<Rightarrow> evidence_error + evidence" where
  "decode_members digest d =
     (if \<not> equals_one (get_or d ''schema_version'' JNull) then Inl (EvValueError ''unsupported evidence schema'')
      else if set (map fst d) \<noteq> set evidence_keys then Inl (EvValueError ''evidence envelope fields mismatch'')
      else let field = (\<lambda>k. get_or d k JNull) in
      bindE (evidence_id_text (field ''evidence_id'')) (\<lambda>eid.
      bindE (fault_text (field ''fault_kind'')) (\<lambda>raw.
      bindE (reason_list (field ''missing_reasons'')) (\<lambda>reasons.
      bindE (namespace_from_json (field ''namespace'')) (\<lambda>ns.
      bindE (strict_bool (field ''evaluation_valid'') ''evaluation_valid'') (\<lambda>valid.
      bindE (optional_bool (field ''admissible'') ''admissible'') (\<lambda>admissible.
      bindE (optional_finite_float (field ''fitness'') ''fitness'') (\<lambda>fit.
      bindE (as_fault raw) (\<lambda>fault.
      bindE (decode_coverage (field ''coverage'')) (\<lambda>cov.
      bindE (optional_bool (field ''objective_met'') ''objective_met'') (\<lambda>met.
      bindE (optional_finite_float (field ''budget_used_usd'') ''budget_used_usd'') (\<lambda>budget.
        mk_evidence digest
          \<lparr>ev_id = eid, ev_candidate = field ''candidate_id'', ev_namespace = ns, ev_valid = valid,
           ev_admissible = admissible, ev_fitness = fit, ev_fault = fault, ev_coverage = cov,
           ev_objective_met = met, ev_verifier = field ''objective_verifier_hash'',
           ev_observations = field ''observations'', ev_missing = reasons, ev_budget = budget,
           ev_provenance = field ''provenance'', ev_artifacts = field ''artifacts_ref''\<rparr>))))))))))))"

fun decode_evidence :: "(json \<Rightarrow> string) \<Rightarrow> json \<Rightarrow> evidence_error + evidence" where
  "decode_evidence digest (JObj d) = decode_members digest d"
| "decode_evidence digest _ = Inl (EvTypeError ''evidence envelope must be a JSON object'')"

section \<open>The policy\<close>

record search_use =
  su_recordable :: bool
  su_selectable :: bool
  su_archive_eligible :: bool
  su_repairable :: bool
  su_rankable :: bool
  su_projected_fitness :: "py_float option"
  su_reason :: string

definition quarantine :: "search_use \<Rightarrow> bool" where
  "quarantine u \<longleftrightarrow> su_recordable u \<and> \<not> su_selectable u \<and> \<not> su_repairable u"

definition search_use_to_json :: "search_use \<Rightarrow> json" where
  "search_use_to_json u = JObj
     [(''recordable'', JBool (su_recordable u)), (''selectable'', JBool (su_selectable u)),
      (''archive_eligible'', JBool (su_archive_eligible u)), (''repairable'', JBool (su_repairable u)),
      (''rankable'', JBool (su_rankable u)), (''projected_fitness'', or_null JFloat (su_projected_fitness u)),
      (''reason'', JStr (su_reason u)), (''quarantine'', JBool (quarantine u))]"

definition decision :: "bool \<Rightarrow> bool \<Rightarrow> bool \<Rightarrow> bool \<Rightarrow> bool \<Rightarrow> py_float option \<Rightarrow> string \<Rightarrow> search_use" where
  "decision rec sel arch rep rank fit reason =
     \<lparr>su_recordable = rec, su_selectable = sel, su_archive_eligible = arch, su_repairable = rep,
      su_rankable = rank, su_projected_fitness = fit, su_reason = reason\<rparr>"

definition decide_search_use :: "evidence \<Rightarrow> search_use" where
  "decide_search_use e =
     (if \<not> ev_valid e then decision False False False False False None ''no-verdict''
      else if ev_admissible e \<noteq> Some True
      then decision True False False False False (ev_fitness e) ''invalid-candidate''
      else if ev_fault e = Some FTaskFailure \<or> ev_fault e = Some FTimeout
      then decision True False False True False (ev_fitness e) (case ev_fault e of Some k \<Rightarrow> fault_value k | None \<Rightarrow> [])
      else if ev_fault e \<noteq> None then decision False False False False False None ''unsupported-fault''
      else if coverage_complete (ev_coverage e) then decision True True True False True (ev_fitness e) ''complete-verdict''
      else if \<not> coverage_declared (ev_coverage e)
      then decision True True True False False (ev_fitness e) ''legacy-coverage-undeclared''
      else decision True False False False False (ev_fitness e) ''partial-coverage'')"

definition may_enter_population :: "evidence \<Rightarrow> bool" where
  "may_enter_population e = su_recordable (decide_search_use e)"

definition may_rank :: "evidence \<Rightarrow> evidence \<Rightarrow> evidence_error + unit" where
  "may_rank a b =
     bindE (require_comparable (ev_namespace a) (ev_namespace b)) (\<lambda>_.
       if list_all (\<lambda>e. su_rankable (decide_search_use e)) [a, b] then Inr ()
       else Inl (EvValueError ''cannot rank incomplete, undeclared or unsuccessful evidence''))"

definition may_support_objective :: "evidence \<Rightarrow> bool" where
  "may_support_objective e \<longleftrightarrow>
     ev_objective_met e = Some True \<and> ev_verifier e \<notin> {JNull, JStr []} \<and> ev_valid e \<and> ev_admissible e = Some True
     \<and> ev_fault e = None \<and> coverage_complete (ev_coverage e)"

section \<open>Which envelopes exist\<close>

definition consistent :: "evidence \<Rightarrow> bool" where
  "consistent e \<longleftrightarrow>
     (ev_valid e \<longleftrightarrow> \<not> is_no_verdict (ev_fault e))
   \<and> ev_admissible e = (if ev_valid e then Some (ev_fault e \<noteq> Some FInvalidCandidate) else None)
   \<and> (if ev_valid e then \<exists>x. ev_fitness e = Some (Fin x) else ev_fitness e = None)
   \<and> (ev_missing e = [] \<longleftrightarrow> ev_valid e) \<and> list_all present_text (ev_missing e)
   \<and> (\<exists>x. ev_budget e = Some (Fin x) \<and> 0 \<le> x)
   \<and> present_text (ev_candidate e) \<and> (ev_artifacts e = JNull \<or> present_text (ev_artifacts e))
   \<and> json_finite (ev_observations e) \<and> json_finite (ev_provenance e)
   \<and> (ev_objective_met e = None \<longleftrightarrow> ev_verifier e = JNull) \<and> (ev_verifier e = JNull \<or> present_text (ev_verifier e))
   \<and> (ev_objective_met e \<noteq> None \<longrightarrow> ev_valid e)
   \<and> (ev_objective_met e = Some True \<longrightarrow> ev_fault e = None \<and> coverage_complete (ev_coverage e))"

lemma finite_float_iff: "finite_float x \<longleftrightarrow> (\<exists>r. x = Fin r)"
  by (cases x) simp_all

lemma check_fields_ok:
  "check_fields e = Inr u \<longleftrightarrow> present_text (ev_candidate e) \<and> (\<forall>x \<in> set_option (ev_fitness e). finite_float x)
     \<and> (\<exists>x. ev_budget e = Some (Fin x) \<and> 0 \<le> x) \<and> (ev_artifacts e = JNull \<or> present_text (ev_artifacts e))
     \<and> list_all present_text (ev_missing e) \<and> json_finite (ev_observations e) \<and> json_finite (ev_provenance e)"
proof -
  have b: "(case ev_budget e of None \<Rightarrow> False | Some x \<Rightarrow> finite_float x \<and> \<not> float_negative x) \<longleftrightarrow>
      (\<exists>x. ev_budget e = Some (Fin x) \<and> 0 \<le> x)"
    by (auto simp: finite_float_iff split: option.splits)
  have f: "(case ev_fitness e of None \<Rightarrow> True | Some x \<Rightarrow> finite_float x) \<longleftrightarrow> (\<forall>x \<in> set_option (ev_fitness e). finite_float x)"
    by (cases "ev_fitness e") simp_all
  show ?thesis unfolding check_fields_def b f
    by (simp add: freeze_json_def bindE_Inr_iff)
qed

lemma check_verdict_ok:
  "check_verdict e = Inr u \<longleftrightarrow>
     (if ev_valid e then ev_admissible e = Some (ev_fault e \<noteq> Some FInvalidCandidate) \<and> ev_fitness e \<noteq> None
        \<and> \<not> is_no_verdict (ev_fault e) \<and> ev_missing e = []
      else ev_admissible e = None \<and> ev_fitness e = None \<and> is_no_verdict (ev_fault e) \<and> ev_missing e \<noteq> []
        \<and> ev_objective_met e = None)"
  by (auto simp: check_verdict_def)

lemma check_objective_ok:
  "check_objective e = Inr u \<longleftrightarrow>
     (ev_objective_met e \<noteq> None \<longrightarrow> present_text (ev_verifier e)) \<and> (ev_objective_met e = None \<longrightarrow> ev_verifier e = JNull)
   \<and> (ev_objective_met e = Some True \<longrightarrow> ev_valid e \<and> ev_admissible e = Some True \<and> ev_fault e = None
        \<and> coverage_complete (ev_coverage e))"
  by (auto simp: check_objective_def)

lemma present_not_null: "present_text j \<Longrightarrow> j \<noteq> JNull"
  by auto

lemma validated_iff: "normalize_and_validate e = Inr u \<longleftrightarrow> consistent e"
proof
  assume "normalize_and_validate e = Inr u"
  then have f: "check_fields e = Inr ()" and v: "check_verdict e = Inr ()" and o: "check_objective e = Inr ()"
    by (auto simp: normalize_and_validate_def bindE_Inr_iff)
  note f1 = f[unfolded check_fields_ok] and v1 = v[unfolded check_verdict_ok] and o1 = o[unfolded check_objective_ok]
  have "ev_valid e \<Longrightarrow> \<exists>x. ev_fitness e = Some (Fin x)" using f1 v1 by (auto simp: finite_float_iff)
  with f1 v1 o1 show "consistent e"
    unfolding consistent_def by (cases "ev_valid e") (auto dest: present_not_null)
next
  assume c: "consistent e"
  have "check_fields e = Inr ()"
    unfolding check_fields_ok using c by (auto simp: consistent_def split: if_splits)
  moreover have "check_verdict e = Inr ()"
    unfolding check_verdict_ok using c by (auto simp: consistent_def)
  moreover have "check_objective e = Inr ()"
    unfolding check_objective_ok using c by (auto simp: consistent_def)
  ultimately show "normalize_and_validate e = Inr u" by (simp add: normalize_and_validate_def)
qed

lemma consistent_id [simp]: "consistent (e\<lparr>ev_id := i\<rparr>) = consistent e"
  by (simp add: consistent_def)

lemma evidence_content_id [simp]: "evidence_content (e\<lparr>ev_id := i\<rparr>) = evidence_content e"
  by (simp add: evidence_content_def)

lemma evidence_hash_id [simp]: "evidence_hash digest (e\<lparr>ev_id := i\<rparr>) = evidence_hash digest e"
  by (simp add: evidence_hash_def)

lemma mk_evidence_ok:
  assumes "mk_evidence digest e = Inr e'"
  shows "consistent e' \<and> ev_id e' = evidence_hash digest e' \<and> e' = e\<lparr>ev_id := evidence_hash digest e\<rparr>"
proof -
  have c: "consistent e" and a: "assign_or_validate_id digest e = Inr e'"
    using assms by (auto simp: mk_evidence_def bindE_Inr_iff validated_iff)
  from a have "e' = e\<lparr>ev_id := evidence_hash digest e\<rparr>"
    by (cases e) (auto simp: assign_or_validate_id_def Let_def split: if_splits)
  with c show ?thesis by simp
qed

text \<open>
  C33: No contradictory evidence exists. An envelope that could be constructed, from a report or from its
  wire form, is valid exactly when its fault is not one without a verdict; then it has a finite fitness
  and says whether the candidate was admissible, and otherwise it has neither but a reason; the objective
  is met only on complete, faultless evidence with a verifier; and its id is the hash of its content.
\<close>

theorem constructed_evidence_is_consistent:
  assumes "decode_evidence digest j = Inr e \<or> mk_evidence digest e0 = Inr e"
  shows "consistent e \<and> ev_id e = evidence_hash digest e"
proof -
  have "\<exists>e0. mk_evidence digest e0 = Inr e" if "decode_evidence digest j = Inr e"
    using that by (cases j) (auto simp: decode_members_def Let_def bindE_Inr_iff split: if_splits)
  with assms obtain e1 where "mk_evidence digest e1 = Inr e" by blast
  from mk_evidence_ok[OF this] show ?thesis by blast
qed

section \<open>What the search may do\<close>

text \<open>
  On every envelope that exists the policy is this table: evidence is recorded exactly when it has a
  verdict; it is then either selectable, or repairable, or quarantined, and never two of them; what is
  ranked was measured completely; the fallback for unsupported faults is never taken; and the objective
  is supported exactly when the evidence says so.
\<close>

theorem search_use_is_a_partition:
  assumes "consistent e"
  shows "let u = decide_search_use e in
      (su_recordable u \<longleftrightarrow> ev_valid e)
    \<and> (su_selectable u \<longleftrightarrow> ev_valid e \<and> ev_fault e = None \<and> (coverage_declared (ev_coverage e) \<longrightarrow> coverage_complete (ev_coverage e)))
    \<and> (su_repairable u \<longleftrightarrow> ev_fault e \<in> {Some FTaskFailure, Some FTimeout})
    \<and> (quarantine u \<longleftrightarrow> ev_fault e = Some FInvalidCandidate
         \<or> ev_valid e \<and> ev_fault e = None \<and> coverage_declared (ev_coverage e) \<and> \<not> coverage_complete (ev_coverage e))
    \<and> (su_recordable u \<longleftrightarrow> su_selectable u \<or> su_repairable u \<or> quarantine u)
    \<and> \<not> (su_selectable u \<and> su_repairable u) \<and> (quarantine u \<longrightarrow> \<not> su_selectable u \<and> \<not> su_repairable u)
    \<and> (su_rankable u \<longrightarrow> su_selectable u \<and> coverage_complete (ev_coverage e))
    \<and> (su_recordable u \<longrightarrow> (\<exists>x. su_projected_fitness u = Some (Fin x)))
    \<and> su_reason u \<noteq> ''unsupported-fault''
    \<and> (may_support_objective e \<longleftrightarrow> ev_objective_met e = Some True)"
proof (cases "ev_valid e")
  case False
  then have "is_no_verdict (ev_fault e)" "ev_objective_met e = None" using assms by (auto simp: consistent_def)
  with False show ?thesis
    by (cases "ev_fault e")
       (auto simp: decide_search_use_def decision_def quarantine_def may_support_objective_def
         is_no_verdict_def no_verdict_faults_def Let_def)
next
  case True
  then obtain x where x: "ev_fitness e = Some (Fin x)" using assms by (auto simp: consistent_def)
  have adm: "ev_admissible e = Some (ev_fault e \<noteq> Some FInvalidCandidate)" using True assms by (simp add: consistent_def)
  have met: "ev_objective_met e = Some True \<Longrightarrow> ev_fault e = None \<and> coverage_complete (ev_coverage e) \<and> present_text (ev_verifier e)"
    using assms by (auto simp: consistent_def)
  have sup: "may_support_objective e \<longleftrightarrow> ev_objective_met e = Some True"
    using met True adm by (auto simp: may_support_objective_def strip_def lstrip_def rstrip_def)
  consider "ev_fault e = None" | "ev_fault e = Some FTaskFailure" | "ev_fault e = Some FTimeout" | "ev_fault e = Some FInvalidCandidate"
  proof (cases "ev_fault e")
    case (Some k)
    have "\<not> is_no_verdict (ev_fault e)" using True assms by (simp add: consistent_def)
    with Some that show thesis by (cases k) (simp_all add: is_no_verdict_def no_verdict_faults_def)
  qed (use that in simp)
  then show ?thesis
  proof cases
    case 1
    then show ?thesis
      unfolding Let_def sup using True adm x
      by (simp add: decide_search_use_def decision_def quarantine_def coverage_complete_def)
  qed (unfold Let_def sup, use True adm x in \<open>simp_all add: decide_search_use_def decision_def quarantine_def\<close>)
qed

section \<open>Round trip\<close>

definition valid_coverage :: "coverage \<Rightarrow> bool" where
  "valid_coverage c \<longleftrightarrow> mk_coverage (planned_units c) (executed_units c) (trustworthy_units c) = Inr c"

definition valid_namespace :: "score_namespace \<Rightarrow> bool" where
  "valid_namespace n \<longleftrightarrow> mk_namespace n = Inr n"

lemma coverage_read_back: "valid_coverage c \<Longrightarrow> decode_coverage (coverage_to_json c) = Inr c"
  by (simp add: valid_coverage_def coverage_to_json_def coverage_keys_def get_or_def)

lemma namespace_read_back:
  assumes "valid_namespace n"
  shows "namespace_from_json (namespace_to_json n) = Inr n"
proof -
  have "strip (criterion_hash n) \<noteq> []" "strip (measurement_hash n) \<noteq> []" "strip (evaluator_hash n) \<noteq> []"
    "strip (universe_hash n) \<noteq> []"
    using assms by (simp_all add: valid_namespace_def mk_namespace_def namespace_fields_def split: if_splits)
  then show ?thesis by (simp add: namespace_to_json_def namespace_fields_def namespace_keys_def)
qed

lemma wire_vocab_value [simp]: "wire_vocab (fault_value k) = Some k"
  by (cases k) (simp_all add: wire_vocab_def fault_kinds_def)

lemma fault_read_back:
  "fault_text (or_null (\<lambda>k. JStr (fault_value k)) f) = Inr (map_option fault_value f)"
  "as_fault (map_option fault_value f) = Inr f"
  by (cases f; simp add: as_fault_def)+

lemma bool_read_back: "optional_bool (or_null JBool b) name = Inr b"
  by (cases b) simp_all

lemma float_read_back: "(\<And>x. f = Some x \<Longrightarrow> finite_float x) \<Longrightarrow> optional_finite_float (or_null JFloat f) name = Inr f"
  by (cases f) simp_all

lemma evidence_members:
  assumes "d = (''evidence_id'', JStr (ev_id e)) # evidence_content e"
  shows "equals_one (get_or d ''schema_version'' JNull)" "set (map fst d) = set evidence_keys"
    "get_or d ''evidence_id'' JNull = JStr (ev_id e)" "get_or d ''candidate_id'' JNull = ev_candidate e"
    "get_or d ''namespace'' JNull = namespace_to_json (ev_namespace e)"
    "get_or d ''evaluation_valid'' JNull = JBool (ev_valid e)"
    "get_or d ''admissible'' JNull = or_null JBool (ev_admissible e)"
    "get_or d ''fitness'' JNull = or_null JFloat (ev_fitness e)"
    "get_or d ''fault_kind'' JNull = or_null (\<lambda>k. JStr (fault_value k)) (ev_fault e)"
    "get_or d ''coverage'' JNull = coverage_to_json (ev_coverage e)"
    "get_or d ''objective_met'' JNull = or_null JBool (ev_objective_met e)"
    "get_or d ''objective_verifier_hash'' JNull = ev_verifier e"
    "get_or d ''observations'' JNull = ev_observations e" "get_or d ''missing_reasons'' JNull = JList (ev_missing e)"
    "get_or d ''budget_used_usd'' JNull = or_null JFloat (ev_budget e)"
    "get_or d ''provenance'' JNull = ev_provenance e" "get_or d ''artifacts_ref'' JNull = ev_artifacts e"
  unfolding assms by (simp_all add: evidence_content_def evidence_keys_def get_or_def, (simp add: insert_commute)?)

lemma evidence_read_back:
  assumes "consistent e" "ev_id e = evidence_hash digest e" "ev_id e \<noteq> []"
    and "valid_coverage (ev_coverage e)" "valid_namespace (ev_namespace e)"
  shows "decode_evidence digest (encode_evidence e) = Inr e"
proof -
  define d where "d = (''evidence_id'', JStr (ev_id e)) # evidence_content e"
  note m = evidence_members[OF d_def]
  have fl: "finite_float x" if "ev_fitness e = Some x" for x using assms(1) that by (auto simp: consistent_def split: if_splits)
  have bl: "finite_float x" if "ev_budget e = Some x" for x using assms(1) that by (auto simp: consistent_def)
  have ok: "mk_evidence digest e = Inr e"
  proof -
    have v: "normalize_and_validate e = Inr ()" using assms(1) by (simp add: validated_iff)
    have "e\<lparr>ev_id := evidence_hash digest e\<rparr> = e" using assms(2)[symmetric] by simp
    then have "assign_or_validate_id digest e = Inr e"
      using assms(2) by (simp add: assign_or_validate_id_def Let_def)
    with v show ?thesis by (simp add: mk_evidence_def)
  qed
  have "decode_members digest d = mk_evidence digest e"
    unfolding decode_members_def Let_def m
    by (simp add: m(1) m(2) assms(3) namespace_read_back[OF assms(5)] fault_read_back bool_read_back
        float_read_back[OF fl] float_read_back[OF bl] coverage_read_back[OF assms(4)],
        rule arg_cong[where f = "mk_evidence digest"], cases e, simp)
  with ok show ?thesis by (simp add: encode_evidence_def d_def[symmetric])
qed

text \<open>
  Every envelope the constructor made, over a coverage and a namespace that were constructed, is read
  back from its wire form as the same envelope with the same id.
\<close>

theorem evidence_roundtrip:
  assumes "mk_evidence digest e0 = Inr e" "evidence_hash digest e0 \<noteq> []"
    and "valid_coverage (ev_coverage e0)" "valid_namespace (ev_namespace e0)"
  shows "decode_evidence digest (encode_evidence e) = Inr e"
proof -
  from mk_evidence_ok[OF assms(1)] have "consistent e" "ev_id e = evidence_hash digest e"
    and e: "e = e0\<lparr>ev_id := evidence_hash digest e0\<rparr>" by blast+
  moreover have "ev_id e \<noteq> []" "ev_coverage e = ev_coverage e0" "ev_namespace e = ev_namespace e0"
    using assms(2) by (simp_all add: e)
  ultimately show ?thesis using evidence_read_back[of e digest] assms(3,4) by simp
qed

section \<open>Samples\<close>

definition sample_evidence :: evidence where
  "sample_evidence =
     \<lparr>ev_id = ''auto'', ev_candidate = JStr ''c1'',
      ev_namespace = \<lparr>criterion_hash = ''a'', measurement_hash = ''b'', evaluator_hash = ''c'', universe_hash = ''d''\<rparr>,
      ev_valid = True, ev_admissible = Some True, ev_fitness = Some (Fin 1), ev_fault = None,
      ev_coverage = \<lparr>planned_units = 4, executed_units = 4, trustworthy_units = 3\<rparr>,
      ev_objective_met = None, ev_verifier = JNull, ev_observations = JObj [], ev_missing = [],
      ev_budget = Some (Fin 0), ev_provenance = JObj [], ev_artifacts = JNull\<rparr>"

lemma sample_evidence_made:
  "mk_evidence (\<lambda>_. ''h'') sample_evidence = Inr (sample_evidence\<lparr>ev_id := ''h''\<rparr>)"
  by (simp add: mk_evidence_def normalize_and_validate_def check_fields_def check_verdict_def check_objective_def
      assign_or_validate_id_def evidence_hash_def sample_evidence_def is_no_verdict_def freeze_json_def strip_def
      lstrip_def rstrip_def py_space_def)

theorem constructed_evidence_is_consistent_witness: "consistent (sample_evidence\<lparr>ev_id := ''h''\<rparr>)"
  using constructed_evidence_is_consistent[of "\<lambda>_. ''h''" JNull "sample_evidence\<lparr>ev_id := ''h''\<rparr>" sample_evidence]
    sample_evidence_made by blast

lemma sample_evidence_consistent: "consistent sample_evidence"
  using mk_evidence_ok[OF sample_evidence_made] by simp

theorem search_use_is_a_partition_witness:
  "su_recordable (decide_search_use sample_evidence) \<and> quarantine (decide_search_use sample_evidence)"
  using search_use_is_a_partition[OF sample_evidence_consistent]
  by (simp add: Let_def sample_evidence_def coverage_declared_def coverage_complete_def)

lemma sample_parts_valid:
  "valid_coverage (ev_coverage sample_evidence)" "valid_namespace (ev_namespace sample_evidence)"
  by (simp_all add: valid_coverage_def valid_namespace_def mk_coverage_def mk_namespace_def namespace_fields_def
      sample_evidence_def strip_def lstrip_def rstrip_def py_space_def)

theorem evidence_roundtrip_witness:
  "decode_evidence (\<lambda>_. ''h'') (encode_evidence (sample_evidence\<lparr>ev_id := ''h''\<rparr>)) = Inr (sample_evidence\<lparr>ev_id := ''h''\<rparr>)"
  by (rule evidence_roundtrip[OF sample_evidence_made])
    (simp_all add: sample_parts_valid evidence_hash_def)

end
