(* ===== verification/EvidenceSink.thy ===== *)
theory EvidenceSink
  imports Evidence "HOL-Library.Sublist"
begin

text \<open>
  \<open>evaluation/producer.py\<close>: evidence made from a report or from a failure, the durable sink, and the
  grader that stands between the evolution loop and the real grader. A file is its bytes. The digest of
  a payload, the canonical JSON text and its parser, and the text of an exception are parameters.

  The lemmas show that the sink survives a crash in the middle of a write, and that a candidate's flags
  agree with the evidence that was stored for it.
\<close>

section \<open>Trusted construction\<close>

definition report_provenance :: "(json \<Rightarrow> string) \<Rightarrow> eval_report \<Rightarrow> json" where
  "report_provenance digest r = JObj
     [(''stage_reached'', JInt (er_stage_reached r)), (''execution_time'', JFloat (er_execution_time r)),
      (''sem'', JFloat (er_sem r)), (''n_units'', JInt (er_n_units r)),
      (''trustworthy_units'', or_null JInt (er_trustworthy_units r)), (''fault'', or_null JStr (er_fault r)),
      (''raw_report_hash'', JStr (digest (report_to_json r)))]"

definition envelope_from_report ::
  "(json \<Rightarrow> string) \<Rightarrow> (wire_error \<Rightarrow> string) \<Rightarrow> eval_report \<Rightarrow> string \<Rightarrow> score_namespace \<Rightarrow> int \<Rightarrow> evidence_error + evidence" where
  "envelope_from_report digest show_wire r0 candidate ns planned =
     (case report_from_json (report_to_json r0) of
        Inl exc \<Rightarrow> Inl (protocol (''invalid EvalReport: '' @ show_wire exc))
      | Inr r \<Rightarrow>
          if report_to_json r \<noteq> report_to_json r0
          then Inl (protocol ''EvalReport changed during strict wire validation'')
          else bindE (classify_fault (er_passed r) (er_fault_kind r)) (\<lambda>fault.
            if is_no_verdict fault
            then Inl (EvProtocol ''cannot be returned as a verdict report'' (the fault))
            else if er_trustworthy_units r = None \<and> planned > 0 \<and> fault = None
            then Inl (protocol ''successful declared measurement must report trustworthy_units'')
            else let trustworthy = (case er_trustworthy_units r of Some n \<Rightarrow> n
                       | None \<Rightarrow> if planned = 0 then er_n_units r else 0) in
              bindE (mk_coverage planned (er_n_units r) trustworthy) (\<lambda>cov.
                mk_evidence digest
                  \<lparr>ev_id = ''auto'', ev_candidate = JStr candidate, ev_namespace = ns, ev_valid = True,
                   ev_admissible = Some (fault \<noteq> Some FInvalidCandidate), ev_fitness = Some (Fin (er_fitness r)),
                   ev_fault = fault, ev_coverage = cov, ev_objective_met = None, ev_verifier = JNull,
                   ev_observations = JObj [(''visible_metrics'', JObj (er_visible_metrics r)),
                     (''hidden_metrics'', JObj (er_hidden_metrics r))],
                   ev_missing = [], ev_budget = Some (er_eval_cost_usd r), ev_provenance = report_provenance digest r,
                   ev_artifacts = or_null JStr (er_artifacts_ref r)\<rparr>)))"

definition no_verdict_envelope ::
  "(json \<Rightarrow> string) \<Rightarrow> string \<Rightarrow> score_namespace \<Rightarrow> int \<Rightarrow> fault_kind \<Rightarrow> string \<Rightarrow> evidence_error + evidence" where
  "no_verdict_envelope digest candidate ns planned kind reason =
     (if kind \<notin> set no_verdict_faults then Inl (EvValueError ''no-verdict envelope requires a no-verdict fault'')
      else let reason1 = (if strip reason = [] then fault_value kind else strip reason) in
        bindE (mk_coverage planned 0 0) (\<lambda>cov.
          mk_evidence digest
            \<lparr>ev_id = ''auto'', ev_candidate = JStr candidate, ev_namespace = ns, ev_valid = False,
             ev_admissible = None, ev_fitness = None, ev_fault = Some kind, ev_coverage = cov,
             ev_objective_met = None, ev_verifier = JNull, ev_observations = JObj [], ev_missing = [JStr reason1],
             ev_budget = Some (Fin 0), ev_provenance = JObj [], ev_artifacts = JNull\<rparr>))"

section \<open>The durable sink\<close>

text \<open>\<open>bytes.splitlines\<close> and \<open>bytes.strip\<close> know only the ASCII breaks and spaces.\<close>

definition byte_break :: "char \<Rightarrow> bool" where
  "byte_break c \<longleftrightarrow> c = CHR 0x0A \<or> c = CHR 0x0D"

definition byte_space :: "char \<Rightarrow> bool" where
  "byte_space c \<longleftrightarrow> c \<in> set [CHR 0x20, CHR 0x09, CHR 0x0A, CHR 0x0B, CHR 0x0C, CHR 0x0D]"

function byte_lines :: "string \<Rightarrow> string list" where
  "byte_lines s = (if s = [] then [] else
     (case dropWhile (\<lambda>c. \<not> byte_break c) s of
        [] \<Rightarrow> [s]
      | c # rest \<Rightarrow> takeWhile (\<lambda>c. \<not> byte_break c) s #
          byte_lines (if c = CHR 0x0D \<and> rest \<noteq> [] \<and> hd rest = CHR 0x0A then tl rest else rest)))"
  by pat_completeness auto
termination
proof (relation "measure length", goal_cases)
  case (2 s c rest)
  have "length (c # rest) \<le> length s"
    using length_dropWhile_le [of "\<lambda>c. \<not> byte_break c" s] 2 by simp
  then show ?case by auto
qed simp

declare byte_lines.simps [simp del]

datatype sink_error = InvalidLine nat | ConflictingPayload string | WriteFailed evidence_error

type_synonym sink_records = "(string \<times> string) list"

record sink =
  si_content :: string
  si_records :: sink_records

record codec =
  cd_digest :: "json \<Rightarrow> string"
  cd_dumps :: "json \<Rightarrow> string"
  cd_loads :: "string \<Rightarrow> json option"

definition canonical :: "codec \<Rightarrow> evidence \<Rightarrow> string" where
  "canonical cd e = cd_dumps cd (encode_evidence e)"

definition decode_line :: "codec \<Rightarrow> string \<Rightarrow> evidence option" where
  "decode_line cd line =
     (case cd_loads cd line of
        None \<Rightarrow> None
      | Some j \<Rightarrow> (case decode_evidence (cd_digest cd) j of Inl _ \<Rightarrow> None | Inr e \<Rightarrow> Some e))"

definition remember :: "codec \<Rightarrow> evidence \<Rightarrow> sink_records \<Rightarrow> sink_error + sink_records" where
  "remember cd e records =
     (case map_of records (ev_id e) of
        Some existing \<Rightarrow>
          if existing \<noteq> canonical cd e then Inl (ConflictingPayload (ev_id e))
          else Inr (AList.update (ev_id e) (canonical cd e) records)
      | None \<Rightarrow> Inr (AList.update (ev_id e) (canonical cd e) records))"

fun load_lines :: "codec \<Rightarrow> nat \<Rightarrow> string list \<Rightarrow> sink_records \<Rightarrow> sink_error + sink_records" where
  "load_lines cd n [] records = Inr records"
| "load_lines cd n (l # ls) records =
     (if list_all byte_space l then load_lines cd (n + 1) ls records
      else case decode_line cd l of
        None \<Rightarrow> Inl (InvalidLine n)
      | Some e \<Rightarrow>
          (case remember cd e records of
             Inl _ \<Rightarrow> Inl (InvalidLine n)
           | Inr records' \<Rightarrow> load_lines cd (n + 1) ls records'))"

text \<open>What follows the last line feed.\<close>

definition tail_of :: "string \<Rightarrow> string" where
  "tail_of raw = rev (takeWhile (\<lambda>c. c \<noteq> CHR 0x0A) (rev raw))"

definition without_tail :: "string \<Rightarrow> string" where
  "without_tail raw = rev (dropWhile (\<lambda>c. c \<noteq> CHR 0x0A) (rev raw))"

text \<open>\<open>_load_existing\<close>: the repair of the tail, then every line.\<close>

definition open_sink :: "codec \<Rightarrow> string \<Rightarrow> sink_error + sink" where
  "open_sink cd raw =
     (if raw = [] then Inr \<lparr>si_content = [], si_records = []\<rparr>
      else let (raw1, records) =
             (if last raw = CHR 0x0A then (raw, Inr [])
              else case decode_line cd (tail_of raw) of
                None \<Rightarrow> (without_tail raw, Inr [])
              | Some e \<Rightarrow> (raw @ nl, remember cd e []))
      in bindE records (\<lambda>records1. bindE (load_lines cd 1 (byte_lines raw1) records1) (\<lambda>records2.
           Inr \<lparr>si_content = raw1, si_records = records2\<rparr>)))"

definition append_evidence :: "codec \<Rightarrow> evidence \<Rightarrow> sink \<Rightarrow> sink \<times> (sink_error + string)" where
  "append_evidence cd e s =
     (case map_of (si_records s) (ev_id e) of
        Some existing \<Rightarrow>
          if existing \<noteq> canonical cd e then (s, Inl (ConflictingPayload (ev_id e))) else (s, Inr (ev_id e))
      | None \<Rightarrow>
          (\<lparr>si_content = si_content s @ canonical cd e @ nl,
            si_records = AList.update (ev_id e) (canonical cd e) (si_records s)\<rparr>, Inr (ev_id e)))"

section \<open>The grader between the loop and the real one\<close>

datatype inner_result = Returned eval_report | RaisedInfra string | RaisedSink | Raised string

datatype grade_exception = ExnInfra string | ExnSink | ExnProtocol string fault_kind | ExnEvidence evidence_error

record producer =
  pr_codec :: codec
  pr_namespace :: score_namespace
  pr_planned :: int

text \<open>\<open>_record\<close>: the sink, the references of the candidate, the decision and the quarantine.\<close>

definition record_evidence ::
  "producer \<Rightarrow> candidate \<Rightarrow> evidence \<Rightarrow> sink \<Rightarrow> (sink \<times> candidate) \<times> (grade_exception + unit)" where
  "record_evidence pr c e s =
     (case append_evidence (pr_codec pr) e s of
        (s1, Inl _) \<Rightarrow> ((s1, c), Inl ExnSink)
      | (s1, Inr eid) \<Rightarrow>
          (case get_or (ca_metadata c) ''evidence_refs'' (JList []) of
             JList refs \<Rightarrow>
               let refs1 = (if JStr eid \<in> set refs then refs else refs @ [JStr eid]);
                   use = decide_search_use e;
                   meta = AList.update ''search_use'' (search_use_to_json use)
                     (AList.update ''evidence_refs'' (JList refs1) (ca_metadata c));
                   meta1 = (if quarantine use then AList.update ''quarantined'' (JBool True) meta else meta)
               in ((s1, c\<lparr>ca_metadata := meta1\<rparr>), Inr ())
           | _ \<Rightarrow> ((s1, c), Inl ExnSink)))"

text \<open>
  \<open>grade\<close>. \<open>show_wire\<close> and \<open>show_evidence\<close> are the texts of the exceptions, and what the inner grader
  raised is given as its class and text. An envelope for a failure that cannot itself be constructed
  raises the error of its constructor.
\<close>

fun error_class :: "evidence_error \<Rightarrow> string" where
  "error_class (EvTypeError m) = ''TypeError''"
| "error_class (EvValueError m) = ''ValueError''"
| "error_class (EvProtocol m k) = ''EvidenceProtocolError''"
| "error_class (NamespaceMismatch ks) = ''NamespaceMismatch''"


definition record_failure ::
  "producer \<Rightarrow> candidate \<Rightarrow> fault_kind \<Rightarrow> string \<Rightarrow> sink \<Rightarrow> grade_exception
     \<Rightarrow> (sink \<times> candidate) \<times> (grade_exception + eval_report)" where
  "record_failure pr c kind reason s exc =
     (case no_verdict_envelope (cd_digest (pr_codec pr)) (ca_id c) (pr_namespace pr) (pr_planned pr) kind reason of
        Inl err \<Rightarrow> ((s, c), Inl (ExnEvidence err))
      | Inr e \<Rightarrow> (case record_evidence pr c e s of
            (sc, Inl x) \<Rightarrow> (sc, Inl x)
          | (sc, Inr _) \<Rightarrow> (sc, Inl exc)))"

definition produce_grade ::
  "producer \<Rightarrow> (wire_error \<Rightarrow> string) \<Rightarrow> (evidence_error \<Rightarrow> string) \<Rightarrow> inner_result \<Rightarrow> candidate \<Rightarrow> sink
     \<Rightarrow> (sink \<times> candidate) \<times> (grade_exception + eval_report)" where
  "produce_grade pr show_wire show_evidence inner c s =
     (case inner of
        RaisedInfra exc \<Rightarrow> record_failure pr c FInfraError exc s (ExnInfra exc)
      | RaisedSink \<Rightarrow> ((s, c), Inl ExnSink)
      | Raised exc \<Rightarrow> record_failure pr c FProtocolError (''grader raised '' @ exc) s
          (ExnProtocol (''grader raised '' @ exc) FProtocolError)
      | Returned report \<Rightarrow>
          (case envelope_from_report (cd_digest (pr_codec pr)) show_wire report (ca_id c) (pr_namespace pr) (pr_planned pr) of
             Inl err \<Rightarrow> record_failure pr c FProtocolError (error_class err @ '': '' @ show_evidence err) s
               (case err of EvProtocol m k \<Rightarrow> ExnProtocol m k | _ \<Rightarrow> ExnProtocol (show_evidence err) FProtocolError)
           | Inr e \<Rightarrow> (case record_evidence pr c e s of
                 (sc, Inl x) \<Rightarrow> (sc, Inl x)
               | (sc, Inr _) \<Rightarrow> (sc, Inr report))))"

section \<open>Crashes\<close>

definition good_line :: "codec \<Rightarrow> evidence \<Rightarrow> bool" where
  "good_line cd e \<longleftrightarrow> \<not> list_all byte_space (canonical cd e) \<and> list_all (\<lambda>c. \<not> byte_break c) (canonical cd e)
     \<and> decode_line cd (canonical cd e) = Some e"

definition file_of :: "codec \<Rightarrow> evidence list \<Rightarrow> string" where
  "file_of cd es = concat (map (\<lambda>e. canonical cd e @ nl) es)"

definition keyed :: "codec \<Rightarrow> evidence list \<Rightarrow> string \<rightharpoonup> string" where
  "keyed cd es = map_of (map (\<lambda>e. (ev_id e, canonical cd e)) es)"

text \<open>The sink holds exactly the evidence \<open>es\<close>, in its file in this order and in its records.\<close>

definition holds :: "codec \<Rightarrow> evidence list \<Rightarrow> sink \<Rightarrow> bool" where
  "holds cd es s \<longleftrightarrow> si_content s = file_of cd es \<and> map_of (si_records s) = keyed cd es
     \<and> distinct (map ev_id es) \<and> list_all (good_line cd) es"

lemma byte_lines_cons:
  assumes "list_all (\<lambda>c. \<not> byte_break c) l"
  shows "byte_lines (l @ nl @ s) = l # byte_lines s"
proof -
  have br: "byte_break (CHR 0x0A)" by (simp add: byte_break_def)
  have l: "\<And>c. c \<in> set l \<Longrightarrow> \<not> byte_break c" using assms by (simp add: list_all_iff)
  have "dropWhile (\<lambda>c. \<not> byte_break c) (l @ nl @ s) = dropWhile (\<lambda>c. \<not> byte_break c) (nl @ s)"
    by (rule dropWhile_append2) (rule l)
  moreover have "takeWhile (\<lambda>c. \<not> byte_break c) (l @ nl @ s) = l @ takeWhile (\<lambda>c. \<not> byte_break c) (nl @ s)"
    by (rule takeWhile_append2) (rule l)
  ultimately have "dropWhile (\<lambda>c. \<not> byte_break c) (l @ nl @ s) = CHR 0x0A # s"
    "takeWhile (\<lambda>c. \<not> byte_break c) (l @ nl @ s) = l"
    using br by (simp_all add: nl_def)
  then show ?thesis by (subst byte_lines.simps) (simp add: nl_def)
qed

lemma byte_lines_file: "list_all (good_line cd) es \<Longrightarrow> byte_lines (file_of cd es) = map (canonical cd) es"
proof (induction es)
  case Nil
  then show ?case by (simp add: file_of_def byte_lines.simps)
next
  case (Cons e es)
  then have "list_all (\<lambda>c. \<not> byte_break c) (canonical cd e)" by (simp add: good_line_def)
  from byte_lines_cons[OF this, of "file_of cd es"] Cons show ?case by (simp add: file_of_def)
qed

lemma remember_ok:
  assumes "map_of records (ev_id e) \<in> {None, Some (canonical cd e)}"
  shows "\<exists>r. remember cd e records = Inr r \<and> map_of r = (map_of records)(ev_id e \<mapsto> canonical cd e)"
  using assms by (auto simp: remember_def update_conv')

lemma load_lines_ok:
  assumes "list_all (good_line cd) es" "distinct (map ev_id es)"
    and "\<And>e. e \<in> set es \<Longrightarrow> map_of records (ev_id e) \<in> {None, Some (canonical cd e)}"
  shows "\<exists>r. load_lines cd n (map (canonical cd) es) records = Inr r \<and> map_of r = map_of records ++ keyed cd es"
  using assms
proof (induction es arbitrary: n records)
  case Nil
  then show ?case by (simp add: keyed_def)
next
  case (Cons e es)
  obtain r1 where r1: "remember cd e records = Inr r1" "map_of r1 = (map_of records)(ev_id e \<mapsto> canonical cd e)"
    using remember_ok[of records e cd] Cons.prems(3)[of e] by auto
  have "map_of r1 (ev_id e') \<in> {None, Some (canonical cd e')}" if "e' \<in> set es" for e'
    using Cons.prems(2,3) that r1(2) by (auto simp: image_iff)
  then obtain r where r: "load_lines cd (n + 1) (map (canonical cd) es) r1 = Inr r" "map_of r = map_of r1 ++ keyed cd es"
    using Cons.IH[of r1 "n + 1"] Cons.prems(1,2) by auto
  have "ev_id e \<notin> dom (keyed cd es)" using Cons.prems(2) by (auto simp: keyed_def dom_map_of_conv_image_fst image_iff)
  then have "map_of r1 ++ keyed cd es = map_of records ++ keyed cd (e # es)"
    unfolding r1(2) keyed_def
    by (intro ext) (auto simp: map_add_def domIff split: option.splits)
  with r r1 Cons.prems(1) show ?case by (simp add: good_line_def)
qed

lemma file_of_last: "es \<noteq> [] \<Longrightarrow> file_of cd es \<noteq> [] \<and> last (file_of cd es) = CHR 0x0A"
  by (induction es) (auto simp: file_of_def nl_def)

lemma file_of_append: "file_of cd (es @ [e]) = file_of cd es @ canonical cd e @ nl"
  by (simp add: file_of_def)

lemma open_whole_file:
  assumes "list_all (good_line cd) es" "distinct (map ev_id es)"
  shows "\<exists>s. open_sink cd (file_of cd es) = Inr s \<and> holds cd es s"
proof (cases "es = []")
  case True
  then show ?thesis by (simp add: open_sink_def holds_def file_of_def keyed_def)
next
  case False
  obtain r where "load_lines cd 1 (map (canonical cd) es) [] = Inr r" "map_of r = keyed cd es"
    using load_lines_ok[OF assms, of "[]" 1] by auto
  with file_of_last[OF False, of cd] byte_lines_file[OF assms(1)] assms show ?thesis
    by (simp add: open_sink_def holds_def)
qed

lemma torn_tail:
  assumes "list_all (\<lambda>c. \<not> byte_break c) q"
  shows "tail_of (file_of cd es @ q) = q" "without_tail (file_of cd es @ q) = file_of cd es"
proof -
  have q: "c \<in> set (rev q) \<Longrightarrow> c \<noteq> CHR 0x0A" for c using assms by (auto simp: list_all_iff byte_break_def)
  have f: "takeWhile (\<lambda>c. c \<noteq> CHR 0x0A) (rev (file_of cd es)) = [] \<and>
      dropWhile (\<lambda>c. c \<noteq> CHR 0x0A) (rev (file_of cd es)) = rev (file_of cd es)"
    using file_of_last[of es cd] by (cases "es = []"; cases "rev (file_of cd es)") (auto simp: file_of_def hd_rev[symmetric])
  have "takeWhile (\<lambda>c. c \<noteq> CHR 0x0A) (rev q @ rev (file_of cd es)) = rev q"
    by (subst takeWhile_append2, erule q) (simp add: f)
  then show "tail_of (file_of cd es @ q) = q" by (simp add: tail_of_def)
  have "dropWhile (\<lambda>c. c \<noteq> CHR 0x0A) (rev q @ rev (file_of cd es)) = rev (file_of cd es)"
    by (subst dropWhile_append2, erule q) (simp add: f)
  then show "without_tail (file_of cd es @ q) = file_of cd es" by (simp add: without_tail_def)
qed

lemma append_cases:
  assumes "holds cd es s" "good_line cd e" "append_evidence cd e s = (t, Inr i)"
  obtains "t = s" | "si_content t = si_content s @ canonical cd e @ nl" "holds cd (es @ [e]) t"
proof (cases "map_of (si_records s) (ev_id e)")
  case None
  have "map_of (si_records s) = keyed cd es" using assms(1) by (simp add: holds_def)
  with None have fresh: "ev_id e \<notin> set (map ev_id es)"
    by (auto simp: keyed_def map_of_eq_None_iff image_iff)
  have t: "t = \<lparr>si_content = si_content s @ canonical cd e @ nl,
      si_records = AList.update (ev_id e) (canonical cd e) (si_records s)\<rparr>"
    using assms(3) None by (auto simp: append_evidence_def)
  have "(keyed cd es)(ev_id e \<mapsto> canonical cd e) = keyed cd (es @ [e])"
    using fresh by (auto simp: keyed_def map_add_def fun_eq_iff dest!: map_of_SomeD split: option.splits)
  with assms(1,2) fresh have "holds cd (es @ [e]) t"
    by (auto simp: holds_def t file_of_append update_conv')
  with that t show ?thesis by simp
next
  case (Some l)
  with assms(3) that show ?thesis by (simp add: append_evidence_def split: if_splits)
qed

lemma open_torn:
  assumes "holds cd es s" "list_all (\<lambda>c. \<not> byte_break c) q" "q = [] \<or> decode_line cd q = None"
  shows "\<exists>s'. open_sink cd (si_content s @ q) = Inr s' \<and> holds cd es s'"
proof (cases "q = []")
  case True
  with open_whole_file[of cd es] assms(1) show ?thesis by (simp add: holds_def)
next
  case False
  have f: "si_content s = file_of cd es" and h: "list_all (good_line cd) es" "distinct (map ev_id es)"
    using assms(1) by (simp_all add: holds_def)
  have "last (file_of cd es @ q) \<noteq> CHR 0x0A"
    using False assms(2) by (auto simp: list_all_iff byte_break_def dest!: last_in_set)
  moreover obtain r where "load_lines cd 1 (map (canonical cd) es) [] = Inr r" "map_of r = keyed cd es"
    using load_lines_ok[OF h, of "[]" 1] by auto
  ultimately show ?thesis
    using False assms(3) h by (simp add: open_sink_def f torn_tail[OF assms(2)] holds_def byte_lines_file)
qed

lemma open_unended:
  assumes "holds cd (es @ [e]) t" "si_content t = file_of cd es @ canonical cd e @ nl"
  shows "\<exists>s'. open_sink cd (file_of cd es @ canonical cd e) = Inr s' \<and> holds cd (es @ [e]) s'"
proof -
  have h: "list_all (good_line cd) (es @ [e])" "distinct (map ev_id (es @ [e]))"
    using assms(1) by (simp_all add: holds_def)
  then have g: "list_all (\<lambda>c. \<not> byte_break c) (canonical cd e)" "decode_line cd (canonical cd e) = Some e"
    "canonical cd e \<noteq> []"
    by (auto simp: good_line_def)
  have "last (file_of cd es @ canonical cd e) \<noteq> CHR 0x0A"
    using g by (auto simp: list_all_iff byte_break_def dest!: last_in_set)
  moreover obtain r0 where r0: "remember cd e [] = Inr r0" "map_of r0 = [ev_id e \<mapsto> canonical cd e]"
    using remember_ok[of "[]" e cd] by auto
  have "map_of r0 (ev_id e') \<in> {None, Some (canonical cd e')}" if "e' \<in> set (es @ [e])" for e'
    using that h(2) by (auto simp: r0(2) image_iff)
  from load_lines_ok[OF h this, of 1] obtain r where
    r: "load_lines cd 1 (map (canonical cd) (es @ [e])) r0 = Inr r" "map_of r = map_of r0 ++ keyed cd (es @ [e])"
    by blast
  have "map_of r = keyed cd (es @ [e])"
    using h(2) by (auto simp: r(2) r0(2) keyed_def map_add_def fun_eq_iff split: option.splits)
  ultimately show ?thesis
    using g r(1) r0(1) h byte_lines_file[OF h(1)]
    by (simp add: open_sink_def torn_tail[OF g(1)] file_of_append holds_def)
qed

text \<open>
  C34: The evidence file survives a crash at any moment of a write. Whatever part of the line reached the
  disk, opening the file again succeeds and finds either exactly the evidence that was there before or
  that and the new one, never less, never a part of a line; and with the whole line written the new
  evidence is there. Used of the parser: no proper part of a canonical line is an envelope.
\<close>

theorem sink_survives_crashes:
  assumes "holds cd es s" "good_line cd e" "\<And>q. strict_prefix q (canonical cd e) \<Longrightarrow> decode_line cd q = None"
    and "append_evidence cd e s = (t, Inr i)" "prefix (si_content s) disk" "prefix disk (si_content t)"
  shows "\<exists>es' s'. open_sink cd disk = Inr s' \<and> holds cd es' s' \<and> (es' = es \<or> holds cd es' t)
    \<and> (disk = si_content t \<longrightarrow> holds cd es' t)"
  using assms(1,2,4)
proof (cases rule: append_cases)
  case 1
  then have "disk = si_content s" using assms(5,6) by (simp add: prefix_order.antisym)
  with open_torn[OF assms(1), of "[]"] 1 assms(1) show ?thesis by auto
next
  case 2
  have f: "si_content s = file_of cd es" using assms(1) by (simp add: holds_def)
  have g: "list_all (\<lambda>c. \<not> byte_break c) (canonical cd e)" using assms(2) by (simp add: good_line_def)
  obtain p where p: "disk = file_of cd es @ p" using assms(5) f by (auto simp: prefix_def)
  then have "prefix p (canonical cd e @ nl)" using assms(6) by (simp add: 2(1) f)
  then consider "p = canonical cd e @ nl" | "p = canonical cd e" | "strict_prefix p (canonical cd e)"
    by (auto simp: nl_def prefix_snoc strict_prefix_def)
  then show ?thesis
  proof cases
    case 1
    then have "disk = file_of cd (es @ [e])" using p by (simp add: file_of_append)
    with open_whole_file[of cd "es @ [e]"] 2(2) show ?thesis by (metis holds_def)
  next
    case p2: 2
    with open_unended[OF 2(2)] 2 p f show ?thesis by metis
  next
    case 3
    then have "list_all (\<lambda>c. \<not> byte_break c) p" "decode_line cd p = None"
      using g assms(3) by (auto simp: list_all_iff strict_prefix_def prefix_def)
    with open_torn[OF assms(1), of p] have "\<exists>s'. open_sink cd disk = Inr s' \<and> holds cd es s'" by (simp add: p f)
    moreover have "disk \<noteq> si_content t" using 3 p 2(1) f by (auto simp: strict_prefix_def prefix_def)
    ultimately show ?thesis by blast
  qed
qed

section \<open>The flags of a graded candidate\<close>

lemma report_json_inj:
  assumes "report_to_json r = report_to_json r0"
  shows "er_passed r = er_passed r0" "er_fitness r = er_fitness r0"
  using assms by (simp_all add: report_to_json_def)

lemma envelope_verdict:
  assumes "envelope_from_report digest show_wire r cid ns planned = Inr e"
  shows "consistent e \<and> ev_valid e \<and> (ev_fault e = None \<longleftrightarrow> er_passed r) \<and> ev_fitness e = Some (Fin (er_fitness r))
    \<and> ev_candidate e = JStr cid \<and> ev_namespace e = ns \<and> planned_units (ev_coverage e) = planned"
proof -
  have "\<exists>r1 fault. classify_fault (er_passed r1) (er_fault_kind r1) = Inr fault \<and> \<not> is_no_verdict fault
      \<and> report_to_json r1 = report_to_json r \<and> consistent e \<and> ev_valid e \<and> ev_fault e = fault
      \<and> ev_fitness e = Some (Fin (er_fitness r1)) \<and> ev_candidate e = JStr cid \<and> ev_namespace e = ns
      \<and> planned_units (ev_coverage e) = planned"
    using assms
    by (simp add: envelope_from_report_def Let_def bindE_Inr_iff mk_coverage_def split: sum.splits if_splits)
      (auto dest!: mk_evidence_ok)
  then obtain r1 fault where r1: "report_to_json r1 = report_to_json r"
    and fault: "classify_fault (er_passed r1) (er_fault_kind r1) = Inr fault" "\<not> is_no_verdict fault"
    and e: "consistent e \<and> ev_valid e \<and> ev_fault e = fault \<and> ev_fitness e = Some (Fin (er_fitness r1))
      \<and> ev_candidate e = JStr cid \<and> ev_namespace e = ns \<and> planned_units (ev_coverage e) = planned"
    by blast
  have "fault = None \<longleftrightarrow> er_passed r1"
    using fault by (auto simp: classify_fault_def is_no_verdict_def no_verdict_faults_def split: if_splits option.splits)
  with e report_json_inj[OF r1] show ?thesis by simp
qed

lemma quarantine_flag:
  assumes "consistent e" "ev_valid e"
  shows "su_selectable (decide_search_use e) \<longleftrightarrow> ev_fault e = None \<and> \<not> quarantine (decide_search_use e)"
proof (cases "ev_fault e")
  case None
  then have "ev_admissible e = Some True" using assms by (simp add: consistent_def)
  with None assms(2) show ?thesis
    by (simp add: decide_search_use_def decision_def quarantine_def)
next
  case (Some k)
  then show ?thesis by (simp add: decide_search_use_def decision_def)
qed

lemma record_raised: "record_evidence pr c e s = ((s', c'), Inl exc) \<Longrightarrow> c' = c"
  by (simp add: record_evidence_def Let_def split: prod.splits sum.splits json.splits)

lemma record_ok:
  assumes "record_evidence pr c e s = ((s', c'), Inr ())"
  shows "map_of (si_records s') (ev_id e) = Some (canonical (pr_codec pr) e)"
    and "quarantined c' \<longleftrightarrow> quarantined c \<or> quarantine (decide_search_use e)"
    and "map_of (ca_metadata c') ''search_use'' = Some (search_use_to_json (decide_search_use e))"
    and "\<exists>refs. map_of (ca_metadata c') ''evidence_refs'' = Some (JList refs) \<and> JStr (ev_id e) \<in> set refs"
proof -
  obtain i refs where a: "append_evidence (pr_codec pr) e s = (s', Inr i)"
    and c': "get_or (ca_metadata c) ''evidence_refs'' (JList []) = JList refs"
      "c' = c\<lparr>ca_metadata := (let meta = AList.update ''search_use'' (search_use_to_json (decide_search_use e))
          (AList.update ''evidence_refs'' (JList (if JStr i \<in> set refs then refs else refs @ [JStr i])) (ca_metadata c))
        in if quarantine (decide_search_use e) then AList.update ''quarantined'' (JBool True) meta else meta)\<rparr>"
    using assms by (auto simp: record_evidence_def Let_def split: prod.splits sum.splits json.splits)
  have i: "i = ev_id e" and "map_of (si_records s') (ev_id e) = Some (canonical (pr_codec pr) e)"
    using a by (auto simp: append_evidence_def update_conv' split: option.splits if_splits)
  then show "map_of (si_records s') (ev_id e) = Some (canonical (pr_codec pr) e)" by simp
  show "quarantined c' \<longleftrightarrow> quarantined c \<or> quarantine (decide_search_use e)"
    "map_of (ca_metadata c') ''search_use'' = Some (search_use_to_json (decide_search_use e))"
    "\<exists>refs. map_of (ca_metadata c') ''evidence_refs'' = Some (JList refs) \<and> JStr (ev_id e) \<in> set refs"
    by (auto simp: c'(2) i quarantined_def Let_def update_conv')
qed

text \<open>
  C35: When the grader returns a report for a candidate, the evidence of it is on record, with the
  candidate, its fitness and its namespace; the candidate refers to it; and the population and the
  policy agree about it: the candidate counts as passed exactly when the policy calls the evidence
  selectable, so a measurement that was only partly trustworthy never breeds.
\<close>

theorem graded_flags_agree:
  assumes "produce_grade pr show_wire show_evidence inner c s = ((s', c'), Inr report)" "\<not> quarantined c"
  shows "inner = Returned report \<and> (\<exists>e. consistent e \<and> map_of (si_records s') (ev_id e) = Some (canonical (pr_codec pr) e)
      \<and> ev_candidate e = JStr (ca_id c) \<and> ev_namespace e = pr_namespace pr \<and> ev_fitness e = Some (Fin (er_fitness report))
      \<and> (\<exists>refs. map_of (ca_metadata c') ''evidence_refs'' = Some (JList refs) \<and> JStr (ev_id e) \<in> set refs)
      \<and> (passed (c'\<lparr>ca_report := Some report\<rparr>) \<longleftrightarrow> su_selectable (decide_search_use e)))"
proof -
  obtain e where inner: "inner = Returned report"
    and e: "envelope_from_report (cd_digest (pr_codec pr)) show_wire report (ca_id c) (pr_namespace pr) (pr_planned pr) = Inr e"
    and r: "record_evidence pr c e s = ((s', c'), Inr ())"
    using assms(1)
    by (auto simp: produce_grade_def record_failure_def split: inner_result.splits sum.splits prod.splits)
  note v = envelope_verdict[OF e] and r = record_ok[OF r]
  have "quarantined (c'\<lparr>ca_report := Some report\<rparr>) = quarantined c'" by (simp add: quarantined_def)
  with r(2) assms(2) have q: "quarantined (c'\<lparr>ca_report := Some report\<rparr>) = quarantine (decide_search_use e)" by simp
  have "passed (c'\<lparr>ca_report := Some report\<rparr>) \<longleftrightarrow> su_selectable (decide_search_use e)"
    unfolding passed_def q using v quarantine_flag[of e] by simp
  with inner v r show ?thesis by blast
qed

lemma no_verdict_decision:
  "no_verdict_envelope digest cid ns planned kind reason = Inr e \<Longrightarrow> consistent e \<and> \<not> ev_valid e"
  by (auto simp: no_verdict_envelope_def Let_def bindE_Inr_iff split: if_splits dest!: mk_evidence_ok)

lemma unusable_evidence:
  "\<not> ev_valid e \<Longrightarrow> decide_search_use e = decision False False False False False None ''no-verdict''"
  by (simp add: decide_search_use_def)

lemma record_failure_ok:
  assumes "record_failure pr c kind reason s exc = ((s', c'), Inl exc')"
  shows "c' = c \<or> (\<exists>e. consistent e \<and> \<not> ev_valid e \<and> record_evidence pr c e s = ((s', c'), Inr ()))"
proof (cases "no_verdict_envelope (cd_digest (pr_codec pr)) (ca_id c) (pr_namespace pr) (pr_planned pr) kind reason")
  case (Inl err)
  with assms show ?thesis by (simp add: record_failure_def)
next
  case (Inr e)
  note e = no_verdict_decision[OF Inr]
  obtain sc res where res: "record_evidence pr c e s = (sc, res)" by (cases "record_evidence pr c e s")
  then show ?thesis
  proof (cases res)
    case (Inl x)
    with assms res \<open>no_verdict_envelope _ _ _ _ _ _ = Inr e\<close> have "sc = (s', c')" by (simp add: record_failure_def)
    with res Inl show ?thesis by (simp add: record_raised)
  next
    case (Inr u)
    with assms res \<open>no_verdict_envelope _ _ _ _ _ _ = Inr e\<close> have "sc = (s', c')" by (simp add: record_failure_def)
    with res Inr have "record_evidence pr c e s = ((s', c'), Inr ())" by simp
    with e show ?thesis by blast
  qed
qed

text \<open>
  A grade that raises gives no verdict. The candidate keeps its report and its quarantine flag as
  they were; either nothing was written about it, or the evidence that was stored is without a verdict
  and the decision put down for the candidate lets the search use it for nothing.
\<close>

theorem failed_grades_give_no_verdict:
  assumes "produce_grade pr show_wire show_evidence inner c s = ((s', c'), Inl exc)"
  shows "ca_report c' = ca_report c \<and> (quarantined c' \<longleftrightarrow> quarantined c) \<and>
    (c' = c \<or> (\<exists>e. consistent e \<and> \<not> ev_valid e \<and> map_of (si_records s') (ev_id e) = Some (canonical (pr_codec pr) e)
      \<and> map_of (ca_metadata c') ''search_use'' =
          Some (search_use_to_json (decision False False False False False None ''no-verdict''))))"
proof -
  have "c' = c \<or> (\<exists>e. consistent e \<and> \<not> ev_valid e \<and> record_evidence pr c e s = ((s', c'), Inr ()))"
  proof (cases inner)
    case (Returned report)
    show ?thesis
    proof (cases "envelope_from_report (cd_digest (pr_codec pr)) show_wire report (ca_id c) (pr_namespace pr) (pr_planned pr)")
      case (Inl err)
      show ?thesis by (rule record_failure_ok, use assms Returned Inl in \<open>simp add: produce_grade_def\<close>)
    next
      case (Inr e)
      with assms Returned have "record_evidence pr c e s = ((s', c'), Inl exc)"
        by (simp add: produce_grade_def split: prod.splits sum.splits)
      then show ?thesis by (simp add: record_raised)
    qed
  next
    case (RaisedInfra m)
    show ?thesis by (rule record_failure_ok, use assms RaisedInfra in \<open>simp add: produce_grade_def\<close>)
  next
    case (Raised m)
    show ?thesis by (rule record_failure_ok, use assms Raised in \<open>simp add: produce_grade_def\<close>)
  qed (use assms in \<open>simp add: produce_grade_def\<close>)
  then show ?thesis
  proof (elim disjE exE conjE)
    fix e assume e: "consistent e" "\<not> ev_valid e" and r: "record_evidence pr c e s = ((s', c'), Inr ())"
    note ok = record_ok[OF r]
    have "ca_report c' = ca_report c"
      using r by (auto simp: record_evidence_def Let_def split: sum.splits prod.splits json.splits if_splits)
    moreover have "quarantined c' \<longleftrightarrow> quarantined c"
      using ok(2) by (simp add: unusable_evidence[OF e(2)] decision_def quarantine_def)
    ultimately show ?thesis using e ok(1,3) unfolding unusable_evidence[OF e(2)] by blast
  qed simp
qed

section \<open>Samples\<close>

text \<open>One envelope, one text for it, and a parser that knows that text.\<close>

definition stored_evidence :: evidence where
  "stored_evidence = sample_evidence\<lparr>ev_id := ''h''\<rparr>"

definition sample_codec :: codec where
  "sample_codec = \<lparr>cd_digest = (\<lambda>_. ''h''), cd_dumps = (\<lambda>_. ''{}''),
     cd_loads = (\<lambda>s. if s = ''{}'' then Some (encode_evidence stored_evidence) else None)\<rparr>"

lemma sample_decodes: "decode_line sample_codec s = (if s = ''{}'' then Some stored_evidence else None)"
proof -
  have "decode_evidence (\<lambda>_. ''h'') (encode_evidence stored_evidence) = Inr stored_evidence"
    unfolding stored_evidence_def using mk_evidence_ok[OF sample_evidence_made]
    by (intro evidence_read_back) (simp_all add: evidence_hash_def sample_parts_valid)
  then show ?thesis by (simp add: decode_line_def sample_codec_def)
qed

theorem sink_survives_crashes_witness:
  "\<exists>es' s'. open_sink sample_codec ''{'' = Inr s' \<and> holds sample_codec es' s'"
proof -
  define s where "s = \<lparr>si_content = [], si_records = []\<rparr>"
  have can: "canonical sample_codec stored_evidence = ''{}''" by (simp add: canonical_def sample_codec_def)
  have h: "holds sample_codec [] s" by (simp add: s_def holds_def file_of_def keyed_def)
  have g: "good_line sample_codec stored_evidence"
    by (simp add: good_line_def can sample_decodes byte_space_def byte_break_def)
  have d: "strict_prefix q (canonical sample_codec stored_evidence) \<Longrightarrow> decode_line sample_codec q = None" for q
    by (auto simp: can sample_decodes)
  define t where "t = fst (append_evidence sample_codec stored_evidence s)"
  have a: "append_evidence sample_codec stored_evidence s = (t, Inr ''h'')"
    by (simp add: t_def append_evidence_def s_def stored_evidence_def)
  have p: "prefix (si_content s) ''{''" "prefix ''{'' (si_content t)"
    by (simp_all add: t_def append_evidence_def s_def can)
  show ?thesis using sink_survives_crashes[OF h g d a p] by blast
qed

definition graded_sample :: candidate where
  "graded_sample =
     \<lparr>ca_id = ''c1'', ca_code = [], ca_generation = 0, ca_parent = None, ca_island = 0, ca_operator = [], ca_kind = [],
      ca_title = [], ca_summary = [], ca_model = [], ca_inspirations = [], ca_report = None, ca_embedding = None,
      ca_signature = None, ca_duplicate = False, ca_children = 0, ca_archived = False, ca_metadata = [], ca_timestamp = 0\<rparr>"

definition sample_producer :: producer where
  "sample_producer = \<lparr>pr_codec = sample_codec, pr_namespace = ev_namespace sample_evidence, pr_planned = 0\<rparr>"

definition empty_sink :: sink where
  "empty_sink = \<lparr>si_content = [], si_records = []\<rparr>"

lemmas grade_sample_simps = produce_grade_def record_failure_def record_evidence_def append_evidence_def Let_def
  sample_producer_def sample_codec_def empty_sink_def graded_sample_def

lemma sample_report_envelope:
  "\<exists>e. envelope_from_report (\<lambda>_. ''h'') (\<lambda>_. []) (plain_report 1 True) ''c1'' (ev_namespace sample_evidence) 0 = Inr e"
proof -
  have "wf_report (plain_report 1 True)" by (simp add: plain_report_def wf_report_def)
  then have r: "report_from_json (report_to_json (plain_report 1 True)) = Inr (plain_report 1 True)"
    by (rule read_written_report)
  have f: "er_passed (plain_report 1 True)" "er_fault_kind (plain_report 1 True) = None" "er_n_units (plain_report 1 True) = 0"
    "er_trustworthy_units (plain_report 1 True) = None" "er_eval_cost_usd (plain_report 1 True) = Fin 0"
    "er_artifacts_ref (plain_report 1 True) = None" "er_visible_metrics (plain_report 1 True) = []"
    "er_hidden_metrics (plain_report 1 True) = []" "er_execution_time (plain_report 1 True) = Fin 0"
    "er_sem (plain_report 1 True) = Fin 0" "er_fault (plain_report 1 True) = None"
    by (simp_all add: plain_report_def)
  show ?thesis
    unfolding envelope_from_report_def r
    by (simp add: f Let_def classify_fault_def is_no_verdict_def mk_coverage_def mk_evidence_def normalize_and_validate_def
        check_fields_def check_verdict_def check_objective_def assign_or_validate_id_def evidence_hash_def freeze_json_def
        report_provenance_def strip_def lstrip_def rstrip_def py_space_def)
qed

theorem graded_flags_agree_witness:
  "\<exists>s' c' i l. produce_grade sample_producer (\<lambda>_. []) (\<lambda>_. []) (Returned (plain_report 1 True)) graded_sample empty_sink
      = ((s', c'), Inr (plain_report 1 True)) \<and> map_of (si_records s') i = Some l"
proof -
  obtain e where e: "envelope_from_report (\<lambda>_. ''h'') (\<lambda>_. []) (plain_report 1 True) ''c1'' (ev_namespace sample_evidence) 0 = Inr e"
    using sample_report_envelope by blast
  define res where "res = produce_grade sample_producer (\<lambda>_. []) (\<lambda>_. []) (Returned (plain_report 1 True)) graded_sample empty_sink"
  have "snd res = Inr (plain_report 1 True)"
    by (simp add: res_def grade_sample_simps e get_or_def)
  then obtain s' c' where p: "produce_grade sample_producer (\<lambda>_. []) (\<lambda>_. []) (Returned (plain_report 1 True)) graded_sample empty_sink
      = ((s', c'), Inr (plain_report 1 True))"
    unfolding res_def by (metis prod.collapse)
  have nq: "\<not> quarantined graded_sample" by (simp add: quarantined_def graded_sample_def)
  from graded_flags_agree[OF p nq] p show ?thesis by blast
qed

theorem failed_grades_give_no_verdict_witness:
  "\<exists>sc. produce_grade sample_producer (\<lambda>_. []) (\<lambda>_. []) (RaisedInfra ''host down'') graded_sample empty_sink
      = (sc, Inl (ExnInfra ''host down'')) \<and> \<not> quarantined (snd sc)"
proof -
  define res where "res = produce_grade sample_producer (\<lambda>_. []) (\<lambda>_. []) (RaisedInfra ''host down'') graded_sample empty_sink"
  have "snd res = Inl (ExnInfra ''host down'')"
    by (simp add: res_def grade_sample_simps get_or_def no_verdict_envelope_def no_verdict_faults_def mk_coverage_def
        mk_evidence_def normalize_and_validate_def check_fields_def check_verdict_def check_objective_def
        assign_or_validate_id_def evidence_hash_def freeze_json_def strip_def lstrip_def rstrip_def
        py_space_def is_no_verdict_def)
  then obtain s' c' where p: "produce_grade sample_producer (\<lambda>_. []) (\<lambda>_. []) (RaisedInfra ''host down'') graded_sample empty_sink
      = ((s', c'), Inl (ExnInfra ''host down''))"
    unfolding res_def by (metis prod.collapse)
  from failed_grades_give_no_verdict[OF p] have "\<not> quarantined c'" by (simp add: quarantined_def graded_sample_def)
  with p show ?thesis by auto
qed

end
