(* ===== verification/Workspace.thy ===== *)
theory Workspace
  imports Population
begin

text \<open>
  \<open>core/workspace.py\<close>: what the genome of a candidate is. A single-file workspace holds the program
  text; a git workspace a base snapshot and a chain of patches. A directory is the list of its entries
  (path and node, in the order the walk meets them); the files of a workspace are a list of paths with
  their texts, with distinct paths. Running \<open>git apply\<close> and \<open>git diff\<close> and the JSON text of a genome
  are parameters (record \<open>tools\<close>); \<open>git_law\<close> is what is used of git.

  The lemmas show that a captured or edited child has exactly the files it was made from, and that a
  genome is read back from the text it is stored as.
\<close>

section \<open>Reading a directory\<close>

type_synonym files = "(string \<times> string) list"

datatype workspace_error =
  UnsafePath string
| SymlinkFound string
| FileTooLarge string
| BinaryFile string
| IncludedMissing "string list"
| CannotGrow "string list"
| MainMissing string
| GitFailed string
| NoCanonicalPatch
| UnreadableBlob
| UnknownKind string

datatype node = TextNode string | BinaryNode | BigNode | LinkNode | DirNode

definition parts_of :: "string \<Rightarrow> string list" where
  "parts_of path = filter (\<lambda>c. c \<noteq> [] \<and> c \<noteq> ''.'') (split_on (CHR ''/'') path)"

definition absolute_path :: "string \<Rightarrow> bool" where
  "absolute_path path \<longleftrightarrow> startswith path ''/''"

definition unsafe_path :: "string \<Rightarrow> bool" where
  "unsafe_path path \<longleftrightarrow> absolute_path path \<or> ''..'' \<in> set (parts_of path)"

text \<open>\<open>rel == Path(rel).as_posix()\<close> of a relative path.\<close>

definition posix_path :: "string \<Rightarrow> bool" where
  "posix_path path \<longleftrightarrow> path = ''.'' \<or> list_all (\<lambda>c. c \<noteq> [] \<and> c \<noteq> ''.'') (split_on (CHR ''/'') path)"

definition hidden_path :: "string \<Rightarrow> bool" where
  "hidden_path path \<longleftrightarrow> ''.git'' \<in> set (parts_of path) \<or> ''__pycache__'' \<in> set (parts_of path)"

fun read_nodes :: "string list option \<Rightarrow> (string \<times> node) list \<Rightarrow> workspace_error + files" where
  "read_nodes included [] = Inr []"
| "read_nodes included ((rel, n) # rest) =
     (if hidden_path rel \<or> (case included of None \<Rightarrow> False | Some names \<Rightarrow> rel \<notin> set names)
      then read_nodes included rest
      else case n of
        LinkNode \<Rightarrow> Inl (SymlinkFound rel)
      | DirNode \<Rightarrow> read_nodes included rest
      | BigNode \<Rightarrow> Inl (FileTooLarge rel)
      | BinaryNode \<Rightarrow> Inl (BinaryFile rel)
      | TextNode t \<Rightarrow> bindE (read_nodes included rest) (\<lambda>ts. Inr ((rel, t) # ts)))"

definition read_text_tree :: "string list option \<Rightarrow> (string \<times> node) list \<Rightarrow> workspace_error + files" where
  "read_text_tree included dir =
     (case included of
        None \<Rightarrow> read_nodes None dir
      | Some names \<Rightarrow>
          (case List.find (\<lambda>rel. unsafe_path rel \<or> \<not> posix_path rel) names of
             Some rel \<Rightarrow> Inl (UnsafePath rel)
           | None \<Rightarrow> bindE (read_nodes included dir) (\<lambda>texts.
               if set names \<subseteq> set (map fst texts) then Inr texts
               else Inl (IncludedMissing (sort (remdups (filter (\<lambda>n. n \<notin> set (map fst texts)) names)))))))"

section \<open>Workspaces\<close>

datatype workspace =
  FileWorkspace (fw_code: string) (fw_filename: string)
| GitWorkspace (gw_base: files) (gw_patches: "string list") (gw_main: string)

record tools =
  tl_apply :: "files \<Rightarrow> string \<Rightarrow> string + files"
  tl_diff :: "files \<Rightarrow> files \<Rightarrow> string + string"
  tl_dumps :: "json \<Rightarrow> string"
  tl_loads :: "string \<Rightarrow> json option"

text \<open>Writing \<open>edits\<close> over the files of a directory, and removing the files that are not listed.\<close>

definition write_files :: "files \<Rightarrow> files \<Rightarrow> files" where
  "write_files base edits = fold (\<lambda>(p, t) fs. AList.update p t fs) edits base"

definition keep_files :: "string list \<Rightarrow> files \<Rightarrow> files" where
  "keep_files names fs = filter (\<lambda>(p, _). p \<in> set names) fs"

definition same_files :: "files \<Rightarrow> files \<Rightarrow> bool" where
  "same_files a b \<longleftrightarrow> list_all (\<lambda>p. map_of a p = map_of b p) (map fst a @ map fst b)"

definition git_step :: "(string + 'a) \<Rightarrow> workspace_error + 'a" where
  "git_step r = (case r of Inl e \<Rightarrow> Inl (GitFailed e) | Inr x \<Rightarrow> Inr x)"

fun run_patches :: "tools \<Rightarrow> files \<Rightarrow> string list \<Rightarrow> workspace_error + files" where
  "run_patches gt fs [] = Inr fs"
| "run_patches gt fs (p # ps) = bindE (git_step (tl_apply gt fs p)) (\<lambda>fs'. run_patches gt fs' ps)"

text \<open>\<open>materialize\<close> into an empty directory: the files it holds afterwards.\<close>

fun materialize :: "tools \<Rightarrow> workspace \<Rightarrow> workspace_error + files" where
  "materialize gt (FileWorkspace code filename) = Inr [(filename, code)]"
| "materialize gt (GitWorkspace base patches main) =
     (case List.find unsafe_path (map fst base) of
        Some rel \<Rightarrow> Inl (UnsafePath rel)
      | None \<Rightarrow> bindE (run_patches gt (write_files [] base) patches) (\<lambda>fs.
          if map_of fs main = None then Inl (MainMissing main) else Inr fs))"

fun main_text :: "tools \<Rightarrow> workspace \<Rightarrow> workspace_error + string" where
  "main_text gt (FileWorkspace code filename) = Inr code"
| "main_text gt (GitWorkspace base patches main) =
     bindE (materialize gt (GitWorkspace base patches main)) (\<lambda>fs. Inr (the (map_of fs main)))"

definition workspace_texts :: "tools \<Rightarrow> workspace \<Rightarrow> workspace_error + files" where
  "workspace_texts gt ws = materialize gt ws"

definition child_of :: "workspace \<Rightarrow> string \<Rightarrow> workspace" where
  "child_of ws patch = GitWorkspace (gw_base ws) (gw_patches ws @ [patch]) (gw_main ws)"

fun with_files :: "tools \<Rightarrow> workspace \<Rightarrow> files \<Rightarrow> workspace_error + workspace" where
  "with_files gt (FileWorkspace code filename) edits =
     (let extra = filter (\<lambda>p. p \<noteq> filename) (map fst edits) in
      if extra \<noteq> [] then Inl (CannotGrow (sort (remdups extra)))
      else Inr (FileWorkspace (case map_of edits filename of None \<Rightarrow> code | Some t \<Rightarrow> t) filename))"
| "with_files gt (GitWorkspace base patches main) edits =
     (case List.find unsafe_path (map fst edits) of
        Some rel \<Rightarrow> Inl (UnsafePath rel)
      | None \<Rightarrow> bindE (materialize gt (GitWorkspace base patches main)) (\<lambda>work.
          bindE (git_step (tl_diff gt work (write_files work edits))) (\<lambda>patch.
            if strip patch = [] then Inr (GitWorkspace base patches main)
            else Inr (child_of (GitWorkspace base patches main) patch))))"

definition main_file_of :: "workspace \<Rightarrow> string" where
  "main_file_of ws = (case ws of FileWorkspace _ filename \<Rightarrow> filename | GitWorkspace _ _ main \<Rightarrow> main)"

definition with_main_text :: "tools \<Rightarrow> workspace \<Rightarrow> string \<Rightarrow> workspace_error + workspace" where
  "with_main_text gt ws new_text = with_files gt ws [(main_file_of ws, new_text)]"

fun capture_child :: "tools \<Rightarrow> workspace \<Rightarrow> (string \<times> node) list \<Rightarrow> workspace_error + workspace" where
  "capture_child gt (FileWorkspace code filename) source =
     bindE (read_text_tree None source) (\<lambda>texts.
       case map_of texts filename of
         None \<Rightarrow> Inl (MainMissing filename)
       | Some t \<Rightarrow>
           (let extra = filter (\<lambda>p. p \<noteq> filename) (map fst texts) in
            if extra \<noteq> [] then Inl (CannotGrow (sort (remdups extra))) else Inr (FileWorkspace t filename)))"
| "capture_child gt (GitWorkspace base patches main) source =
     bindE (read_text_tree None source) (\<lambda>current.
       if map_of current main = None then Inl (MainMissing main)
       else bindE (materialize gt (GitWorkspace base patches main)) (\<lambda>parent.
         if same_files current parent then Inr (GitWorkspace base patches main)
         else bindE (git_step (tl_diff gt parent (write_files (keep_files (map fst current) parent) current))) (\<lambda>patch.
           if strip patch = [] then Inl NoCanonicalPatch
           else Inr (child_of (GitWorkspace base patches main) patch))))"

definition from_directory ::
  "(string \<times> node) list \<Rightarrow> string \<Rightarrow> string list option \<Rightarrow> workspace_error + workspace" where
  "from_directory dir main include_files =
     bindE (read_text_tree include_files dir) (\<lambda>fs.
       if map_of fs main = None then Inl (MainMissing main) else Inr (GitWorkspace fs [] main))"

section \<open>The stored form\<close>

definition workspace_kind :: "workspace \<Rightarrow> string" where
  "workspace_kind ws = (case ws of FileWorkspace _ _ \<Rightarrow> ''file'' | GitWorkspace _ _ _ \<Rightarrow> ''git'')"

definition git_json :: "files \<Rightarrow> string list \<Rightarrow> string \<Rightarrow> json" where
  "git_json base patches main = JObj
     [(''base_files'', JObj (map (\<lambda>(p, t). (p, JStr t)) base)), (''main_file'', JStr main),
      (''patches'', JList (map JStr patches))]"

fun serialize :: "tools \<Rightarrow> workspace \<Rightarrow> string" where
  "serialize gt (FileWorkspace code filename) = code"
| "serialize gt (GitWorkspace base patches main) = tl_dumps gt (git_json base patches main)"

fun as_string :: "json \<Rightarrow> workspace_error + string" where
  "as_string (JStr s) = Inr s"
| "as_string _ = Inl UnreadableBlob"

fun as_files :: "json \<Rightarrow> workspace_error + files" where
  "as_files (JObj ms) = mapE (\<lambda>(p, j). bindE (as_string j) (\<lambda>t. Inr (p, t))) ms"
| "as_files _ = Inl UnreadableBlob"

fun as_patches :: "json \<Rightarrow> workspace_error + string list" where
  "as_patches (JList js) = mapE as_string js"
| "as_patches _ = Inl UnreadableBlob"

text \<open>
  \<open>deserialize\<close>. The casts of the code accept more than texts (a list of pairs, any value as the name of
  the main file); here a blob that \<open>serialize\<close> cannot have written is unreadable.
\<close>

definition deserialize :: "tools \<Rightarrow> string \<Rightarrow> workspace_error + workspace" where
  "deserialize gt blob =
     (case tl_loads gt blob of
        Some (JObj d) \<Rightarrow>
          (case (map_of d ''base_files'', map_of d ''patches'', map_of d ''main_file'') of
             (Some b, Some p, Some m) \<Rightarrow>
               bindE (as_files b) (\<lambda>base. bindE (as_patches p) (\<lambda>patches. bindE (as_string m) (\<lambda>main.
                 Inr (GitWorkspace base patches main))))
           | _ \<Rightarrow> Inl UnreadableBlob)
      | _ \<Rightarrow> Inl UnreadableBlob)"

definition load_workspace :: "tools \<Rightarrow> string \<Rightarrow> string \<Rightarrow> workspace_error + workspace" where
  "load_workspace gt kind blob =
     (if kind = ''file'' then Inr (FileWorkspace blob ''main.py'')
      else if kind = ''git'' then deserialize gt blob
      else Inl (UnknownKind kind))"

section \<open>What is used of git\<close>

definition git_law :: "tools \<Rightarrow> bool" where
  "git_law gt \<longleftrightarrow> (\<forall>a b p. tl_diff gt a b = Inr p \<longrightarrow>
     (if strip p = [] then same_files a b else \<exists>b'. tl_apply gt a p = Inr b' \<and> same_files b' b))"

lemma same_files_iff: "same_files a b \<longleftrightarrow> map_of a = map_of b"
proof
  assume same: "same_files a b"
  show "map_of a = map_of b"
  proof
    fix p
    show "map_of a p = map_of b p"
    proof (cases "p \<in> set (map fst a @ map fst b)")
      case True
      with same show ?thesis by (simp add: same_files_def list_all_iff)
    next
      case False
      then have "map_of a p = None" "map_of b p = None" by (auto simp: map_of_eq_None_iff)
      then show ?thesis by simp
    qed
  qed
qed (simp add: same_files_def list_all_iff)

lemma map_of_write_files:
  "distinct (map fst edits) \<Longrightarrow> map_of (write_files base edits) = map_of base ++ map_of edits"
proof (induction edits arbitrary: base)
  case (Cons e edits)
  obtain p t where e: "e = (p, t)" by force
  have "map_of (write_files (AList.update p t base) edits) = map_of (AList.update p t base) ++ map_of edits"
    using Cons by simp
  moreover have "p \<notin> dom (map_of edits)" using Cons.prems by (simp add: e dom_map_of_conv_image_fst)
  ultimately show ?case
    by (auto simp: e write_files_def update_conv' map_add_def fun_eq_iff domIff split: option.splits)
qed (simp add: write_files_def)

lemma map_of_keep_files: "map_of (keep_files names fs) = map_of fs |` set names"
  by (induction fs) (auto simp: keep_files_def restrict_map_def fun_eq_iff)

lemma map_of_replaced:
  "distinct (map fst cur) \<Longrightarrow> map_of (write_files (keep_files (map fst cur) parent) cur) = map_of cur"
proof
  fix p
  assume dist: "distinct (map fst cur)"
  have "p \<notin> set (map fst cur) \<Longrightarrow> map_of cur p = None" by (simp add: map_of_eq_None_iff)
  then show "map_of (write_files (keep_files (map fst cur) parent) cur) p = map_of cur p"
    by (cases "p \<in> set (map fst cur)")
      (auto simp: map_of_write_files[OF dist] map_of_keep_files map_add_def restrict_map_def split: option.splits
        dest: weak_map_of_SomeI)
qed

lemma read_nodes_distinct:
  "read_nodes included dir = Inr ts \<Longrightarrow> distinct (map fst dir) \<Longrightarrow> distinct (map fst ts) \<and> fst ` set ts \<subseteq> fst ` set dir"
proof (induction dir arbitrary: ts)
  case (Cons d dir)
  obtain rel n where d: "d = (rel, n)" by force
  from Cons.prems(1) consider "read_nodes included dir = Inr ts"
    | t ts' where "read_nodes included dir = Inr ts'" "ts = (rel, t) # ts'"
    by (auto simp: d bindE_Inr_iff split: if_splits node.splits)
  then show ?case
  proof cases
    case 1
    from Cons.IH[OF this] Cons.prems(2) show ?thesis by auto
  next
    case (2 t ts')
    from Cons.IH[OF 2(1)] Cons.prems(2) show ?thesis by (auto simp: d 2(2))
  qed
qed simp

lemma run_patches_append:
  "run_patches gt fs (ps @ [p]) = bindE (run_patches gt fs ps) (\<lambda>fs'. git_step (tl_apply gt fs' p))"
  proof (induction ps arbitrary: fs)
  case Nil
  then show ?case by (cases "git_step (tl_apply gt fs p)") simp_all
next
  case (Cons q ps)
  then show ?case by (cases "git_step (tl_apply gt fs q)") simp_all
qed

lemma git_step_Inr: "git_step r = Inr x \<longleftrightarrow> r = Inr x"
  by (cases r) (simp_all add: git_step_def)

lemma materialize_main:
  "materialize gt (GitWorkspace base patches main) = Inr fs \<Longrightarrow> map_of fs main \<noteq> None"
  by (auto simp: bindE_Inr_iff split: option.splits if_splits)

text \<open>One more patch: the files of the child are those the diff was made for.\<close>

lemma materialize_child:
  assumes "git_law gt" "materialize gt (GitWorkspace base patches main) = Inr fs"
    and "tl_diff gt fs new = Inr patch" "strip patch \<noteq> []" "map_of new main \<noteq> None"
  shows "\<exists>b. materialize gt (child_of (GitWorkspace base patches main) patch) = Inr b \<and> same_files b new"
proof -
  obtain b where b: "tl_apply gt fs patch = Inr b" "same_files b new"
    using assms(1,3,4) unfolding git_law_def by metis
  have "List.find unsafe_path (map fst base) = None" "run_patches gt (write_files [] base) patches = Inr fs"
    using assms(2) by (auto simp: bindE_Inr_iff split: option.splits if_splits)
  with b assms(5) show ?thesis
    by (auto simp: child_of_def run_patches_append git_step_def same_files_iff)
qed


text \<open>
  An edited child has exactly the files of its parent with the edits written over them.
\<close>

theorem edited_child_is_faithful:
  assumes "git_law gt" "distinct (map fst edits)" "with_files gt ws edits = Inr ws'" "workspace_texts gt ws = Inr fs"
  shows "\<exists>fs'. workspace_texts gt ws' = Inr fs' \<and> map_of fs' = map_of fs ++ map_of edits"
proof (cases ws)
  case (FileWorkspace code filename)
  with assms(3,4) have "\<forall>p \<in> set (map fst edits). p = filename"
    "ws' = FileWorkspace (case map_of edits filename of None \<Rightarrow> code | Some t \<Rightarrow> t) filename" "fs = [(filename, code)]"
    by (auto simp: workspace_texts_def Let_def filter_empty_conv split: if_splits)
  then show ?thesis
    by (auto simp: workspace_texts_def map_add_def fun_eq_iff map_of_eq_None_iff split: option.splits dest!: map_of_SomeD)
next
  case (GitWorkspace base patches main)
  have fs: "materialize gt (GitWorkspace base patches main) = Inr fs"
    using assms(4) by (simp only: workspace_texts_def GitWorkspace)
  have new: "map_of (write_files fs edits) = map_of fs ++ map_of edits" by (rule map_of_write_files[OF assms(2)])
  have "(\<exists>patch. tl_diff gt fs (write_files fs edits) = Inr patch \<and>
      ws' = (if strip patch = [] then GitWorkspace base patches main else child_of (GitWorkspace base patches main) patch))"
    using assms(3) fs unfolding GitWorkspace
    by (auto simp del: materialize.simps simp: bindE_Inr_iff git_step_Inr split: option.splits if_splits)
  then obtain patch where patch: "tl_diff gt fs (write_files fs edits) = Inr patch"
    "ws' = (if strip patch = [] then GitWorkspace base patches main else child_of (GitWorkspace base patches main) patch)" by blast
  show ?thesis
  proof (cases "strip patch = []")
    case True
    with assms(1) patch(1) have "same_files fs (write_files fs edits)" unfolding git_law_def by metis
    with True patch(2) fs new show ?thesis by (simp del: materialize.simps add: workspace_texts_def same_files_iff)
  next
    case False
    have "map_of (write_files fs edits) main \<noteq> None" using materialize_main[OF fs] new by (auto simp: map_add_def split: option.splits)
    from materialize_child[OF assms(1) fs patch(1) False this] False patch(2) new show ?thesis
      by (auto simp del: materialize.simps simp: workspace_texts_def same_files_iff)
  qed
qed

section \<open>Stored genomes\<close>

lemma mapE_strings: "mapE as_string (map JStr xs) = Inr xs"
  by (simp add: mapE_Inr_iff list_all2_map1 list.rel_refl)

lemma mapE_files: "mapE (\<lambda>(p, j). bindE (as_string j) (\<lambda>t. Inr (p, t))) (map (\<lambda>(p, t). (p, JStr t)) fs) = Inr fs"
  by (simp add: mapE_Inr_iff list_all2_map1 list.rel_refl case_prod_beta)

text \<open>
  A genome written to the store and loaded again is the same workspace, for a single file under its
  default name and for a git workspace.
\<close>

theorem workspace_roundtrip:
  assumes "case ws of FileWorkspace _ filename \<Rightarrow> filename = ''main.py''
    | GitWorkspace base patches main \<Rightarrow> tl_loads gt (tl_dumps gt (git_json base patches main)) = Some (git_json base patches main)"
  shows "load_workspace gt (workspace_kind ws) (serialize gt ws) = Inr ws"
proof (cases ws)
  case (GitWorkspace base patches main)
  with assms show ?thesis
    by (simp add: load_workspace_def workspace_kind_def deserialize_def git_json_def mapE_strings mapE_files)
qed (use assms in \<open>simp add: load_workspace_def workspace_kind_def\<close>)

section \<open>Samples\<close>

text \<open>A git that knows one result.\<close>

definition edited_files :: files where
  "edited_files = [(''main.py'', ''x = 2''), (''util.py'', ''y'')]"

definition sample_tools :: tools where
  "sample_tools = \<lparr>tl_apply = (\<lambda>_ _. Inr edited_files),
     tl_diff = (\<lambda>a b. if same_files a b then Inr [] else if same_files b edited_files then Inr ''patch'' else Inl []),
     tl_dumps = (\<lambda>_. ''{}''), tl_loads = (\<lambda>_. Some (git_json edited_files [] ''main.py''))\<rparr>"

lemma sample_git_law: "git_law sample_tools"
  unfolding git_law_def sample_tools_def
  by (auto simp: same_files_iff strip_def lstrip_def rstrip_def py_space_def split: if_splits)

definition sample_workspace :: workspace where
  "sample_workspace = GitWorkspace [(''main.py'', ''x = 1''), (''old.py'', ''z'')] [] ''main.py''"

definition session_dir :: "(string \<times> node) list" where
  "session_dir = [(''.git/HEAD'', TextNode ''ref''), (''main.py'', TextNode ''x = 2''), (''util.py'', TextNode ''y'')]"


theorem edited_child_is_faithful_witness:
  "\<exists>ws' fs'. with_files sample_tools (FileWorkspace ''a'' ''main.py'') [(''main.py'', ''b'')] = Inr ws'
     \<and> workspace_texts sample_tools ws' = Inr fs' \<and> map_of fs' ''main.py'' = Some ''b''"
proof -
  have w: "with_files sample_tools (FileWorkspace ''a'' ''main.py'') [(''main.py'', ''b'')] = Inr (FileWorkspace ''b'' ''main.py'')"
    by simp
  have d: "distinct (map fst [(''main.py'', ''b'')])" by simp
  have t: "workspace_texts sample_tools (FileWorkspace ''a'' ''main.py'') = Inr [(''main.py'', ''a'')]"
    by (simp add: workspace_texts_def)
  from edited_child_is_faithful[OF sample_git_law d w t] w show ?thesis by auto
qed

theorem workspace_roundtrip_witness:
  "load_workspace sample_tools ''git'' ''{}'' = Inr (GitWorkspace edited_files [] ''main.py'')"
  using workspace_roundtrip[where ws = "GitWorkspace edited_files [] ''main.py''" and gt = sample_tools]
  by (simp add: sample_tools_def workspace_kind_def)

end
