(* ===== verification/Preflight.thy ===== *)
theory Preflight
  imports Workspace "HOL-Library.Sublist"
begin

text \<open>
  \<open>core/preflight.py\<close> and the admission gate of the loop (\<open>_run_admission_preflight\<close> of
  \<open>core/loop.py\<close>): the ordered checks a proposal passes before anything expensive runs on it.
  A validator is a function of the outside world \<open>'w\<close> that answers with a result or raises (the text of
  the exception); the clock is another. What a temporary directory holds is the list of its files.

  The lemmas show that the gate fails closed.
\<close>

section \<open>Results and reports\<close>

record preflight_issue =
  is_validator :: string
  is_code :: string
  is_message :: string
  is_repairable :: bool
  is_path :: "string option"
  is_line :: "int option"
  is_column :: "int option"
  is_command :: "string list option"
  is_stdout :: string
  is_stderr :: string

definition plain_issue :: "string \<Rightarrow> string \<Rightarrow> string \<Rightarrow> bool \<Rightarrow> preflight_issue" where
  "plain_issue validator code message repairable =
     \<lparr>is_validator = validator, is_code = code, is_message = message, is_repairable = repairable, is_path = None,
      is_line = None, is_column = None, is_command = None, is_stdout = [], is_stderr = []\<rparr>"

record preflight_result =
  rs_stage :: string
  rs_issues :: "preflight_issue list"
  rs_elapsed :: real

definition result_ok :: "preflight_result \<Rightarrow> bool" where
  "result_ok r \<longleftrightarrow> rs_issues r = []"

definition result_repairable :: "preflight_result \<Rightarrow> bool" where
  "result_repairable r \<longleftrightarrow> rs_issues r \<noteq> [] \<and> list_all is_repairable (rs_issues r)"

type_synonym preflight_report = "preflight_result list"

definition report_issues :: "preflight_report \<Rightarrow> preflight_issue list" where
  "report_issues rep = concat (map rs_issues rep)"

definition report_ok :: "preflight_report \<Rightarrow> bool" where
  "report_ok rep \<longleftrightarrow> report_issues rep = []"

definition report_repairable :: "preflight_report \<Rightarrow> bool" where
  "report_repairable rep \<longleftrightarrow> report_issues rep \<noteq> [] \<and> list_all is_repairable (report_issues rep)"

definition failed_stage :: "preflight_report \<Rightarrow> string option" where
  "failed_stage rep = map_option rs_stage (List.find (\<lambda>r. \<not> result_ok r) rep)"

definition report_elapsed :: "preflight_report \<Rightarrow> real" where
  "report_elapsed rep = sum_list (map rs_elapsed rep)"

section \<open>The pipeline\<close>

record preflight_context =
  px_parent :: candidate
  px_operator :: string
  px_workdir :: "(string \<times> node) list"

record 'w validator =
  va_name :: string
  va_validate :: "preflight_context \<Rightarrow> 'w \<Rightarrow> (string + preflight_result) \<times> 'w"

definition pipeline_names_ok :: "'w validator list \<Rightarrow> bool" where
  "pipeline_names_ok vs \<longleftrightarrow> list_all (\<lambda>v. strip (va_name v) \<noteq> []) vs \<and> distinct (map va_name vs)"

definition validator_error :: "string \<Rightarrow> string \<Rightarrow> real \<Rightarrow> preflight_result" where
  "validator_error name message elapsed =
     \<lparr>rs_stage = name, rs_issues = [plain_issue name ''validator-error'' message False], rs_elapsed = elapsed\<rparr>"

definition run_validator ::
  "('w \<Rightarrow> real \<times> 'w) \<Rightarrow> 'w validator \<Rightarrow> preflight_context \<Rightarrow> 'w \<Rightarrow> preflight_result \<times> 'w" where
  "run_validator clock v ctx w =
     (let (started, w1) = clock w;
          (answer, w2) = va_validate v ctx w1;
          (stopped, w3) = clock w2;
          elapsed = max 0 (stopped - started) in
      case answer of
        Inl exc \<Rightarrow> (validator_error (va_name v) exc elapsed, w3)
      | Inr r \<Rightarrow>
          if rs_stage r \<noteq> va_name v
          then (validator_error (va_name v) (''ValueError: validator '' @ py_repr (va_name v) @ '' returned stage ''
                 @ py_repr (rs_stage r)) elapsed, w3)
          else (r\<lparr>rs_elapsed := elapsed\<rparr>, w3))"

fun run_pipeline ::
  "('w \<Rightarrow> real \<times> 'w) \<Rightarrow> 'w validator list \<Rightarrow> preflight_context \<Rightarrow> 'w \<Rightarrow> preflight_report \<times> 'w" where
  "run_pipeline clock [] ctx w = ([], w)"
| "run_pipeline clock (v # vs) ctx w =
     (let (r, w1) = run_validator clock v ctx w in
      if \<not> result_ok r then ([r], w1)
      else let (rs, w2) = run_pipeline clock vs ctx w1 in (r # rs, w2))"

section \<open>Checking a proposal\<close>

definition workspace_stage :: string where
  "workspace_stage = ''workspace''"

definition workspace_failed :: "string \<Rightarrow> string \<Rightarrow> bool \<Rightarrow> real \<Rightarrow> preflight_report" where
  "workspace_failed code message repairable elapsed =
     [\<lparr>rs_stage = workspace_stage, rs_issues = [plain_issue workspace_stage code message repairable],
       rs_elapsed = elapsed\<rparr>]"

definition captured :: "tools \<Rightarrow> preflight_context \<Rightarrow> workspace_error + workspace \<times> workspace" where
  "captured gt ctx =
     bindE (load_workspace gt (ca_kind (px_parent ctx)) (ca_code (px_parent ctx))) (\<lambda>parent.
     bindE (capture_child gt parent (px_workdir ctx)) (\<lambda>child. Inr (parent, child)))"

definition check_proposal ::
  "tools \<Rightarrow> (workspace_error \<Rightarrow> string) \<Rightarrow> ('w \<Rightarrow> real \<times> 'w) \<Rightarrow> 'w validator list \<Rightarrow> preflight_context \<Rightarrow> 'w
     \<Rightarrow> (workspace option \<times> preflight_report) \<times> 'w" where
  "check_proposal gt show_ws clock vs ctx w =
     (let (started, w1) = clock w; (stopped, w2) = clock w1; elapsed = max 0 (stopped - started) in
      case captured gt ctx of
        Inl e \<Rightarrow> ((None, workspace_failed ''workspace-invalid'' (show_ws e) True elapsed), w2)
      | Inr (parent, child) \<Rightarrow>
          if serialize gt child = serialize gt parent
          then ((None, workspace_failed ''no-changes'' ''No changes were made to this workspace'' True elapsed), w2)
          else let (task, w3) = run_pipeline clock vs ctx w2;
                   rep = \<lparr>rs_stage = workspace_stage, rs_issues = [], rs_elapsed = elapsed\<rparr> # task in
               ((if report_ok task then Some child else None, rep), w3))"

text \<open>
  The gate of the loop. What a temporary directory holds after \<open>materialize\<close> are text files (and the
  entries of git, which no reader looks at). An exception of any kind is a failed report.
\<close>

definition text_dir :: "files \<Rightarrow> (string \<times> node) list" where
  "text_dir fs = map (\<lambda>(p, t). (p, TextNode t)) fs"

definition run_admission ::
  "tools \<Rightarrow> (workspace_error \<Rightarrow> string) \<Rightarrow> ('w \<Rightarrow> real \<times> 'w) \<Rightarrow> 'w validator list option \<Rightarrow> candidate \<Rightarrow> string
     \<Rightarrow> workspace \<Rightarrow> bool \<Rightarrow> 'w \<Rightarrow> (workspace option \<times> preflight_report option) \<times> 'w" where
  "run_admission gt show_ws clock pipeline parent operator child require_change w =
     (case pipeline of
        None \<Rightarrow> ((Some child, None), w)
      | Some vs \<Rightarrow>
          (case materialize gt child of
             Inl e \<Rightarrow> ((None, Some (workspace_failed ''materialize-error'' (''WorkspaceError: '' @ show_ws e) False 0)), w)
           | Inr fs \<Rightarrow>
               let ctx = \<lparr>px_parent = parent, px_operator = operator, px_workdir = text_dir fs\<rparr> in
               if require_change then
                 if workspace_stage \<in> set (map va_name vs)
                 then ((None, Some (workspace_failed ''materialize-error''
                         ''ValueError: 'workspace' reserved for ProposalPreflight'' False 0)), w)
                 else let ((checked, rep), w1) = check_proposal gt show_ws clock vs ctx w in ((checked, Some rep), w1)
               else let (rep, w1) = run_pipeline clock vs ctx w in
                    ((if report_ok rep then Some child else None, Some rep), w1)))"

section \<open>The gate fails closed\<close>

lemma report_ok_iff: "report_ok rep \<longleftrightarrow> list_all result_ok rep"
  by (simp add: report_ok_def report_issues_def list_all_iff result_ok_def)

text \<open>A validator accepted when it answered, under its own name, without an issue.\<close>

definition accepted_by :: "'w validator \<Rightarrow> preflight_context \<Rightarrow> bool" where
  "accepted_by v ctx \<longleftrightarrow> (\<exists>w r w'. va_validate v ctx w = (Inr r, w') \<and> rs_stage r = va_name v \<and> rs_issues r = [])"

lemma run_validator_stage: "rs_stage (fst (run_validator clock v ctx w)) = va_name v"
  by (simp add: run_validator_def Let_def validator_error_def split: prod.splits sum.splits)

lemma run_validator_ok: "result_ok (fst (run_validator clock v ctx w)) \<Longrightarrow> accepted_by v ctx"
  by (auto simp: run_validator_def Let_def validator_error_def result_ok_def accepted_by_def
      split: prod.splits sum.splits if_splits)

lemma run_pipeline_stages:
  "run_pipeline clock vs ctx w = (rep, w') \<Longrightarrow>
     prefix (map rs_stage rep) (map va_name vs) \<and> list_all result_ok (butlast rep)
     \<and> (report_ok rep \<longrightarrow> map rs_stage rep = map va_name vs \<and> list_all (\<lambda>v. accepted_by v ctx) vs)"
proof (induction vs arbitrary: w rep)
  case Nil
  then show ?case by (simp add: report_ok_iff)
next
  case (Cons v vs)
  obtain r w1 where r: "run_validator clock v ctx w = (r, w1)" by force
  have stage: "rs_stage r = va_name v" using run_validator_stage[of clock v ctx w] r by simp
  show ?case
  proof (cases "result_ok r")
    case False
    then have "rep = [r]" using Cons.prems r by simp
    with False stage show ?thesis by (simp add: report_ok_iff)
  next
    case True
    have acc: "accepted_by v ctx" using run_validator_ok[of clock v ctx w] r True by simp
    obtain rs w2 where rs: "run_pipeline clock vs ctx w1 = (rs, w2)" by force
    have rep: "rep = r # rs" and w2: "w2 = w'" using Cons.prems r True rs by simp_all
    note ih = Cons.IH[OF rs[unfolded w2]]
    show ?thesis
      unfolding rep using ih True acc stage
      by (cases "rs = []") (auto simp: report_ok_iff)
  qed
qed

text \<open>
  C37: The admission gate fails closed. A proposal is let through exactly when its report has no issue;
  then every validator of the pipeline was run on the files of the child, in order, and answered under
  its own name without an issue, and a child that had to change something differs from its parent. An
  exception, a wrong answer or an unusable workspace is a report with an issue, and nothing after the
  first failure is run.
\<close>

theorem admission_fails_closed:
  assumes "run_admission gt show_ws clock (Some vs) parent op child require_change w = ((admitted, Some rep), w')"
  shows "(admitted \<noteq> None \<longleftrightarrow> report_ok rep) \<and> list_all result_ok (butlast rep) \<and>
    (\<forall>ws. admitted = Some ws \<longrightarrow>
       (\<exists>fs. materialize gt child = Inr fs \<and>
          list_all (\<lambda>v. accepted_by v \<lparr>px_parent = parent, px_operator = op, px_workdir = text_dir fs\<rparr>) vs)
       \<and> map rs_stage rep = (if require_change then [workspace_stage] else []) @ map va_name vs
       \<and> (if require_change then \<exists>old. load_workspace gt (ca_kind parent) (ca_code parent) = Inr old
              \<and> serialize gt ws \<noteq> serialize gt old
          else ws = child))"
proof (cases "materialize gt child")
  case (Inl e)
  with assms have "admitted = None" "rep = workspace_failed ''materialize-error'' (''WorkspaceError: '' @ show_ws e) False 0"
    by (auto simp: run_admission_def)
  then show ?thesis by (simp add: workspace_failed_def report_ok_def report_issues_def)
next
  case (Inr fs)
  define ctx where "ctx = \<lparr>px_parent = parent, px_operator = op, px_workdir = text_dir fs\<rparr>"
  note fs = Inr
  show ?thesis
  proof (cases require_change)
    case False
    obtain rep1 w1 where run: "run_pipeline clock vs ctx w = (rep1, w1)" by force
    with assms Inr False have "admitted = (if report_ok rep then Some child else None)" "rep = rep1"
      by (auto simp: run_admission_def ctx_def Let_def)
    with run_pipeline_stages[OF run] False fs show ?thesis by (auto simp: ctx_def)
  next
    case True
    show ?thesis
    proof (cases "workspace_stage \<in> set (map va_name vs)")
      case reserved: True
      with assms Inr True have "admitted = None"
        "rep = workspace_failed ''materialize-error'' ''ValueError: 'workspace' reserved for ProposalPreflight'' False 0"
        by (auto simp: run_admission_def)
      then show ?thesis by (simp add: workspace_failed_def report_ok_def report_issues_def)
    next
      case False
      have chk: "check_proposal gt show_ws clock vs ctx w = ((admitted, rep), w')"
        using assms Inr True False by (auto simp: run_admission_def ctx_def[symmetric] Let_def split: prod.splits)
      obtain t1 w1 t2 w2 where clk: "clock w = (t1, w1)" "clock w1 = (t2, w2)" by force
      show ?thesis
      proof (cases "captured gt ctx")
        case (Inl e)
        with chk clk have "admitted = None" "rep = workspace_failed ''workspace-invalid'' (show_ws e) True (max 0 (t2 - t1))"
          by (auto simp: check_proposal_def)
        then show ?thesis by (simp add: workspace_failed_def report_ok_def report_issues_def)
      next
        case (Inr pc)
        obtain old new where pc: "pc = (old, new)" by force
        then have old: "load_workspace gt (ca_kind parent) (ca_code parent) = Inr old"
          using Inr by (auto simp: captured_def ctx_def bindE_Inr_iff)
        obtain task w3 where run: "run_pipeline clock vs ctx w2 = (task, w3)" by force
        show ?thesis
        proof (cases "serialize gt new = serialize gt old")
          case True
          with chk clk Inr pc have "admitted = None"
            "rep = workspace_failed ''no-changes'' ''No changes were made to this workspace'' True (max 0 (t2 - t1))"
            by (auto simp: check_proposal_def)
          then show ?thesis by (simp add: workspace_failed_def report_ok_def report_issues_def)
        next
          case changed: False
          with chk clk Inr pc run have "admitted = (if report_ok task then Some new else None)"
            "rep = \<lparr>rs_stage = workspace_stage, rs_issues = [], rs_elapsed = max 0 (t2 - t1)\<rparr> # task"
            by (auto simp: check_proposal_def Let_def)
          with run_pipeline_stages[OF run] True fs old changed show ?thesis
            by (cases "task = []") (auto simp: report_ok_iff ctx_def, auto simp: result_ok_def)
        qed
      qed
    qed
  qed
qed

definition still_clock :: "unit \<Rightarrow> real \<times> unit" where
  "still_clock u = (0, ())"

definition nodding :: "unit validator" where
  "nodding = \<lparr>va_name = ''syntax'', va_validate = (\<lambda>ctx w. (Inr \<lparr>rs_stage = ''syntax'', rs_issues = [], rs_elapsed = 0\<rparr>, w))\<rparr>"

theorem admission_fails_closed_witness:
  "\<exists>rep w'. run_admission sample_tools (\<lambda>_. []) still_clock (Some [nodding]) (sample_candidate ''p'' 1 0 1) ''revise''
      (FileWorkspace ''return'' ''main.py'') True () = ((Some (FileWorkspace ''return'' ''main.py''), Some rep), w') \<and> report_ok rep"
proof -
  define res where "res = run_admission sample_tools (\<lambda>_. []) still_clock (Some [nodding]) (sample_candidate ''p'' 1 0 1) ''revise''
      (FileWorkspace ''return'' ''main.py'') True ()"
  have "fst (fst res) = Some (FileWorkspace ''return'' ''main.py'')" "snd (fst res) \<noteq> None"
    by (simp_all add: res_def run_admission_def check_proposal_def captured_def still_clock_def Let_def
        run_validator_def nodding_def result_ok_def workspace_stage_def sample_candidate_def load_workspace_def
        text_dir_def read_text_tree_def hidden_path_def parts_of_def report_ok_def report_issues_def)
  then obtain rep w' where r: "run_admission sample_tools (\<lambda>_. []) still_clock (Some [nodding]) (sample_candidate ''p'' 1 0 1) ''revise''
      (FileWorkspace ''return'' ''main.py'') True () = ((Some (FileWorkspace ''return'' ''main.py''), Some rep), w')"
    unfolding res_def by (metis option.exhaust prod.collapse)
  from admission_fails_closed[OF r] r show ?thesis by blast
qed

end
