(* ===== verification/SearchParts.thy ===== *)
theory SearchParts
  imports Preflight Islands Selection PopulationSteps
begin

text \<open>
  What the evolution loop (\<open>SearchLoop\<close> of \<open>core/loop.py\<close>) works on: its report and history, the plans and
  proposals it passes around (\<open>core/proposer.py\<close>, \<open>core/interfaces.py\<close>), the checkpoint on disk, and the
  parts it is built from. A part is a function of the outside world \<open>'w\<close>, in which the random generator,
  the clock, the model, the graders, the budget, the observers and the metric log live; it answers or
  raises, and leaves another world. Calls that the code overlaps consult the world one after the other,
  in the order of their plans.
\<close>

section \<open>Errors\<close>

datatype loop_error =
  StoreFault population_error
| WorkspaceFault workspace_error
| BillingError string
| InfraError string
| CheckpointError string
| OtherError string

section \<open>Report and history\<close>

datatype history_entry =
  ProposalFailed int string string "string option" "string option" "string option" int real
| PreflightFailed int string string string "string option" "preflight_issue list"
| Skipped int
| Dropped int string string
| Graded int bool string string real "string option"
| Revived int island_restart

record search_report =
  rr_generations :: int
  rr_evaluations :: int
  rr_failed :: int
  rr_novelty :: int
  rr_best_id :: "string option"
  rr_best_fitness :: "real option"
  rr_llm_cost :: real
  rr_eval_cost :: py_float
  rr_stopped :: string
  rr_history :: "history_entry list"

definition new_report :: search_report where
  "new_report = \<lparr>rr_generations = 0, rr_evaluations = 0, rr_failed = 0, rr_novelty = 0, rr_best_id = None,
     rr_best_fitness = None, rr_llm_cost = 0, rr_eval_cost = Fin 0, rr_stopped = ''completed'', rr_history = []\<rparr>"

fun plus_float :: "py_float \<Rightarrow> py_float \<Rightarrow> py_float" where
  "plus_float (Fin x) (Fin y) = Fin (x + y)"
| "plus_float NaN _ = NaN"
| "plus_float _ NaN = NaN"
| "plus_float PosInf NegInf = NaN"
| "plus_float NegInf PosInf = NaN"
| "plus_float PosInf _ = PosInf"
| "plus_float _ PosInf = PosInf"
| "plus_float NegInf _ = NegInf"
| "plus_float _ NegInf = NegInf"

section \<open>Plans and proposals\<close>

record merge_plan =
  mp_base :: candidate
  mp_donors :: json
  mp_title :: string
  mp_summary :: string
  mp_audit :: "(string \<times> json) list"

record proposal_plan =
  pl_lane :: string
  pl_island :: island_view
  pl_parent :: candidate
  pl_operator :: string
  pl_inspirations :: inspiration_draw
  pl_system :: string
  pl_user :: string
  pl_merge :: "merge_plan option"

text \<open>The code of a proposal is \<open>None\<close> where the program passes something that is not a text.\<close>

record proposal =
  pp_code :: "string option"
  pp_title :: string
  pp_summary :: string
  pp_model :: string
  pp_workspace :: "workspace option"
  pp_metadata :: "(string \<times> json) list"

record propose_result =
  pz_proposal :: "proposal option"
  pz_cost :: real
  pz_attempts :: int
  pz_reason :: "string option"
  pz_trace :: "string option"

record mutation_context =
  mc_parent :: candidate
  mc_inspirations :: inspiration_draw
  mc_operator :: string
  mc_generation :: int
  mc_failed :: "(string \<times> real) list"

record rejection_event =
  rj_kind :: string
  rj_generation :: int
  rj_operator :: string
  rj_parent :: candidate
  rj_code :: "string option"
  rj_workspace :: "workspace option"
  rj_title :: string
  rj_reason :: string
  rj_similarity :: real
  rj_similar :: "string option"

definition plain_rejection :: "string \<Rightarrow> int \<Rightarrow> string \<Rightarrow> candidate \<Rightarrow> rejection_event" where
  "plain_rejection kind generation operator parent =
     \<lparr>rj_kind = kind, rj_generation = generation, rj_operator = operator, rj_parent = parent, rj_code = None,
      rj_workspace = None, rj_title = [], rj_reason = [], rj_similarity = 0, rj_similar = None\<rparr>"

record gate_verdict =
  gv_accepted :: bool
  gv_embedding :: "real list option"
  gv_similarity :: real
  gv_similar :: "string option"
  gv_judged :: bool

section \<open>Configuration, parts, state\<close>

record search_config =
  sc_generations :: int
  sc_target :: "real option"
  sc_operators :: "string list"
  sc_operator_probs :: "real list"
  sc_novelty_attempts :: int
  sc_max_infra :: int
  sc_batch :: int
  sc_concurrency :: int
  sc_repair :: bool
  sc_repair_probability :: real

type_synonym migration_draws = "(int \<Rightarrow> nat \<Rightarrow> nat \<Rightarrow> nat list) \<times> (int \<Rightarrow> nat \<Rightarrow> int list \<Rightarrow> int)"

type_synonym seed_draws = "(int \<Rightarrow> real) \<times> (int \<Rightarrow> int) \<times> (int \<Rightarrow> string)"

type_synonym ('w, 'a) part = "'w \<Rightarrow> (loop_error + 'a) \<times> 'w"

record ('w, 'c) parts =
  pt_cfg :: search_config
  pt_islands :: int
  pt_tools :: tools
  pt_show_ws :: "workspace_error \<Rightarrow> string"
  pt_monotonic :: "'w \<Rightarrow> real \<times> 'w"
  pt_time :: "'w \<Rightarrow> real \<times> 'w"
  pt_new_id :: "'w \<Rightarrow> string \<times> 'w"
  pt_random :: "'w \<Rightarrow> real \<times> 'w"
  pt_choice :: "real list \<Rightarrow> 'w \<Rightarrow> nat \<times> 'w"
  pt_randint :: "'w \<Rightarrow> (int \<Rightarrow> int) \<times> 'w"
  pt_migration :: "'w \<Rightarrow> migration_draws \<times> 'w"
  pt_seeding :: "'w \<Rightarrow> seed_draws \<times> 'w"
  pt_stop :: "'w \<Rightarrow> bool"
  pt_charge :: "py_float \<Rightarrow> ('w, unit) part"
  pt_hybrid :: "(int \<Rightarrow> population \<Rightarrow> ('w, string) part) option"
  pt_merge :: "(island_view \<Rightarrow> ('w, merge_plan option) part) option"
  pt_parent :: "island_view \<Rightarrow> ('w, candidate option) part"
  pt_inspire :: "candidate \<Rightarrow> population \<Rightarrow> ('w, inspiration_draw) part"
  pt_operator :: "(bool \<Rightarrow> ('w, string) part) option"
  pt_build :: "string \<Rightarrow> mutation_context \<Rightarrow> ('w, string \<times> string) part"
  pt_build_repair :: "string \<Rightarrow> candidate \<Rightarrow> ('w, string \<times> string) part"
  pt_propose :: "string \<Rightarrow> string \<Rightarrow> candidate \<Rightarrow> string \<Rightarrow> string \<Rightarrow> ('w, propose_result) part"
  pt_rejected :: "rejection_event \<Rightarrow> ('w, unit) part"
  pt_pipeline :: "'w validator list option"
  pt_novelty :: "(workspace \<Rightarrow> string option \<Rightarrow> island_view \<Rightarrow> ('w, gate_verdict) part) option"
  pt_grade :: "candidate \<Rightarrow> 'w \<Rightarrow> (candidate \<times> (loop_error + eval_report)) \<times> 'w"
  pt_observe :: "candidate \<Rightarrow> population \<Rightarrow> ('w, candidate) part"
  pt_settle :: "string \<Rightarrow> real \<Rightarrow> 'w \<Rightarrow> 'w"
  pt_log :: "(int \<Rightarrow> json \<Rightarrow> string \<Rightarrow> ('w, unit) part) option"
  pt_revive :: "(int \<Rightarrow> int \<Rightarrow> population \<Rightarrow> 'w \<Rightarrow> (population \<times> (loop_error + island_restart list)) \<times> 'w) option"
  pt_snapshot :: "'w \<Rightarrow> 'c"
  pt_restore :: "'c \<Rightarrow> 'w \<Rightarrow> (loop_error + unit) \<times> 'w"
  pt_fingerprint :: string
  pt_keep_population :: bool

record 'c checkpoint =
  ck_schema :: int
  ck_fingerprint :: string
  ck_generation :: int
  ck_report :: search_report
  ck_state :: 'c

record ('w, 'c) loop =
  lp_store :: population
  lp_report :: search_report
  lp_world :: 'w
  lp_disk :: "'c checkpoint option"

section \<open>Runs\<close>

text \<open>Code that may raise, over the state of the loop: what it did before it raised stays done.\<close>

type_synonym ('w, 'c, 'a) act = "('w, 'c) loop \<Rightarrow> ('w, 'c) loop \<times> (loop_error + 'a)"

definition lret :: "'a \<Rightarrow> ('w, 'c, 'a) act" where
  "lret a s = (s, Inr a)"

definition lraise :: "loop_error \<Rightarrow> ('w, 'c, 'a) act" where
  "lraise e s = (s, Inl e)"

definition lbind :: "('w, 'c, 'a) act \<Rightarrow> ('a \<Rightarrow> ('w, 'c, 'b) act) \<Rightarrow> ('w, 'c, 'b) act" where
  "lbind m f s = (case m s of (s1, Inl e) \<Rightarrow> (s1, Inl e) | (s1, Inr a) \<Rightarrow> f a s1)"

definition lget :: "(('w, 'c) loop \<Rightarrow> 'a) \<Rightarrow> ('w, 'c, 'a) act" where
  "lget q s = (s, Inr (q s))"

definition lworld :: "('w, 'a) part \<Rightarrow> ('w, 'c, 'a) act" where
  "lworld f s = (case f (lp_world s) of (r, w) \<Rightarrow> (s\<lparr>lp_world := w\<rparr>, r))"

definition ldraw :: "('w \<Rightarrow> 'a \<times> 'w) \<Rightarrow> ('w, 'c, 'a) act" where
  "ldraw f s = (case f (lp_world s) of (a, w) \<Rightarrow> (s\<lparr>lp_world := w\<rparr>, Inr a))"

definition lreport :: "(search_report \<Rightarrow> search_report) \<Rightarrow> ('w, 'c, unit) act" where
  "lreport f s = (s\<lparr>lp_report := f (lp_report s)\<rparr>, Inr ())"

definition lwrite :: "(population \<Rightarrow> population_error + population \<times> 'a) \<Rightarrow> ('w, 'c, 'a) act" where
  "lwrite f s = (case f (lp_store s) of Inl e \<Rightarrow> (s, Inl (StoreFault e)) | Inr (p, a) \<Rightarrow> (s\<lparr>lp_store := p\<rparr>, Inr a))"

definition lmark :: "(population \<Rightarrow> population_error + population) \<Rightarrow> ('w, 'c, unit) act" where
  "lmark f = lwrite (\<lambda>p. bindE (f p) (\<lambda>p'. Inr (p', ())))"

definition lworkspace :: "workspace_error + 'a \<Rightarrow> ('w, 'c, 'a) act" where
  "lworkspace r s = (s, case r of Inl e \<Rightarrow> Inl (WorkspaceFault e) | Inr a \<Rightarrow> Inr a)"

text \<open>\<open>except\<close> for one kind of error, and the outcome of a call as a value.\<close>

definition lcatch :: "(loop_error \<Rightarrow> ('w, 'c, 'a) act option) \<Rightarrow> ('w, 'c, 'a) act \<Rightarrow> ('w, 'c, 'a) act" where
  "lcatch handler m s =
     (case m s of (s1, Inr a) \<Rightarrow> (s1, Inr a)
      | (s1, Inl e) \<Rightarrow> (case handler e of None \<Rightarrow> (s1, Inl e) | Some h \<Rightarrow> h s1))"

definition ltry :: "('w, 'c, 'a) act \<Rightarrow> ('w, 'c, loop_error + 'a) act" where
  "ltry m s = (case m s of (s1, r) \<Rightarrow> (s1, Inr r))"

fun lmap :: "('a \<Rightarrow> ('w, 'c, 'b) act) \<Rightarrow> 'a list \<Rightarrow> ('w, 'c, 'b list) act" where
  "lmap f [] = lret []"
| "lmap f (x # xs) = lbind (f x) (\<lambda>y. lbind (lmap f xs) (\<lambda>ys. lret (y # ys)))"

fun lfold :: "('a \<Rightarrow> 'b \<Rightarrow> ('w, 'c, 'b) act) \<Rightarrow> 'a list \<Rightarrow> 'b \<Rightarrow> ('w, 'c, 'b) act" where
  "lfold f [] acc = lret acc"
| "lfold f (x # xs) acc = lbind (f x acc) (lfold f xs)"

definition lnote :: "history_entry \<Rightarrow> ('w, 'c, unit) act" where
  "lnote h = lreport (\<lambda>r. r\<lparr>rr_history := rr_history r @ [h]\<rparr>)"

end
