(* ===== verification/SearchLoop.thy ===== *)
theory SearchLoop
  imports SearchParts
begin

text \<open>
  \<open>SearchLoop\<close> of \<open>core/loop.py\<close>: choosing an island, planning a proposal, turning the answer of the
  proposer into a candidate, the serial and the batched generation, seeding, checkpoints and the main
  loop with its reasons to stop. Every method is a run over the state of \<open>SearchParts\<close>, statement by
  statement; log lines, directories and waiting are left out.
\<close>

section \<open>Choosing an island\<close>

definition rotation :: "search_config \<Rightarrow> int \<Rightarrow> int \<Rightarrow> int" where
  "rotation cfg generation slot = generation * max 1 (sc_batch cfg) + slot"

definition island_order :: "search_config \<Rightarrow> int \<Rightarrow> int \<Rightarrow> int \<Rightarrow> int list" where
  "island_order cfg n generation slot = map (\<lambda>i. (rotation cfg generation slot + i) mod n) [0 .. n - 1]"

definition pick_island :: "search_config \<Rightarrow> int \<Rightarrow> int \<Rightarrow> int \<Rightarrow> population \<Rightarrow> island_view option" where
  "pick_island cfg n generation slot p =
     List.find (\<lambda>v. passed_candidates v \<noteq> []) (map (island_view_of p) (island_order cfg n generation slot))"

section \<open>Planning\<close>

definition failed_attempts_shown :: nat where
  "failed_attempts_shown = 12"

definition last_of :: "nat \<Rightarrow> 'a list \<Rightarrow> 'a list" where
  "last_of n xs = drop (length xs - n) xs"

definition failed_attempts :: "candidate \<Rightarrow> population \<Rightarrow> (string \<times> real) list" where
  "failed_attempts parent p =
     last_of failed_attempts_shown
       (map (\<lambda>c. (ca_title c, fitness c - fitness parent))
         (filter (\<lambda>c. ca_operator c \<noteq> ''seed'' \<and> ca_title c \<noteq> [] \<and> \<not> fitness c - fitness parent > 0) (all_candidates p)))"

definition proposal_lane :: "('w, 'c) parts \<Rightarrow> int \<Rightarrow> ('w, 'c, string) act" where
  "proposal_lane pt generation =
     (case pt_hybrid pt of
        None \<Rightarrow> lret ''default''
      | Some select \<Rightarrow> lbind (lget lp_store) (\<lambda>p. lworld (select generation p)))"

text \<open>The fixed draw of an operator; without inspirations a recombination has nothing to combine.\<close>

definition sample_operator :: "('w, 'c) parts \<Rightarrow> bool \<Rightarrow> ('w, 'c, string) act" where
  "sample_operator pt has_inspirations =
     (let ops = sc_operators (pt_cfg pt); probs = sc_operator_probs (pt_cfg pt);
          drop = \<not> has_inspirations \<and> ''recombine'' \<in> set ops;
          kept = (if drop then filter (\<lambda>(o1, p). o1 \<noteq> ''recombine'') (zip ops probs) else []);
          ops1 = (if drop then filter (\<lambda>o1. o1 \<noteq> ''recombine'') ops else ops);
          probs1 = (if drop then map (\<lambda>(o1, p). p / sum_list (map snd kept)) kept else probs) in
      lbind (ldraw (pt_choice pt probs1)) (\<lambda>i. lret (ops1 ! i)))"

definition choose_operator :: "('w, 'c) parts \<Rightarrow> bool \<Rightarrow> ('w, 'c, string) act" where
  "choose_operator pt has_inspirations =
     (case pt_operator pt of
        Some f \<Rightarrow> lworld (f has_inspirations) | None \<Rightarrow> sample_operator pt has_inspirations)"

definition no_inspirations :: inspiration_draw where
  "no_inspirations = \<lparr>id_archive = [], id_top_k = [], id_notes = []\<rparr>"

definition merge_offer :: "('w, 'c) parts \<Rightarrow> string \<Rightarrow> island_view \<Rightarrow> ('w, 'c, proposal_plan option) act" where
  "merge_offer pt lane island =
     (case pt_merge pt of
        None \<Rightarrow> lret None
      | Some planner \<Rightarrow> lbind (lworld (planner island)) (\<lambda>offer.
          case offer of
            None \<Rightarrow> lret None
          | Some m \<Rightarrow> lbind (lmark (note_attempt (ca_id (mp_base m)))) (\<lambda>_.
              lret (Some \<lparr>pl_lane = lane, pl_island = island, pl_parent = mp_base m, pl_operator = ''merge'',
                pl_inspirations = no_inspirations, pl_system = [], pl_user = [], pl_merge = Some m\<rparr>))))"

text \<open>A failed candidate to repair, unless repairs are off or throttled this time.\<close>

definition repair_target :: "('w, 'c) parts \<Rightarrow> ('w, 'c, candidate option) act" where
  "repair_target pt =
     lbind (lget (\<lambda>s. if sc_repair (pt_cfg pt) then latest_failed (lp_store s) else None)) (\<lambda>failed.
     case failed of
       None \<Rightarrow> lret None
     | Some c \<Rightarrow> lbind (ldraw (pt_random pt)) (\<lambda>x.
         lret (if x \<ge> sc_repair_probability (pt_cfg pt) then None else Some c)))"

definition plan_repair :: "('w, 'c) parts \<Rightarrow> string \<Rightarrow> island_view \<Rightarrow> candidate \<Rightarrow> ('w, 'c, proposal_plan option) act" where
  "plan_repair pt lane island failed =
     lbind (lmark (mark_repair_attempted (ca_id failed))) (\<lambda>_.
     lbind (lworld (pt_build_repair pt lane failed)) (\<lambda>(system, user).
       lret (Some \<lparr>pl_lane = lane, pl_island = island, pl_parent = failed, pl_operator = ''repair'',
         pl_inspirations = no_inspirations, pl_system = system, pl_user = user, pl_merge = None\<rparr>)))"

definition plan_mutation :: "('w, 'c) parts \<Rightarrow> int \<Rightarrow> string \<Rightarrow> island_view \<Rightarrow> ('w, 'c, proposal_plan option) act" where
  "plan_mutation pt generation lane island =
     lbind (lworld (pt_parent pt island)) (\<lambda>found.
     case found of
       None \<Rightarrow> lret None
     | Some parent \<Rightarrow>
         lbind (lmark (note_attempt (ca_id parent))) (\<lambda>_.
         lbind (lget lp_store) (\<lambda>p.
         lbind (lworld (pt_inspire pt parent p)) (\<lambda>inspirations.
         lbind (choose_operator pt (id_archive inspirations \<noteq> [] \<or> id_top_k inspirations \<noteq> [])) (\<lambda>operator.
         lbind (lget (\<lambda>s. failed_attempts parent (lp_store s))) (\<lambda>failed.
         lbind (lworld (pt_build pt lane \<lparr>mc_parent = parent, mc_inspirations = inspirations, mc_operator = operator,
                  mc_generation = generation, mc_failed = failed\<rparr>)) (\<lambda>(system, user).
           lret (Some \<lparr>pl_lane = lane, pl_island = island, pl_parent = parent, pl_operator = operator,
             pl_inspirations = inspirations, pl_system = system, pl_user = user, pl_merge = None\<rparr>))))))))"

definition plan_proposal :: "('w, 'c) parts \<Rightarrow> int \<Rightarrow> int \<Rightarrow> ('w, 'c, proposal_plan option) act" where
  "plan_proposal pt generation slot =
     lbind (lget (\<lambda>s. pick_island (pt_cfg pt) (pt_islands pt) generation slot (lp_store s))) (\<lambda>picked.
     case picked of
       None \<Rightarrow> lret None
     | Some island \<Rightarrow>
         lbind (proposal_lane pt generation) (\<lambda>lane.
         lbind (merge_offer pt lane island) (\<lambda>merge.
         case merge of
           Some plan \<Rightarrow> lret (Some plan)
         | None \<Rightarrow> lbind (repair_target pt) (\<lambda>failed.
             case failed of
               Some c \<Rightarrow> plan_repair pt lane island c
             | None \<Rightarrow> plan_mutation pt generation lane island))))"

section \<open>Executing a plan\<close>

text \<open>
  A merge needs no model call: the genome is the base's. Its code is given as the bound method
  \<open>base.workspace.main_text\<close>, which is no text.
\<close>

definition execute_plan :: "('w, 'c) parts \<Rightarrow> proposal_plan \<Rightarrow> ('w, 'c, propose_result) act" where
  "execute_plan pt plan =
     (case pl_merge plan of
        None \<Rightarrow> lworld (pt_propose pt (pl_lane plan) (pl_operator plan) (pl_parent plan) (pl_system plan) (pl_user plan))
      | Some m \<Rightarrow>
          lbind (lworkspace (load_workspace (pt_tools pt) (ca_kind (mp_base m)) (ca_code (mp_base m)))) (\<lambda>ws.
            lret \<lparr>pz_proposal = Some \<lparr>pp_code = None, pp_title = mp_title m, pp_summary = mp_summary m,
                    pp_model = ''(state-merge)'', pp_workspace = Some ws,
                    pp_metadata = AList.merge [(''state_donors'', mp_donors m)] (mp_audit m)\<rparr>,
                  pz_cost = 0, pz_attempts = 1, pz_reason = None, pz_trace = None\<rparr>))"

section \<open>Absorbing the answer\<close>

definition ancestry_depth :: nat where
  "ancestry_depth = 8"

fun json_truthy :: "json \<Rightarrow> bool" where
  "json_truthy JNull = False"
| "json_truthy (JBool b) = b"
| "json_truthy (JInt n) = (n \<noteq> 0)"
| "json_truthy (JFloat x) = (x \<noteq> Fin 0)"
| "json_truthy (JStr s) = (s \<noteq> [])"
| "json_truthy (JList js) = (js \<noteq> [])"
| "json_truthy (JObj ms) = (ms \<noteq> [])"

text \<open>The elements that unpacking a value yields.\<close>

fun json_elements :: "json \<Rightarrow> loop_error + json list" where
  "json_elements (JList js) = Inr js"
| "json_elements (JStr s) = Inr (map (\<lambda>c. JStr [c]) s)"
| "json_elements (JObj ms) = Inr (map (\<lambda>m. JStr (fst m)) ms)"
| "json_elements _ = Inl (OtherError ''TypeError'')"

definition child_metadata :: "candidate \<Rightarrow> (string \<times> json) list \<Rightarrow> loop_error + (string \<times> json) list" where
  "child_metadata parent metadata =
     (let origin = get_or (ca_metadata parent) ''seed_copy_of'' JNull;
          meta1 = (if json_truthy origin then AList.update ''lineage_parent_id'' origin metadata else metadata);
          lineage_id = (if json_truthy origin then origin else JStr (ca_id parent)) in
      bindE (json_elements (get_or (ca_metadata parent) ''lineage_ancestors'' (JList []))) (\<lambda>older.
        Inr (AList.update ''lineage_ancestors'' (JList (take ancestry_depth (lineage_id # older))) meta1)))"

definition set_default :: "string \<Rightarrow> json \<Rightarrow> (string \<times> json) list \<Rightarrow> (string \<times> json) list" where
  "set_default k v m = (if map_of m k = None then m @ [(k, v)] else m)"

definition reject_failed :: "('w, 'c) parts \<Rightarrow> int \<Rightarrow> proposal_plan \<Rightarrow> propose_result \<Rightarrow> ('w, 'c, candidate option \<times> bool) act" where
  "reject_failed pt generation plan result =
     lbind (lreport (\<lambda>r. r\<lparr>rr_failed := rr_failed r + 1\<rparr>)) (\<lambda>_.
     lbind (lnote (ProposalFailed generation (ca_id (pl_parent plan)) (pl_operator plan)
              (if pt_hybrid pt = None then None else Some (pl_lane plan)) (pz_reason result) (pz_trace result)
              (pz_attempts result) (pz_cost result))) (\<lambda>_.
     lbind (lworld (pt_rejected pt ((plain_rejection ''proposal_failed'' generation (pl_operator plan) (pl_parent plan))
              \<lparr>rj_reason := (case pz_reason result of None \<Rightarrow> [] | Some m \<Rightarrow> m)\<rparr>))) (\<lambda>_.
       lret (None, False))))"

definition preflight_reason :: "preflight_report \<Rightarrow> string" where
  "preflight_reason rep =
     (case report_issues rep of
        [] \<Rightarrow> ''preflight-failed''
      | i # _ \<Rightarrow> is_validator i @ '':'' @ is_code i @ '': '' @ is_message i)"

definition reject_preflight ::
  "('w, 'c) parts \<Rightarrow> int \<Rightarrow> proposal_plan \<Rightarrow> proposal \<Rightarrow> preflight_report \<Rightarrow> ('w, 'c, candidate option \<times> bool) act" where
  "reject_preflight pt generation plan prop1 rep =
     lbind (lreport (\<lambda>r. r\<lparr>rr_failed := rr_failed r + 1\<rparr>)) (\<lambda>_.
     lbind (lnote (PreflightFailed generation (ca_id (pl_parent plan)) (pl_operator plan) (preflight_reason rep)
              (failed_stage rep) (report_issues rep))) (\<lambda>_.
     lbind (lworld (pt_rejected pt ((plain_rejection ''preflight'' generation (pl_operator plan) (pl_parent plan))
              \<lparr>rj_code := pp_code prop1, rj_workspace := pp_workspace prop1, rj_title := pp_title prop1,
               rj_reason := preflight_reason rep\<rparr>))) (\<lambda>_.
       lret (None, True))))"

definition admission_metadata :: "preflight_report option \<Rightarrow> (string \<times> json) list \<Rightarrow> (string \<times> json) list" where
  "admission_metadata rep m =
     (case rep of
        None \<Rightarrow> m
      | Some results \<Rightarrow> AList.update ''admission_preflight''
          (JObj [(''ok'', JBool True), (''stages'', JList (map (\<lambda>r. JStr (rs_stage r)) results)),
                 (''elapsed_s'', JFloat (Fin (report_elapsed results)))]) m)"

text \<open>The novelty gate: \<open>Inl\<close> is a rejection, \<open>Inr\<close> the embedding of what passed.\<close>

definition judge_novelty ::
  "('w, 'c) parts \<Rightarrow> int \<Rightarrow> proposal_plan \<Rightarrow> proposal \<Rightarrow> workspace \<Rightarrow> ('w, 'c, unit + real list option) act" where
  "judge_novelty pt generation plan prop1 ws =
     (case (pt_novelty pt, pl_merge plan) of
        (Some gate, None) \<Rightarrow>
          lbind (lworld (gate ws (pp_code prop1) (pl_island plan))) (\<lambda>verdict.
            if gv_accepted verdict then lret (Inr (gv_embedding verdict))
            else
              lbind (lreport (\<lambda>r. r\<lparr>rr_novelty := rr_novelty r + 1\<rparr>)) (\<lambda>_.
              lbind (lworld (pt_rejected pt ((plain_rejection ''novelty'' generation (pl_operator plan) (pl_parent plan))
                       \<lparr>rj_code := pp_code prop1, rj_workspace := pp_workspace prop1, rj_title := pp_title prop1,
                        rj_similarity := gv_similarity verdict, rj_similar := gv_similar verdict\<rparr>))) (\<lambda>_.
                lret (Inl ()))))
      | _ \<Rightarrow> lret (Inr None))"

definition make_child ::
  "('w, 'c) parts \<Rightarrow> int \<Rightarrow> proposal_plan \<Rightarrow> proposal \<Rightarrow> workspace \<Rightarrow> real list option \<Rightarrow> (string \<times> json) list
     \<Rightarrow> ('w, 'c, candidate) act" where
  "make_child pt generation plan prop1 ws embedding metadata =
     (case child_metadata (pl_parent plan) metadata of
        Inl e \<Rightarrow> lraise e
      | Inr meta \<Rightarrow> lbind (ldraw (pt_new_id pt)) (\<lambda>i.
          lret \<lparr>ca_id = i, ca_code = serialize (pt_tools pt) ws, ca_generation = generation,
            ca_parent = Some (ca_id (pl_parent plan)), ca_island = ca_island (pl_parent plan),
            ca_operator = pl_operator plan, ca_kind = workspace_kind ws, ca_title = pp_title prop1,
            ca_summary = pp_summary prop1, ca_model = pp_model prop1,
            ca_inspirations = map ca_id (all_inspirations (pl_inspirations plan)), ca_report = None,
            ca_embedding = embedding, ca_signature = None, ca_duplicate = False, ca_children = 0,
            ca_archived = False, ca_metadata = meta, ca_timestamp = 0\<rparr>))"

definition child_workspace :: "('w, 'c) parts \<Rightarrow> candidate \<Rightarrow> proposal \<Rightarrow> workspace_error + workspace" where
  "child_workspace pt parent prop1 =
     (case pp_workspace prop1 of
        Some ws \<Rightarrow> Inr ws
      | None \<Rightarrow> bindE (load_workspace (pt_tools pt) (ca_kind parent) (ca_code parent)) (\<lambda>ws.
          with_main_text (pt_tools pt) ws (case pp_code prop1 of None \<Rightarrow> [] | Some t \<Rightarrow> t)))"

definition absorb_answer ::
  "('w, 'c) parts \<Rightarrow> int \<Rightarrow> proposal_plan \<Rightarrow> proposal \<Rightarrow> ('w, 'c, candidate option \<times> bool) act" where
  "absorb_answer pt generation plan prop1 =
     (let meta = (if pt_hybrid pt = None then pp_metadata prop1
                  else set_default ''proposal_mode'' (JStr (pl_lane plan)) (pp_metadata prop1)) in
      lbind (lworkspace (child_workspace pt (pl_parent plan) prop1)) (\<lambda>child.
      lbind (ldraw (run_admission (pt_tools pt) (pt_show_ws pt) (pt_monotonic pt) (pt_pipeline pt) (pl_parent plan)
               (pl_operator plan) child (pl_merge plan = None))) (\<lambda>(admitted, rep).
      case admitted of
        None \<Rightarrow> reject_preflight pt generation plan prop1 (case rep of None \<Rightarrow> [] | Some r \<Rightarrow> r)
      | Some ws \<Rightarrow>
          lbind (judge_novelty pt generation plan prop1 ws) (\<lambda>judged.
          case judged of
            Inl _ \<Rightarrow> lret (None, True)
          | Inr embedding \<Rightarrow>
              lbind (make_child pt generation plan prop1 ws embedding (admission_metadata rep meta)) (\<lambda>c.
                lret (Some c, False))))))"

definition absorb_proposal ::
  "('w, 'c) parts \<Rightarrow> int \<Rightarrow> proposal_plan \<Rightarrow> propose_result \<Rightarrow> ('w, 'c, candidate option \<times> bool) act" where
  "absorb_proposal pt generation plan result =
     lbind (lworld (pt_charge pt (Fin (pz_cost result)))) (\<lambda>_.
     lbind (lreport (\<lambda>r. r\<lparr>rr_llm_cost := rr_llm_cost r + pz_cost result\<rparr>)) (\<lambda>_.
     case pz_proposal result of
       None \<Rightarrow> reject_failed pt generation plan result
     | Some prop1 \<Rightarrow> absorb_answer pt generation plan prop1))"

section \<open>Proposing\<close>

fun propose_attempts :: "('w, 'c) parts \<Rightarrow> int \<Rightarrow> int \<Rightarrow> nat \<Rightarrow> ('w, 'c, candidate option) act" where
  "propose_attempts pt generation slot 0 = lret None"
| "propose_attempts pt generation slot (Suc n) =
     lbind (plan_proposal pt generation slot) (\<lambda>planned.
     case planned of
       None \<Rightarrow> lret None
     | Some plan \<Rightarrow>
         lbind (execute_plan pt plan) (\<lambda>result.
         lbind (absorb_proposal pt generation plan result) (\<lambda>(found, retry).
         case found of
           Some c \<Rightarrow> lret (Some c)
         | None \<Rightarrow> if retry then propose_attempts pt generation slot n else lret None)))"

definition propose_one :: "('w, 'c) parts \<Rightarrow> int \<Rightarrow> int \<Rightarrow> ('w, 'c, candidate option) act" where
  "propose_one pt generation slot = propose_attempts pt generation slot (nat (sc_novelty_attempts (pt_cfg pt)))"

fun plan_slots :: "('w, 'c) parts \<Rightarrow> int \<Rightarrow> int list \<Rightarrow> ('w, 'c, proposal_plan list) act" where
  "plan_slots pt generation [] = lret []"
| "plan_slots pt generation (slot # slots) =
     lbind (plan_proposal pt generation slot) (\<lambda>planned.
     case planned of
       None \<Rightarrow> lret []
     | Some plan \<Rightarrow> lbind (plan_slots pt generation slots) (\<lambda>plans. lret (plan # plans)))"

definition present :: "'a option list \<Rightarrow> 'a list" where
  "present xs = concat (map (\<lambda>x. case x of None \<Rightarrow> [] | Some y \<Rightarrow> [y]) xs)"

text \<open>Absorb one answer of an overlapped round; a rejected one is proposed again, from slot 0.\<close>

definition absorb_or_retry :: "('w, 'c) parts \<Rightarrow> int \<Rightarrow> proposal_plan \<times> propose_result \<Rightarrow> ('w, 'c, candidate option) act" where
  "absorb_or_retry pt generation pr =
     lbind (absorb_proposal pt generation (fst pr) (snd pr)) (\<lambda>(found, retry).
       case found of
         Some c \<Rightarrow> lret (Some c)
       | None \<Rightarrow> if retry then propose_one pt generation 0 else lret None)"

text \<open>The results of calls that all ran: the first that raised raises.\<close>

definition all_results :: "(loop_error + 'a) list \<Rightarrow> ('w, 'c, 'a list) act" where
  "all_results rs s = (s, mapE id rs)"

definition propose_many :: "('w, 'c) parts \<Rightarrow> int \<Rightarrow> int \<Rightarrow> ('w, 'c, candidate list) act" where
  "propose_many pt generation n =
     (if max 1 (min (sc_concurrency (pt_cfg pt)) n) = 1
      then lbind (lmap (propose_one pt generation) [0 .. n - 1]) (\<lambda>found. lret (present found))
      else lbind (plan_slots pt generation [0 .. n - 1]) (\<lambda>plans.
        if plans = [] then lret []
        else lbind (lmap (\<lambda>plan. ltry (execute_plan pt plan)) plans) (\<lambda>answers.
             lbind (all_results answers) (\<lambda>results.
             lbind (lmap (absorb_or_retry pt generation) (zip plans results)) (\<lambda>found. lret (present found))))))"

section \<open>Grading and recording\<close>

text \<open>\<open>_grade\<close> without its accounting: what the grader leaves of the candidate, and the report.\<close>

definition call_grader :: "('w, 'c) parts \<Rightarrow> candidate \<Rightarrow> ('w, 'c, candidate \<times> (loop_error + eval_report)) act" where
  "call_grader pt c = ldraw (pt_grade pt c)"

definition account_report :: "('w, 'c) parts \<Rightarrow> eval_report \<Rightarrow> ('w, 'c, unit) act" where
  "account_report pt result =
     lbind (lworld (pt_charge pt (er_eval_cost_usd result))) (\<lambda>_.
       lreport (\<lambda>r. r\<lparr>rr_eval_cost := plus_float (rr_eval_cost r) (er_eval_cost_usd result),
                     rr_evaluations := rr_evaluations r + 1\<rparr>))"

definition metrics_json :: "candidate \<Rightarrow> eval_report \<Rightarrow> search_report \<Rightarrow> candidate option \<Rightarrow> json" where
  "metrics_json c rep r best = JObj
     [(''sys'', JObj [(''fitness'', JFloat (Fin (er_fitness rep))), (''passed'', JBool (passed c)),
        (''operator'', JStr (ca_operator c)),
        (''best_fitness'', JFloat (Fin (case best of None \<Rightarrow> er_fitness rep | Some b \<Rightarrow> fitness b))),
        (''llm_cost_total'', JFloat (Fin (rr_llm_cost r))), (''eval_cost_total'', JFloat (rr_eval_cost r)),
        (''novelty_rejections_total'', JInt (rr_novelty r))]),
      (''eval'', JObj (AList.merge (er_visible_metrics rep) (er_hidden_metrics rep)))]"

definition log_metrics :: "('w, 'c) parts \<Rightarrow> int \<Rightarrow> candidate \<Rightarrow> ('w, 'c, unit) act" where
  "log_metrics pt generation c =
     (case (pt_log pt, ca_report c) of
        (Some logger, Some rep) \<Rightarrow>
          lbind (lget (\<lambda>s. metrics_json c rep (lp_report s) (best_candidate (lp_store s)))) (\<lambda>metrics.
            lworld (logger generation metrics (ca_id c)))
      | _ \<Rightarrow> lret ())"

definition observe :: "('w, 'c) parts \<Rightarrow> candidate \<Rightarrow> ('w, 'c, candidate) act" where
  "observe pt c = lbind (lget lp_store) (\<lambda>p. lworld (pt_observe pt c p))"

definition insert_now :: "('w, 'c) parts \<Rightarrow> candidate \<Rightarrow> ('w, 'c, candidate) act" where
  "insert_now pt c =
     lbind (ldraw (pt_randint pt)) (\<lambda>draw.
     lbind (ldraw (pt_time pt)) (\<lambda>now. lwrite (insert_candidate now draw c)))"

definition settle_router :: "('w, 'c) parts \<Rightarrow> candidate option \<Rightarrow> candidate \<Rightarrow> ('w, 'c, unit) act" where
  "settle_router pt parent c =
     lworld (\<lambda>w. (Inr (), pt_settle pt (ca_model c)
       (case parent of None \<Rightarrow> 0 | Some q \<Rightarrow> if ca_report q = None then 0 else fitness c - fitness q) w))"

definition parent_row :: "candidate \<Rightarrow> population \<Rightarrow> candidate option" where
  "parent_row c p =
     (case ca_parent c of None \<Rightarrow> None | Some i \<Rightarrow> if i = [] then None else get_candidate p i)"

definition graded_entry :: "int \<Rightarrow> candidate \<Rightarrow> history_entry" where
  "graded_entry generation c = Graded generation (passed c) (ca_id c) (ca_operator c) (fitness c) (ca_parent c)"

definition migrate_now :: "('w, 'c) parts \<Rightarrow> int \<Rightarrow> ('w, 'c, unit) act" where
  "migrate_now pt generation =
     lbind (ldraw (pt_migration pt)) (\<lambda>(draws, target). lmark (migrate draws target generation))"

definition revive_islands :: "('w, 'c) parts \<Rightarrow> int \<Rightarrow> ('w, 'c, unit) act" where
  "revive_islands pt generation =
     (case pt_revive pt of
        None \<Rightarrow> lret ()
      | Some revive \<Rightarrow>
          lbind (\<lambda>s. case revive generation (pt_islands pt) (lp_store s) (lp_world s) of
                   ((p, r), w) \<Rightarrow> (s\<lparr>lp_store := p, lp_world := w\<rparr>, r)) (\<lambda>events.
          lbind (lmap (\<lambda>e. lnote (Revived generation e)) events) (\<lambda>_. lret ())))"

definition update_best :: "('w, 'c, unit) act" where
  "update_best =
     lbind (lget (\<lambda>s. best_candidate (lp_store s))) (\<lambda>best.
     case best of
       None \<Rightarrow> lret ()
     | Some b \<Rightarrow> lreport (\<lambda>r. r\<lparr>rr_best_id := Some (ca_id b), rr_best_fitness := Some (fitness b)\<rparr>))"

section \<open>Checkpoints\<close>

definition checkpoint_schema :: int where
  "checkpoint_schema = 1"

definition save_checkpoint :: "('w, 'c) parts \<Rightarrow> int \<Rightarrow> ('w, 'c, unit) act" where
  "save_checkpoint pt generation s =
     (s\<lparr>lp_disk := Some \<lparr>ck_schema = checkpoint_schema, ck_fingerprint = pt_fingerprint pt,
        ck_generation = generation, ck_report = lp_report s, ck_state = pt_snapshot pt (lp_world s)\<rparr>\<rparr>, Inr ())"

definition restore_checkpoint :: "('w, 'c) parts \<Rightarrow> 'c checkpoint \<Rightarrow> ('w, 'c, search_report \<times> int) act" where
  "restore_checkpoint pt ck =
     (if ck_schema ck \<noteq> checkpoint_schema then lraise (CheckpointError ''schema'')
      else if ck_fingerprint ck \<noteq> pt_fingerprint pt then lraise (CheckpointError ''configuration'')
      else lbind (lget (\<lambda>s. count_candidates (lp_store s))) (\<lambda>n.
        if n = 0 then lraise (CheckpointError ''population'')
        else lbind (lworld (pt_restore pt (ck_state ck))) (\<lambda>_. lret (ck_report ck, ck_generation ck + 1))))"

definition target_reached :: "('w, 'c) parts \<Rightarrow> ('w, 'c) loop \<Rightarrow> bool" where
  "target_reached pt s =
     (case sc_target (pt_cfg pt) of
        None \<Rightarrow> False
      | Some t \<Rightarrow> (case best_candidate (lp_store s) of None \<Rightarrow> False | Some b \<Rightarrow> fitness b \<ge> t))"

section \<open>Seeding\<close>

fun grade_seed :: "('w, 'c) parts \<Rightarrow> nat \<Rightarrow> candidate \<Rightarrow> ('w, 'c, candidate \<times> eval_report) act" where
  "grade_seed pt 0 c = lraise (OtherError ''unreachable'')"
| "grade_seed pt (Suc n) c =
     lbind (call_grader pt c) (\<lambda>(c1, result).
     case result of
       Inr rep \<Rightarrow> lbind (account_report pt rep) (\<lambda>_. lret (c1, rep))
     | Inl (InfraError m) \<Rightarrow> if n = 0 then lraise (InfraError m) else grade_seed pt n c1
     | Inl e \<Rightarrow> lraise e)"

definition seed_candidate :: "string \<Rightarrow> string \<Rightarrow> string \<Rightarrow> int \<Rightarrow> string \<Rightarrow> candidate" where
  "seed_candidate i code kind island title =
     \<lparr>ca_id = i, ca_code = code, ca_generation = 0, ca_parent = None, ca_island = island, ca_operator = ''seed'',
      ca_kind = kind, ca_title = title, ca_summary = [], ca_model = [], ca_inspirations = [], ca_report = None,
      ca_embedding = None, ca_signature = None, ca_duplicate = False, ca_children = 0, ca_archived = False,
      ca_metadata = [], ca_timestamp = 0\<rparr>"

definition plant_seed :: "('w, 'c) parts \<Rightarrow> string \<Rightarrow> string \<Rightarrow> int \<Rightarrow> string \<Rightarrow> ('w, 'c, candidate) act" where
  "plant_seed pt code kind island title =
     lbind (ldraw (pt_new_id pt)) (\<lambda>i.
     lbind (grade_seed pt (nat (max 1 (sc_max_infra (pt_cfg pt)))) (seed_candidate i code kind island title)) (\<lambda>(c, rep).
     lbind (observe pt (c\<lparr>ca_report := Some rep\<rparr>)) (\<lambda>c1.
     lbind (insert_now pt c1) (\<lambda>c2.
     lbind (log_metrics pt 0 c2) (\<lambda>_. lret c2)))))"

datatype seed_entry = SeedText string | SeedWorkspace workspace

text \<open>The code and kind of an extra seed; a text is lifted into the workspace of the first one.\<close>

fun seed_genome :: "('w, 'c) parts \<Rightarrow> workspace option \<Rightarrow> seed_entry \<Rightarrow> workspace_error + string \<times> string" where
  "seed_genome pt initial (SeedWorkspace ws) = Inr (serialize (pt_tools pt) ws, workspace_kind ws)"
| "seed_genome pt initial (SeedText t) =
     (case initial of
        None \<Rightarrow> Inr (t, ''file'')
      | Some ws \<Rightarrow>
          if workspace_kind ws = ''file'' then Inr (t, ''file'')
          else bindE (with_main_text (pt_tools pt) ws t) (\<lambda>v. Inr (serialize (pt_tools pt) v, workspace_kind v)))"

definition plant_extra :: "('w, 'c) parts \<Rightarrow> workspace option \<Rightarrow> nat \<times> seed_entry \<Rightarrow> ('w, 'c, unit) act" where
  "plant_extra pt initial ie =
     lbind (lworkspace (seed_genome pt initial (snd ie))) (\<lambda>(code, kind).
     lbind (plant_seed pt code kind ((int (fst ie) + 1) mod pt_islands pt)
              (''initial program variant '' @ nat_str (fst ie + 1))) (\<lambda>_. lret ()))"

definition barren_islands :: "('w, 'c) parts \<Rightarrow> candidate \<Rightarrow> population \<Rightarrow> int list" where
  "barren_islands pt seed p =
     filter (\<lambda>idx. idx \<noteq> ca_island seed \<and> passed_candidates (island_view_of p idx) = []) [0 .. pt_islands pt - 1]"

definition backfill :: "('w, 'c) parts \<Rightarrow> candidate \<Rightarrow> int list \<Rightarrow> ('w, 'c, unit) act" where
  "backfill pt seed barren =
     lbind (ldraw (pt_seeding pt)) (\<lambda>(now, draw, fresh) s.
       case seed_all_islands now draw fresh seed (Some barren) (lp_store s) of
         (p, r) \<Rightarrow> (s\<lparr>lp_store := p\<rparr>, case r of Inl e \<Rightarrow> Inl (StoreFault e) | Inr _ \<Rightarrow> Inr ()))"

definition plant_seeds ::
  "('w, 'c) parts \<Rightarrow> string \<Rightarrow> seed_entry list \<Rightarrow> workspace option \<Rightarrow> ('w, 'c, unit) act" where
  "plant_seeds pt initial_code extra initial =
     lbind (plant_seed pt (case initial of None \<Rightarrow> initial_code | Some ws \<Rightarrow> serialize (pt_tools pt) ws)
              (case initial of None \<Rightarrow> ''file'' | Some ws \<Rightarrow> workspace_kind ws) 0 ''initial program'') (\<lambda>seed.
     lbind (lmap (plant_extra pt initial) (enumerate 0 extra)) (\<lambda>_.
     lbind (lget (\<lambda>s. barren_islands pt seed (lp_store s))) (\<lambda>barren.
     lbind (if barren \<noteq> [] \<and> passed seed then backfill pt seed barren else lret ()) (\<lambda>_.
       lmark refresh_archive))))"

section \<open>A generation\<close>

text \<open>What the loop carries from generation to generation, and whether it goes on.\<close>

datatype loop_control = Break | Next int int

text \<open>One outcome of a batch, absorbed in order; the accumulator is the streak of infrastructure failures.\<close>

definition absorb_outcome ::
  "('w, 'c) parts \<Rightarrow> int \<Rightarrow> candidate \<times> (string + eval_report) \<Rightarrow> int \<Rightarrow> ('w, 'c, int) act" where
  "absorb_outcome pt generation outcome streak =
     (case outcome of
        (c, Inl m) \<Rightarrow> lbind (lnote (Dropped generation (ca_id c) m)) (\<lambda>_. lret (streak + 1))
      | (c, Inr result) \<Rightarrow>
          lbind (account_report pt result) (\<lambda>_.
          lbind (lget (\<lambda>s. parent_row c (lp_store s))) (\<lambda>parent.
          lbind (observe pt (c\<lparr>ca_report := Some result\<rparr>)) (\<lambda>c1.
          lbind (insert_now pt c1) (\<lambda>c2.
          lbind (log_metrics pt generation c2) (\<lambda>_.
          lbind (settle_router pt parent c2) (\<lambda>_.
          lbind (lnote (graded_entry generation c2)) (\<lambda>_. lret 0))))))))"

text \<open>An exception of a grader that is no infrastructure failure is raised when its turn comes.\<close>

fun infra_or_result :: "candidate \<times> (loop_error + eval_report) \<Rightarrow> loop_error + candidate \<times> (string + eval_report)" where
  "infra_or_result (c, Inr r) = Inr (c, Inr r)"
| "infra_or_result (c, Inl (InfraError m)) = Inr (c, Inl m)"
| "infra_or_result (c, Inl e) = Inl e"

definition run_batch :: "('w, 'c) parts \<Rightarrow> int \<Rightarrow> int \<Rightarrow> ('w, 'c, int \<times> bool) act" where
  "run_batch pt generation infra_streak =
     lbind (propose_many pt generation (sc_batch (pt_cfg pt))) (\<lambda>cands.
     if cands = [] then lbind (lnote (Skipped generation)) (\<lambda>_. lret (infra_streak, False))
     else
       lbind (lmap (call_grader pt) cands) (\<lambda>answers.
       lbind (all_results (map infra_or_result answers)) (\<lambda>outcomes.
       lbind (lfold (absorb_outcome pt generation) outcomes infra_streak) (\<lambda>streak.
       lbind (lmark refresh_archive) (\<lambda>_.
       lbind (migrate_now pt generation) (\<lambda>_.
       lbind (revive_islands pt generation) (\<lambda>_.
       lbind update_best (\<lambda>_. lret (streak, True)))))))))"

definition set_stopped :: "string \<Rightarrow> ('w, 'c, unit) act" where
  "set_stopped reason = lreport (\<lambda>r. r\<lparr>rr_stopped := reason\<rparr>)"

definition stop_with :: "string \<Rightarrow> ('w, 'c, loop_control) act" where
  "stop_with reason = lbind (set_stopped reason) (\<lambda>_. lret Break)"

text \<open>\<open>generations_completed\<close> and the checkpoint of a generation.\<close>

definition complete_generation :: "('w, 'c) parts \<Rightarrow> int \<Rightarrow> ('w, 'c, unit) act" where
  "complete_generation pt generation =
     lbind (lreport (\<lambda>r. r\<lparr>rr_generations := generation\<rparr>)) (\<lambda>_. save_checkpoint pt generation)"

definition stop_at_target :: "('w, 'c) parts \<Rightarrow> int \<Rightarrow> int \<Rightarrow> ('w, 'c, loop_control) act" where
  "stop_at_target pt infra idle =
     lbind (lget (target_reached pt)) (\<lambda>reached.
       if reached then stop_with ''target_reached'' else lret (Next infra idle))"

definition on_billing :: "('w, 'c, 'a) act \<Rightarrow> loop_error \<Rightarrow> ('w, 'c, 'a) act option" where
  "on_billing h e = (case e of BillingError _ \<Rightarrow> Some h | _ \<Rightarrow> None)"

definition batch_generation :: "('w, 'c) parts \<Rightarrow> int \<Rightarrow> int \<Rightarrow> int \<Rightarrow> ('w, 'c, loop_control) act" where
  "batch_generation pt generation infra idle =
     lbind (lcatch (on_billing (lret None)) (lbind (run_batch pt generation infra) (\<lambda>r. lret (Some r)))) (\<lambda>outcome.
     case outcome of
       None \<Rightarrow> stop_with ''llm_billing''
     | Some (infra1, produced) \<Rightarrow>
         (let idle1 = (if produced then 0 else idle + 1) in
          lbind (complete_generation pt generation) (\<lambda>_.
            if infra1 \<ge> sc_max_infra (pt_cfg pt) then stop_with ''eval_infra''
            else if idle1 \<ge> sc_max_infra (pt_cfg pt) then stop_with ''proposer_dead''
            else stop_at_target pt infra1 idle1)))"

definition serial_skip :: "('w, 'c) parts \<Rightarrow> int \<Rightarrow> int \<Rightarrow> int \<Rightarrow> ('w, 'c, loop_control) act" where
  "serial_skip pt generation infra idle =
     lbind (lnote (Skipped generation)) (\<lambda>_.
     lbind (complete_generation pt generation) (\<lambda>_.
       if idle + 1 \<ge> sc_max_infra (pt_cfg pt) then stop_with ''proposer_dead'' else lret (Next infra (idle + 1))))"

definition serial_drop :: "('w, 'c) parts \<Rightarrow> int \<Rightarrow> int \<Rightarrow> candidate \<Rightarrow> string \<Rightarrow> ('w, 'c, loop_control) act" where
  "serial_drop pt generation infra c m =
     lbind (lnote (Dropped generation (ca_id c) m)) (\<lambda>_.
     lbind (complete_generation pt generation) (\<lambda>_.
       if infra + 1 \<ge> sc_max_infra (pt_cfg pt) then stop_with ''eval_infra'' else lret (Next (infra + 1) 0)))"

definition serial_absorb ::
  "('w, 'c) parts \<Rightarrow> int \<Rightarrow> candidate option \<Rightarrow> candidate \<Rightarrow> eval_report \<Rightarrow> ('w, 'c, loop_control) act" where
  "serial_absorb pt generation parent c result =
     lbind (account_report pt result) (\<lambda>_.
     lbind (observe pt (c\<lparr>ca_report := Some result\<rparr>)) (\<lambda>c1.
     lbind (insert_now pt c1) (\<lambda>c2.
     lbind (lmark refresh_archive) (\<lambda>_.
     lbind (migrate_now pt generation) (\<lambda>_.
     lbind (revive_islands pt generation) (\<lambda>_.
     lbind (log_metrics pt generation c2) (\<lambda>_.
     lbind (settle_router pt parent c2) (\<lambda>_.
     lbind update_best (\<lambda>_.
     lbind (lnote (graded_entry generation c2)) (\<lambda>_.
     lbind (complete_generation pt generation) (\<lambda>_. stop_at_target pt 0 0)))))))))))"

definition serial_generation :: "('w, 'c) parts \<Rightarrow> int \<Rightarrow> int \<Rightarrow> int \<Rightarrow> ('w, 'c, loop_control) act" where
  "serial_generation pt generation infra idle =
     lbind (lcatch (on_billing (lret None)) (lbind (propose_one pt generation 0) (\<lambda>r. lret (Some r)))) (\<lambda>outcome.
     case outcome of
       None \<Rightarrow> stop_with ''llm_billing''
     | Some None \<Rightarrow> serial_skip pt generation infra idle
     | Some (Some c) \<Rightarrow>
         lbind (lget (\<lambda>s. parent_row c (lp_store s))) (\<lambda>parent.
         lbind (call_grader pt c) (\<lambda>(c1, result).
         case result of
           Inl (InfraError m) \<Rightarrow> serial_drop pt generation infra c1 m
         | Inl e \<Rightarrow> lraise e
         | Inr rep \<Rightarrow> serial_absorb pt generation parent c1 rep)))"

definition run_generation :: "('w, 'c) parts \<Rightarrow> int \<Rightarrow> int \<Rightarrow> int \<Rightarrow> ('w, 'c, loop_control) act" where
  "run_generation pt generation infra idle =
     lbind (lget (\<lambda>s. pt_stop pt (lp_world s))) (\<lambda>stop.
       if stop then stop_with ''budget''
       else if sc_batch (pt_cfg pt) > 1 then batch_generation pt generation infra idle
       else serial_generation pt generation infra idle)"

fun run_generations :: "('w, 'c) parts \<Rightarrow> int list \<Rightarrow> int \<Rightarrow> int \<Rightarrow> ('w, 'c, unit) act" where
  "run_generations pt [] infra idle = lret ()"
| "run_generations pt (g # gs) infra idle =
     lbind (run_generation pt g infra idle) (\<lambda>next.
     case next of Break \<Rightarrow> lret () | Next infra1 idle1 \<Rightarrow> run_generations pt gs infra1 idle1)"

section \<open>The run\<close>

definition finish_run :: "('w, 'c, search_report) act" where
  "finish_run =
     lbind (lreport (\<lambda>r. if rr_stopped r = ''running'' then r\<lparr>rr_stopped := ''completed''\<rparr> else r)) (\<lambda>_.
     lbind update_best (\<lambda>_. lget lp_report))"

text \<open>The generations that are left, and the end of the run: what an uninterrupted process does from here.\<close>

definition continue_run :: "('w, 'c) parts \<Rightarrow> int \<Rightarrow> int \<Rightarrow> int \<Rightarrow> ('w, 'c, search_report) act" where
  "continue_run pt start infra idle =
     lbind (run_generations pt [start .. sc_generations (pt_cfg pt)] infra idle) (\<lambda>_. finish_run)"

text \<open>Where the run starts: from the checkpoint, on a kept population, or new. \<open>run\<close> makes a new report first.\<close>

definition resume_or_start :: "('w, 'c) parts \<Rightarrow> ('w, 'c, int) act" where
  "resume_or_start pt =
     lbind (lreport (\<lambda>_. new_report)) (\<lambda>_.
     lbind (lget lp_disk) (\<lambda>ck.
     case ck of
       Some c \<Rightarrow> lbind (restore_checkpoint pt c) (\<lambda>(report, start). lbind (lreport (\<lambda>_. report)) (\<lambda>_. lret start))
     | None \<Rightarrow> lbind (lget (\<lambda>s. count_candidates (lp_store s))) (\<lambda>n.
         if n > 0 \<and> \<not> pt_keep_population pt then lraise (CheckpointError ''no checkpoint'') else lret 1)))"

definition search_run ::
  "('w, 'c) parts \<Rightarrow> string \<Rightarrow> seed_entry list \<Rightarrow> workspace option \<Rightarrow> ('w, 'c, search_report) act" where
  "search_run pt initial_code extra initial =
     lbind (lget lp_disk) (\<lambda>ck.
     lbind (resume_or_start pt) (\<lambda>start.
     lbind (lget (\<lambda>s. count_candidates (lp_store s))) (\<lambda>n.
     lbind (if n = 0 then
              lbind (set_stopped ''running'') (\<lambda>_.
              lbind (plant_seeds pt initial_code extra initial) (\<lambda>_. save_checkpoint pt 0))
            else lreport (\<lambda>r. if rr_stopped r = ''completed'' \<and> ck \<noteq> None \<and> start \<le> sc_generations (pt_cfg pt)
                             then r\<lparr>rr_stopped := ''running''\<rparr> else r)) (\<lambda>_.
       continue_run pt start 0 0))))"

end
