(* ===== verification/SearchRuns.thy ===== *)
theory SearchRuns
  imports SearchLoop
begin

text \<open>
  What every run of the loop keeps, also one that ends with an error: the locale \<open>run_relation\<close> carries a
  reflexive and transitive relation between the state before and after through the combinators of the
  runs. It is interpreted on the growth of the population and on what a process may do to the report and
  to the disk.
\<close>

section \<open>Relations through the combinators\<close>

definition lkeeps :: "(('w, 'c) loop \<Rightarrow> ('w, 'c) loop \<Rightarrow> bool) \<Rightarrow> ('w, 'c, 'a) act \<Rightarrow> bool" where
  "lkeeps R m \<longleftrightarrow> (\<forall>s s' r. m s = (s', r) \<longrightarrow> R s s')"

named_theorems lkeeps_rules "how a relation is kept by the runs"

lemma lkeepsD: "lkeeps R m \<Longrightarrow> m s = (s', r) \<Longrightarrow> R s s'"
  unfolding lkeeps_def by blast

locale run_relation =
  fixes R :: "('w, 'c) loop \<Rightarrow> ('w, 'c) loop \<Rightarrow> bool"
  assumes same: "R s s"
    and steps: "R s1 s2 \<Longrightarrow> R s2 s3 \<Longrightarrow> R s1 s3"
begin

lemma ret: "lkeeps R (lret a)"
  by (simp add: lkeeps_def lret_def same)

lemma raising: "lkeeps R (lraise e)"
  by (simp add: lkeeps_def lraise_def same)

lemma get: "lkeeps R (lget q)"
  by (simp add: lkeeps_def lget_def same)

lemma workspaces: "lkeeps R (lworkspace r)"
  by (simp add: lkeeps_def lworkspace_def same)

lemma results: "lkeeps R (all_results rs)"
  by (simp add: lkeeps_def all_results_def same)

lemma bind:
  assumes "lkeeps R m" "\<And>a. lkeeps R (f a)"
  shows "lkeeps R (lbind m f)"
  unfolding lkeeps_def
proof (intro allI impI)
  fix s s' r
  assume run: "lbind m f s = (s', r)"
  obtain s1 x where m: "m s = (s1, x)" by force
  then have "R s s1" using assms(1) by (simp add: lkeeps_def)
  show "R s s'"
  proof (cases x)
    case (Inl e)
    with run m \<open>R s s1\<close> show ?thesis by (simp add: lbind_def)
  next
    case (Inr a)
    with run m have "f a s1 = (s', r)" by (simp add: lbind_def)
    with assms(2)[of a] have "R s1 s'" unfolding lkeeps_def by blast
    with \<open>R s s1\<close> show ?thesis by (rule steps)
  qed
qed

lemma trying: "lkeeps R m \<Longrightarrow> lkeeps R (ltry m)"
  by (simp add: lkeeps_def ltry_def split: prod.splits)

lemma catching:
  assumes "lkeeps R m" "\<And>e h. handler e = Some h \<Longrightarrow> lkeeps R h"
  shows "lkeeps R (lcatch handler m)"
  unfolding lkeeps_def
proof (intro allI impI)
  fix s s' r
  assume run: "lcatch handler m s = (s', r)"
  obtain s1 x where m: "m s = (s1, x)" by force
  then have R1: "R s s1" using assms(1) by (simp add: lkeeps_def)
  consider "s' = s1" | e h where "handler e = Some h" "h s1 = (s', r)"
    using run m by (auto simp: lcatch_def split: sum.splits option.splits)
  then show "R s s'"
  proof cases
    case 2
    then have "R s1 s'" using assms(2) by (simp add: lkeeps_def)
    with R1 show ?thesis by (rule steps)
  qed (use R1 in simp)
qed

lemma mapping: "(\<And>x. x \<in> set xs \<Longrightarrow> lkeeps R (f x)) \<Longrightarrow> lkeeps R (lmap f xs)"
  by (induction xs) (auto intro!: ret bind)

lemma folding: "(\<And>x acc. x \<in> set xs \<Longrightarrow> lkeeps R (f x acc)) \<Longrightarrow> lkeeps R (lfold f xs acc)"
  by (induction xs arbitrary: acc) (auto intro!: ret bind)

lemmas combinators = ret raising get workspaces results bind trying mapping folding

end

lemma keeps_option [lkeeps_rules]:
  "(x = None \<Longrightarrow> lkeeps R a) \<Longrightarrow> (\<And>y. x = Some y \<Longrightarrow> lkeeps R (b y)) \<Longrightarrow> lkeeps R (case x of None \<Rightarrow> a | Some y \<Rightarrow> b y)"
  by (cases x) simp_all

lemma keeps_sum [lkeeps_rules]:
  "(\<And>e. x = Inl e \<Longrightarrow> lkeeps R (a e)) \<Longrightarrow> (\<And>y. x = Inr y \<Longrightarrow> lkeeps R (b y)) \<Longrightarrow> lkeeps R (case x of Inl e \<Rightarrow> a e | Inr y \<Rightarrow> b y)"
  by (cases x) simp_all

lemma keeps_prod [lkeeps_rules]: "(\<And>a b. x = (a, b) \<Longrightarrow> lkeeps R (f a b)) \<Longrightarrow> lkeeps R (case x of (a, b) \<Rightarrow> f a b)"
  by (cases x) simp

lemma keeps_if [lkeeps_rules]: "(c \<Longrightarrow> lkeeps R a) \<Longrightarrow> (\<not> c \<Longrightarrow> lkeeps R b) \<Longrightarrow> lkeeps R (if c then a else b)"
  by simp

lemma keeps_Let [lkeeps_rules]: "(\<And>y. lkeeps R (f y)) \<Longrightarrow> lkeeps R (Let x f)"
  by (simp add: Let_def)

lemma keeps_error [lkeeps_rules]:
  assumes "\<And>x. e = StoreFault x \<Longrightarrow> lkeeps R (a1 x)" "\<And>x. e = WorkspaceFault x \<Longrightarrow> lkeeps R (a2 x)"
    "\<And>x. e = BillingError x \<Longrightarrow> lkeeps R (a3 x)" "\<And>x. e = InfraError x \<Longrightarrow> lkeeps R (a4 x)"
    "\<And>x. e = CheckpointError x \<Longrightarrow> lkeeps R (a5 x)" "\<And>x. e = OtherError x \<Longrightarrow> lkeeps R (a6 x)"
  shows "lkeeps R (case e of StoreFault x \<Rightarrow> a1 x | WorkspaceFault x \<Rightarrow> a2 x | BillingError x \<Rightarrow> a3 x
    | InfraError x \<Rightarrow> a4 x | CheckpointError x \<Rightarrow> a5 x | OtherError x \<Rightarrow> a6 x)"
  using assms by (cases e) simp_all

lemma keeps_control [lkeeps_rules]:
  "(x = Break \<Longrightarrow> lkeeps R a) \<Longrightarrow> (\<And>i j. x = Next i j \<Longrightarrow> lkeeps R (b i j)) \<Longrightarrow>
     lkeeps R (case x of Break \<Rightarrow> a | Next i j \<Rightarrow> b i j)"
  by (cases x) simp_all

section \<open>Every way to a proposal\<close>

text \<open>Entries of the history that say nothing about an evaluation or a generation without one.\<close>

fun neutral :: "history_entry \<Rightarrow> bool" where
  "neutral (ProposalFailed _ _ _ _ _ _ _ _) = True"
| "neutral (PreflightFailed _ _ _ _ _ _) = True"
| "neutral (Revived _ _) = True"
| "neutral _ = False"

text \<open>What a relation must allow so that every way to a proposal keeps it.\<close>

locale proposal_relation = run_relation R for R :: "('w, 'c) loop \<Rightarrow> ('w, 'c) loop \<Rightarrow> bool" +
  assumes elsewhere: "R s (s\<lparr>lp_world := w\<rparr>)"
    and noting: "neutral h \<Longrightarrow> lkeeps R (lnote h)"
    and counter: "(\<And>r. rr_stopped (k r) = rr_stopped r \<and> rr_generations (k r) = rr_generations r
        \<and> rr_evaluations (k r) = rr_evaluations r \<and> rr_history (k r) = rr_history r) \<Longrightarrow> lkeeps R (lreport k)"
    and charge: "lkeeps R (lmark (note_attempt i))"
    and repairs: "lkeeps R (lmark (mark_repair_attempted i))"
begin

lemma world: "lkeeps R (lworld f)"
  by (simp add: lkeeps_def lworld_def elsewhere split: prod.splits)

lemma draw: "lkeeps R (ldraw f)"
  by (simp add: lkeeps_def ldraw_def elsewhere split: prod.splits)

lemmas rules = combinators world draw charge repairs

lemma plan: "lkeeps R (plan_proposal pt generation slot)"
  unfolding plan_proposal_def proposal_lane_def merge_offer_def repair_target_def plan_repair_def plan_mutation_def
    choose_operator_def sample_operator_def Let_def
  by (intro lkeeps_rules rules)

lemma execute: "lkeeps R (execute_plan pt plan)"
  unfolding execute_plan_def by (intro lkeeps_rules rules)

lemma absorb: "lkeeps R (absorb_proposal pt generation plan result)"
  unfolding absorb_proposal_def absorb_answer_def reject_failed_def reject_preflight_def judge_novelty_def make_child_def Let_def
  by (intro lkeeps_rules rules noting counter) simp_all

lemma attempts: "lkeeps R (propose_attempts pt generation slot n)"
  by (induction n) (simp_all only: propose_attempts.simps, (intro lkeeps_rules rules plan execute absorb | assumption)+)

lemma slots: "lkeeps R (plan_slots pt generation slots)"
  by (induction slots) (simp_all only: plan_slots.simps, (intro lkeeps_rules rules plan | assumption)+)

lemma propose:
  "lkeeps R (propose_one pt generation slot)" "lkeeps R (propose_many pt generation n)"
  unfolding propose_many_def propose_one_def absorb_or_retry_def by (intro lkeeps_rules rules plan execute absorb attempts slots)+

end

section \<open>The population only grows\<close>

definition measured :: "population \<Rightarrow> bool" where
  "measured p \<longleftrightarrow> (\<forall>c \<in> set (po_rows p). ca_report c \<noteq> None)"

text \<open>The writes of the loop, none of which lets an unmeasured row in where there was none.\<close>

definition developed :: "population \<Rightarrow> population \<Rightarrow> bool" where
  "developed p p' \<longleftrightarrow> loop_step\<^sup>*\<^sup>* p p' \<and> (measured p \<longrightarrow> measured p')"

definition develops :: "('w, 'c) loop \<Rightarrow> ('w, 'c) loop \<Rightarrow> bool" where
  "develops s s' \<longleftrightarrow> developed (lp_store s) (lp_store s')"

lemma developed_trans: "developed p q \<Longrightarrow> developed q r \<Longrightarrow> developed p r"
  by (auto simp: developed_def)

interpretation develops: run_relation develops
  by unfold_locales (auto simp: develops_def developed_def)

text \<open>
  What the parts are relied on for: migration draws are valid, an observer annotates a candidate and
  leaves its report, and the revival of islands uses the writes of the store.
\<close>

definition lawful :: "('w, 'c) parts \<Rightarrow> bool" where
  "lawful pt \<longleftrightarrow>
     (\<forall>w. case fst (pt_migration pt w) of (draws, target) \<Rightarrow> valid_draws draws target)
   \<and> (\<forall>c p w c' w'. pt_observe pt c p w = (Inr c', w') \<longrightarrow> ca_report c' = ca_report c)
   \<and> (\<forall>revive g n p w. pt_revive pt = Some revive \<longrightarrow> developed p (fst (fst (revive g n p w))))"

lemma lawful_observe: "lawful pt \<Longrightarrow> pt_observe pt c p w = (Inr c', w') \<Longrightarrow> ca_report c' = ca_report c"
  unfolding lawful_def by blast

lemma same_core_measured:
  assumes "map core (po_rows p') = map core (po_rows p)"
  shows "measured p' = measured p"
proof -
  have "map ca_report (map core (po_rows p')) = map ca_report (map core (po_rows p))" by (simp only: assms)
  then have "map ca_report (po_rows p') = map ca_report (po_rows p)" by (simp add: o_def core_def)
  then have "ca_report ` set (po_rows p') = ca_report ` set (po_rows p)" by (metis set_map)
  moreover have "measured q \<longleftrightarrow> (\<forall>r \<in> ca_report ` set (po_rows q). r \<noteq> None)" for q
    by (simp add: measured_def)
  ultimately show ?thesis by (simp only:)
qed

lemma annotated:
  assumes "annotation f" "f p = Inr p'" "loop_step p p'"
  shows "developed p p'"
proof -
  have "measured p' = measured p" by (rule same_core_measured[OF annotation.same_core[OF assms(1,2)]])
  with assms(3) show ?thesis unfolding developed_def by blast
qed

lemma insert_measured:
  assumes "insert_candidate now draw c p = Inr (p', c')" "ca_report c \<noteq> None"
  shows "developed p p'"
proof -
  note rows = insert_candidate_rows[OF assms(1)]
  have "ca_report c' = ca_report (c\<lparr>ca_island := ca_island c'\<rparr>)" by (rule arg_cong[OF rows(2)])
  then have "ca_report c' = ca_report c" by simp
  then have "measured p \<longrightarrow> measured p'" using rows(1) assms(2) by (auto simp: measured_def)
  with loop_step.inserted[OF assms(1)] show ?thesis by (simp add: developed_def r_into_rtranclp)
qed


lemma develops_quiet [lkeeps_rules]:
  "lkeeps develops (lworld f)" "lkeeps develops (ldraw g)" "lkeeps develops (lreport h)" "lkeeps develops (lnote n)"
  by (auto simp: lkeeps_def develops_def developed_def lworld_def ldraw_def lreport_def lnote_def split: prod.splits)

lemmas develops_combinators [lkeeps_rules] = develops.combinators

lemma develops_mark: "(\<And>p p'. f p = Inr p' \<Longrightarrow> developed p p') \<Longrightarrow> lkeeps develops (lmark f)"
  by (auto simp: lkeeps_def develops_def developed_def lmark_def lwrite_def bindE_Inr_iff split: sum.splits)

lemma develops_marks [lkeeps_rules]:
  "lkeeps develops (lmark (note_attempt i))" "lkeeps develops (lmark (mark_repair_attempted i))"
  "lkeeps develops (lmark refresh_archive)"
  by (rule develops_mark, rule annotated, unfold_locales, erule (1) charged.same_core repair.same_core archive.same_core,
      erule loop_step.intros)+


interpretation proposing: proposal_relation develops
  by unfold_locales (simp_all add: develops_def developed_def develops_quiet develops_marks)

lemmas develops_propose [lkeeps_rules] = proposing.propose

lemma develops_account [lkeeps_rules]:
  "lkeeps develops (account_report pt result)" "lkeeps develops (call_grader pt c)" "lkeeps develops (log_metrics pt generation c)"
  "lkeeps develops (settle_router pt parent c)" "lkeeps develops update_best" "lkeeps develops (save_checkpoint pt generation)"
  "lkeeps develops (set_stopped reason)" "lkeeps develops (stop_with reason)" "lkeeps develops (complete_generation pt generation)"
  "lkeeps develops (stop_at_target pt infra idle)"
proof -
  show save: "lkeeps develops (save_checkpoint pt generation)"
    by (simp add: lkeeps_def save_checkpoint_def develops_def developed_def)
  show "lkeeps develops (account_report pt result)" "lkeeps develops (call_grader pt c)" "lkeeps develops (log_metrics pt generation c)"
    "lkeeps develops (settle_router pt parent c)" "lkeeps develops update_best" "lkeeps develops (set_stopped reason)"
    "lkeeps develops (stop_with reason)" "lkeeps develops (complete_generation pt generation)"
    "lkeeps develops (stop_at_target pt infra idle)"
    unfolding account_report_def call_grader_def log_metrics_def settle_router_def update_best_def set_stopped_def
      stop_with_def complete_generation_def stop_at_target_def
    by (intro lkeeps_rules save)+
qed

text \<open>Observed and inserted, a measured candidate is a measured row.\<close>

lemma develops_recorded:
  assumes "lawful pt" "\<And>c1. lkeeps develops (f c1)" "ca_report c \<noteq> None"
  shows "lkeeps develops (lbind (observe pt c) (\<lambda>c1. lbind (insert_now pt c1) f))"
proof -
  have ins: "lkeeps develops (insert_now pt c1)" if "ca_report c1 \<noteq> None" for c1
  proof -
    have "lkeeps develops (lwrite (insert_candidate now draw c1))" for now draw
      using insert_measured[OF _ that]
      by (auto simp: lkeeps_def lwrite_def develops_def developed_def split: sum.splits)
    then show ?thesis unfolding insert_now_def by (intro lkeeps_rules)
  qed
  show ?thesis
    unfolding lkeeps_def
  proof (intro allI impI)
    fix s s' r
    assume run: "lbind (observe pt c) (\<lambda>c1. lbind (insert_now pt c1) f) s = (s', r)"
    obtain x w where x: "pt_observe pt c (lp_store s) (lp_world s) = (x, w)" by force
    define s1 where "s1 = s\<lparr>lp_world := w\<rparr>"
    have o1: "observe pt c s = (s1, x)"
      using x by (simp add: observe_def lbind_def lget_def lworld_def s1_def)
    have d1: "develops s s1" by (simp add: s1_def develops_def developed_def)
    show "develops s s'"
    proof (cases x)
      case (Inl e)
      with run o1 have "s' = s1" by (simp add: lbind_def)
      with d1 show ?thesis by simp
    next
      case (Inr c1)
      have "ca_report c1 \<noteq> None" using lawful_observe[OF assms(1) x[unfolded Inr]] assms(3) by simp
      then have "lkeeps develops (lbind (insert_now pt c1) f)" by (intro lkeeps_rules ins assms(2))
      moreover have "lbind (insert_now pt c1) f s1 = (s', r)" using run o1 Inr by (simp add: lbind_def[of "observe pt c"])
      ultimately have "develops s1 s'" unfolding lkeeps_def by blast
      with d1 show ?thesis by (rule develops.steps)
    qed
  qed
qed

lemma develops_migrate: "lawful pt \<Longrightarrow> lkeeps develops (migrate_now pt generation)"
proof -
  assume lawful: "lawful pt"
  have mark: "lkeeps develops (lmark (migrate draws target generation))" if "valid_draws draws target" for draws target
  proof (rule develops_mark)
    fix p p'
    assume m: "migrate draws target generation p = Inr p'"
    then obtain n where "maybe_migrate draws target generation p = Inr (p', n)" by (auto simp: migrate_def bindE_Inr_iff)
    from loop_step.migrated[OF that this] annotated[OF migrated.annotation_axioms m] show "developed p p'" by blast
  qed
  show ?thesis
    unfolding lkeeps_def
  proof (intro allI impI)
    fix s s' r
    assume run: "migrate_now pt generation s = (s', r)"
    obtain draws target w where d: "pt_migration pt (lp_world s) = ((draws, target), w)" by (metis surj_pair)
    have "valid_draws draws target" using lawful d unfolding lawful_def by (metis case_prod_conv fst_conv)
    moreover have "lmark (migrate draws target generation) (s\<lparr>lp_world := w\<rparr>) = (s', r)"
      using run d by (simp add: migrate_now_def lbind_def ldraw_def)
    ultimately have "develops (s\<lparr>lp_world := w\<rparr>) s'" by (rule lkeepsD[OF mark])
    then show "develops s s'" by (simp add: develops_def)
  qed
qed

lemma develops_revive: "lawful pt \<Longrightarrow> lkeeps develops (revive_islands pt generation)"
  unfolding revive_islands_def
  by (intro lkeeps_rules, unfold lkeeps_def, clarsimp simp: develops_def lawful_def split: prod.splits, metis fst_conv)


lemma seed_islands_measured:
  "seed_islands now draw fresh seed idxs p = (p', r) \<Longrightarrow> ca_report seed \<noteq> None \<Longrightarrow> measured p \<Longrightarrow> measured p'"
proof (induction idxs arbitrary: p r)
  case (Cons idx idxs)
  show ?case
  proof (cases "insert_candidate (now idx) draw (seed_copy seed idx (fresh idx)) p")
    case (Inl e)
    with Cons.prems show ?thesis by simp
  next
    case (Inr pc)
    obtain p1 c1 where pc: "pc = (p1, c1)" by force
    obtain p2 r2 where "seed_islands now draw fresh seed idxs p1 = (p2, r2)" by force
    then have rest: "seed_islands now draw fresh seed idxs p1 = (p', r2)" using Cons.prems(1) Inr pc by simp
    have "developed p p1"
      using Inr pc Cons.prems(2) by (intro insert_measured[where c = "seed_copy seed idx (fresh idx)"]) (simp_all add: seed_copy_def)
    with Cons.prems(3) have "measured p1" by (simp add: developed_def)
    with Cons.IH[OF rest Cons.prems(2)] show ?thesis by simp
  qed
qed simp

lemma develops_backfill: "passed seed \<Longrightarrow> lkeeps develops (backfill pt seed barren)"
proof -
  assume seed: "passed seed"
  have dev: "developed p p'" if all: "seed_all_islands now draw fresh seed (Some barren) p = (p', r)" for now draw fresh p p' r
  proof -
    have "measured p \<longrightarrow> measured p'"
      using all seed_islands_measured[of now draw fresh seed barren p p' r] passed_has_report[OF seed]
      by (auto simp: seed_all_islands_def split: sum.splits)
    with loop_step.seeded[OF all] show ?thesis by (simp add: developed_def r_into_rtranclp)
  qed
  show ?thesis
    unfolding backfill_def
  proof (rule develops.bind, rule develops_quiet)
    fix a
    show "lkeeps develops ((\<lambda>(now, draw, fresh) s.
       case seed_all_islands now draw fresh seed (Some barren) (lp_store s) of
         (p, r) \<Rightarrow> (s\<lparr>lp_store := p\<rparr>, case r of Inl e \<Rightarrow> Inl (StoreFault e) | Inr _ \<Rightarrow> Inr ())) a)"
      by (cases a) (auto simp: lkeeps_def develops_def split: prod.splits intro: dev)
  qed
qed

lemma develops_grade_seed [lkeeps_rules]: "lkeeps develops (grade_seed pt n c)"
proof (induction n arbitrary: c)
  case (Suc n)
  then show ?case by (simp only: grade_seed.simps, (intro lkeeps_rules | assumption)+)
qed (simp only: grade_seed.simps, intro lkeeps_rules)

lemma develops_seeds:
  assumes "lawful pt"
  shows "lkeeps develops (plant_seeds pt code extra initial)"
proof -
  have seed: "lkeeps develops (plant_seed pt code kind island title)" for code kind island title
    unfolding plant_seed_def by (intro lkeeps_rules develops_recorded[OF assms]) simp
  show ?thesis
    unfolding plant_seeds_def plant_extra_def
    by (intro lkeeps_rules seed develops_backfill) simp_all
qed

lemma develops_batch:
  assumes "lawful pt"
  shows "lkeeps develops (run_batch pt generation streak)"
proof -
  have outcome: "lkeeps develops (absorb_outcome pt generation outcome streak)" for outcome streak
    unfolding absorb_outcome_def by (intro lkeeps_rules develops_recorded[OF assms]) simp
  show ?thesis
    unfolding run_batch_def
    by (intro lkeeps_rules outcome develops_migrate[OF assms] develops_revive[OF assms])
qed

lemma develops_generation:
  assumes "lawful pt"
  shows "lkeeps develops (run_generation pt generation infra idle)"
proof -
  have absorb: "lkeeps develops (serial_absorb pt generation parent c result)" for parent c result
    unfolding serial_absorb_def
    by (intro lkeeps_rules develops_recorded[OF assms] develops_migrate[OF assms] develops_revive[OF assms]) simp
  have billing: "on_billing h e = Some h' \<Longrightarrow> h' = h" for h h' :: "('a, 'b, 'c) act" and e
    by (simp add: on_billing_def split: loop_error.splits)
  show ?thesis
    unfolding run_generation_def batch_generation_def serial_generation_def serial_skip_def serial_drop_def
    by (intro lkeeps_rules develops.catching develops_batch[OF assms] absorb) (auto dest: billing intro: lkeeps_rules)
qed

lemma develops_run:
  assumes "lawful pt"
  shows "lkeeps develops (search_run pt code extra initial)"
proof -
  have gens: "lkeeps develops (run_generations pt gs infra idle)" for gs infra idle
  proof (induction gs arbitrary: infra idle)
    case (Cons g gs)
    then show ?case by (simp only: run_generations.simps, (intro lkeeps_rules develops_generation[OF assms] | assumption)+)
  qed (simp only: run_generations.simps, intro lkeeps_rules)
  show ?thesis
    unfolding search_run_def resume_or_start_def restore_checkpoint_def continue_run_def finish_run_def
    by (intro lkeeps_rules develops_seeds[OF assms] gens)
qed

end
