(* ===== verification/SearchProofs.thy ===== *)
theory SearchProofs
  imports SearchRuns
begin

text \<open>
  What the loop guarantees: the population only grows and holds measured candidates, the reason it gives
  for stopping is true, its counters add up, every island gets its turn, and a process that dies between
  two generations is continued by the next one as if nothing had happened.
\<close>

section \<open>The population\<close>


section \<open>What a successful run did to the report\<close>

lemma lbind_Inr_iff: "lbind m f s = (s', Inr b) \<longleftrightarrow> (\<exists>s1 a. m s = (s1, Inr a) \<and> f a s1 = (s', Inr b))"
  by (auto simp: lbind_def split: prod.splits sum.splits)

lemma lret_Inr_iff: "lret a s = (s', Inr b) \<longleftrightarrow> s' = s \<and> b = a"
  by (auto simp: lret_def)

lemma lget_Inr_iff: "lget q s = (s', Inr b) \<longleftrightarrow> s' = s \<and> b = q s"
  by (auto simp: lget_def)

lemma lreport_Inr_iff: "lreport f s = (s', Inr b) \<longleftrightarrow> s' = s\<lparr>lp_report := f (lp_report s)\<rparr>"
  by (auto simp: lreport_def)

lemmas run_iffs = lbind_Inr_iff lret_Inr_iff lget_Inr_iff lreport_Inr_iff

fun is_graded :: "history_entry \<Rightarrow> bool" where
  "is_graded (Graded _ _ _ _ _ _) = True"
| "is_graded _ = False"

definition graded_count :: "history_entry list \<Rightarrow> int" where
  "graded_count h = int (length (filter is_graded h))"

text \<open>
  The length of the run of infrastructure failures that a history ends with, a graded candidate ending
  it, and the number of generations without a candidate that it ends with.
\<close>

fun infra_step :: "int \<Rightarrow> history_entry \<Rightarrow> int" where
  "infra_step k (Dropped _ _ _) = k + 1"
| "infra_step k (Graded _ _ _ _ _ _) = 0"
| "infra_step k _ = k"

fun idle_step :: "int \<Rightarrow> history_entry \<Rightarrow> int" where
  "idle_step k (Skipped _) = k + 1"
| "idle_step k (Graded _ _ _ _ _ _) = 0"
| "idle_step k (Dropped _ _ _) = 0"
| "idle_step k _ = k"

abbreviation infra_run :: "int \<Rightarrow> history_entry list \<Rightarrow> int" where
  "infra_run \<equiv> foldl infra_step"

abbreviation idle_run :: "int \<Rightarrow> history_entry list \<Rightarrow> int" where
  "idle_run \<equiv> foldl idle_step"

lemma neutral_runs: "list_all neutral h \<Longrightarrow> infra_run k h = k \<and> idle_run k h = k \<and> graded_count h = 0"
proof (induction h)
  case (Cons e h)
  then show ?case by (cases e) (simp_all add: graded_count_def)
qed (simp add: graded_count_def)

lemma graded_count_simps [simp]:
  "graded_count [] = 0" "graded_count (a @ b) = graded_count a + graded_count b"
  "graded_count (e # h) = (if is_graded e then 1 else 0) + graded_count h" "0 \<le> graded_count h"
  by (simp_all add: graded_count_def)

text \<open>From \<open>s\<close> to \<open>s'\<close> the history got \<open>new\<close>, \<open>n\<close> evaluations were counted, and nothing else that matters.\<close>

definition made :: "int \<Rightarrow> history_entry list \<Rightarrow> ('w, 'c) loop \<Rightarrow> ('w, 'c) loop \<Rightarrow> bool" where
  "made n new s s' \<longleftrightarrow> rr_history (lp_report s') = rr_history (lp_report s) @ new
     \<and> rr_evaluations (lp_report s') = rr_evaluations (lp_report s) + n \<and> rr_stopped (lp_report s') = rr_stopped (lp_report s)
     \<and> rr_generations (lp_report s') = rr_generations (lp_report s) \<and> lp_disk s' = lp_disk s"

definition quiet :: "('w, 'c) loop \<Rightarrow> ('w, 'c) loop \<Rightarrow> bool" where
  "quiet s s' \<longleftrightarrow> (\<exists>new. made 0 new s s' \<and> list_all neutral new)"

lemma made_trans: "made n a s s1 \<Longrightarrow> made m b s1 s2 \<Longrightarrow> made (n + m) (a @ b) s s2"
  by (simp add: made_def)

lemma quietE:
  assumes "quiet s s'"
  obtains new where "made 0 new s s'" "list_all neutral new"
  using assms by (auto simp: quiet_def)

lemma made_quiet:
  assumes "made n a s s1" "quiet s1 s2"
  obtains b where "made n (a @ b) s s2" "list_all neutral b"
proof -
  obtain b where "made 0 b s1 s2" "list_all neutral b" using assms(2) by (rule quietE)
  with made_trans[OF assms(1)] have "made (n + 0) (a @ b) s s2" by blast
  with that \<open>list_all neutral b\<close> show thesis by simp
qed

interpretation quiet: proposal_relation quiet
proof unfold_locales
  fix s1 s2 s3 :: "('w, 'c) loop"
  assume "quiet s1 s2" "quiet s2 s3"
  then obtain a b where "made 0 a s1 s2" "made 0 b s2 s3" "list_all neutral (a @ b)" by (auto simp: quiet_def)
  with made_trans[of 0 a s1 s2 0 b s3] show "quiet s1 s3" unfolding quiet_def by auto
qed (auto simp: quiet_def made_def lkeeps_def lnote_def lreport_def lmark_def lwrite_def split: sum.splits prod.splits)

lemma quiet_write: "lkeeps quiet (lwrite f)"
  by (auto simp: lkeeps_def lwrite_def quiet_def made_def split: sum.splits)

lemma quiet_steps:
  "lkeeps quiet (lmark f)" "lkeeps quiet (insert_now pt c)" "lkeeps quiet (observe pt c)" "lkeeps quiet (log_metrics pt generation c)"
  "lkeeps quiet (settle_router pt parent c)" "lkeeps quiet update_best" "lkeeps quiet (migrate_now pt generation)"
  "lkeeps quiet (revive_islands pt generation)" "lkeeps quiet (call_grader pt c)" "lkeeps quiet (backfill pt seed barren)"
proof -
  show "lkeeps quiet (lmark f)" unfolding lmark_def by (rule quiet_write)
  show "lkeeps quiet (insert_now pt c)" "lkeeps quiet (observe pt c)" "lkeeps quiet (log_metrics pt generation c)"
    "lkeeps quiet (settle_router pt parent c)" "lkeeps quiet (call_grader pt c)"
    unfolding insert_now_def observe_def log_metrics_def settle_router_def call_grader_def
    by (intro lkeeps_rules quiet.rules quiet_write)+
  show "lkeeps quiet update_best"
    unfolding update_best_def by (intro lkeeps_rules quiet.rules quiet.counter) simp
  show "lkeeps quiet (migrate_now pt generation)"
    unfolding migrate_now_def lmark_def by (intro lkeeps_rules quiet.rules quiet_write)
  show "lkeeps quiet (revive_islands pt generation)"
    unfolding revive_islands_def
    by (intro lkeeps_rules quiet.rules quiet.noting, auto simp: lkeeps_def quiet_def made_def split: prod.splits)
  show "lkeeps quiet (backfill pt seed barren)"
    unfolding backfill_def
    by (intro lkeeps_rules quiet.rules, auto simp: lkeeps_def quiet_def made_def split: prod.splits)
qed

lemma account_made: "account_report pt result s = (s', Inr u) \<Longrightarrow> made 1 [] s s'"
  by (auto simp: account_report_def run_iffs lworld_def made_def split: prod.splits)

lemma note_made: "lnote h s = (s', Inr u) \<longleftrightarrow> s' = s\<lparr>lp_report := (lp_report s)\<lparr>rr_history := rr_history (lp_report s) @ [h]\<rparr>\<rparr>"
  by (auto simp: lnote_def lreport_def)

lemma quietD: "lkeeps quiet m \<Longrightarrow> m s = (s', r) \<Longrightarrow> quiet s s'"
  by (rule lkeepsD)

text \<open>A step that pays, then quiet ones, then the entry of the candidate.\<close>

lemma quiet_then: "lkeeps quiet m \<Longrightarrow> lbind m f s = (s', Inr b) \<Longrightarrow> \<exists>s1 a. quiet s s1 \<and> f a s1 = (s', Inr b)"
  by (auto simp: lbind_Inr_iff dest: quietD)

lemma recorded_made:
  assumes "account_report pt result s = (s1, Inr u)" "quiet s1 s2" "lnote (graded_entry g c) s2 = (s3, Inr v)"
  shows "\<exists>a. list_all neutral a \<and> made 1 (a @ [graded_entry g c]) s s3"
proof -
  from account_made[OF assms(1)] assms(2) obtain a where "made 1 a s s2" "list_all neutral a"
    by (rule made_quiet[of 1 "[]", simplified])
  moreover have "made 0 [graded_entry g c] s2 s3" using assms(3) by (auto simp: note_made made_def)
  ultimately show ?thesis using made_trans[of 1 a s s2 0 "[graded_entry g c]" s3] by auto
qed

lemma graded_entry_simps [simp]:
  "is_graded (graded_entry g c)" "infra_step k (graded_entry g c) = 0" "idle_step k (graded_entry g c) = 0"
  by (simp_all add: graded_entry_def)

lemma outcome_made:
  assumes "absorb_outcome pt g outcome k s = (s', Inr k')"
  shows "\<exists>new. made (graded_count new) new s s' \<and> k' = infra_run k new \<and> graded_count new \<le> 1 \<and> (\<forall>j. idle_run j new = 0)"
proof -
  obtain c r where o1: "outcome = (c, r)" by force
  show ?thesis
  proof (cases r)
    case (Inl m)
    with assms o1 have "made 0 [Dropped g (ca_id c) m] s s'" "k' = k + 1"
      by (auto simp: absorb_outcome_def run_iffs note_made made_def)
    then show ?thesis by (intro exI[of _ "[Dropped g (ca_id c) m]"]) simp
  next
    case (Inr result)
    obtain s1 s2 s3 s4 s5 s6 c1 c2 u v where run: "account_report pt result s = (s1, Inr u)"
      "observe pt (c\<lparr>ca_report := Some result\<rparr>) s1 = (s2, Inr c1)" "insert_now pt c1 s2 = (s3, Inr c2)"
      "log_metrics pt g c2 s3 = (s4, Inr ())" "settle_router pt (parent_row c (lp_store s1)) c2 s4 = (s5, Inr ())"
      "lnote (graded_entry g c2) s5 = (s6, Inr v)" "s' = s6" "k' = 0"
      using assms o1 Inr by (auto simp: absorb_outcome_def run_iffs)
    have "quiet s1 s5"
      by (meson quiet.steps quietD quiet_steps run(2,3,4,5))
    from recorded_made[OF run(1) this run(6)] obtain a where a: "list_all neutral a" "made 1 (a @ [graded_entry g c2]) s s6"
      by blast
    with run(7,8) neutral_runs[OF a(1)] show ?thesis by (intro exI[of _ "a @ [graded_entry g c2]"]) simp
  qed
qed

lemma outcomes_made:
  "lfold (absorb_outcome pt g) os k s = (s', Inr k') \<Longrightarrow>
     \<exists>new. made (graded_count new) new s s' \<and> k' = infra_run k new \<and> graded_count new \<le> int (length os)
       \<and> (\<forall>j. idle_run j new = (if os = [] then j else 0))"
proof (induction os arbitrary: k s)
  case Nil
  then show ?case by (intro exI[of _ "[]"]) (simp add: lret_def made_def)
next
  case (Cons x os)
  then obtain s1 k1 where one: "absorb_outcome pt g x k s = (s1, Inr k1)" and rest: "lfold (absorb_outcome pt g) os k1 s1 = (s', Inr k')"
    by (auto simp: lbind_Inr_iff)
  from outcome_made[OF one] obtain a where a: "made (graded_count a) a s s1" "k1 = infra_run k a" "graded_count a \<le> 1"
    "\<forall>j. idle_run j a = 0" by blast
  from Cons.IH[OF rest] obtain b where b: "made (graded_count b) b s1 s'" "k' = infra_run k1 b" "graded_count b \<le> int (length os)"
    "\<forall>j. idle_run j b = (if os = [] then j else 0)" by blast
  from made_trans[OF a(1) b(1)] a b show ?case by (intro exI[of _ "a @ b"]) auto
qed

section \<open>How many candidates a round makes\<close>

lemma lmap_length: "lmap f xs s = (s', Inr ys) \<Longrightarrow> length ys = length xs"
  by (induction xs arbitrary: s ys) (auto simp: run_iffs)

lemma length_present: "length (present xs) \<le> length xs"
  by (induction xs) (auto simp: present_def split: option.splits)

lemma plan_slots_length: "plan_slots pt g slots s = (s', Inr plans) \<Longrightarrow> length plans \<le> length slots"
proof (induction slots arbitrary: s plans)
  case (Cons slot slots)
  then show ?case by (auto simp: run_iffs split: option.splits)
qed (simp add: lret_def)

lemma mapE_length: "mapE f xs = Inr ys \<Longrightarrow> length ys = length xs"
  by (simp add: mapE_Inr_iff list_all2_lengthD)

lemma propose_many_length: "propose_many pt g n s = (s', Inr cands) \<Longrightarrow> int (length cands) \<le> max 0 n"
proof (cases "max 1 (min (sc_concurrency (pt_cfg pt)) n) = 1")
  case True
  assume "propose_many pt g n s = (s', Inr cands)"
  with True obtain s1 found where "lmap (propose_one pt g) [0 .. n - 1] s = (s1, Inr found)" "cands = present found"
    by (auto simp: propose_many_def run_iffs)
  with lmap_length[OF this(1)] length_present[of found] show ?thesis by simp
next
  case False
  assume "propose_many pt g n s = (s', Inr cands)"
  with False obtain s1 plans where plans: "plan_slots pt g [0 .. n - 1] s = (s1, Inr plans)"
    and rest: "cands = [] \<or> (\<exists>results s2 s3 found. lmap (absorb_or_retry pt g) (zip plans results) s2 = (s3, Inr found) \<and> cands = present found)"
    by (simp add: propose_many_def run_iffs split: if_splits) blast
  from plan_slots_length[OF plans] have "int (length plans) \<le> max 0 n" by simp
  moreover have "length cands \<le> length plans"
    using rest
  proof (elim disjE exE conjE)
    fix results s2 s3 found
    assume "lmap (absorb_or_retry pt g) (zip plans results) s2 = (s3, Inr found)" "cands = present found"
    with lmap_length[OF this(1)] length_present[of found] show ?thesis by simp
  qed simp
  ultimately show ?thesis by linarith
qed

section \<open>One generation\<close>

lemma batch_made:
  assumes "run_batch pt g infra s = (s', Inr (k, produced))"
  shows "\<exists>new. made (graded_count new) new s s' \<and> k = infra_run infra new \<and> graded_count new \<le> max 1 (sc_batch (pt_cfg pt))
    \<and> (\<forall>j. idle_run j new = (if produced then 0 else j + 1))"
proof -
  obtain s1 cands where proposed: "propose_many pt g (sc_batch (pt_cfg pt)) s = (s1, Inr cands)"
    and rest: "(if cands = [] then lbind (lnote (Skipped g)) (\<lambda>_. lret (infra, False))
     else
       lbind (lmap (call_grader pt) cands) (\<lambda>answers.
       lbind (all_results (map infra_or_result answers)) (\<lambda>outcomes.
       lbind (lfold (absorb_outcome pt g) outcomes infra) (\<lambda>streak.
       lbind (lmark refresh_archive) (\<lambda>_.
       lbind (migrate_now pt g) (\<lambda>_.
       lbind (revive_islands pt g) (\<lambda>_.
       lbind update_best (\<lambda>_. lret (streak, True))))))))) s1 = (s', Inr (k, produced))"
    using assms by (auto simp: run_batch_def lbind_Inr_iff)
  obtain a where a: "made 0 a s s1" "list_all neutral a" using quietD[OF quiet.propose(2) proposed] by (rule quietE)
  show ?thesis
  proof (cases "cands = []")
    case True
    with rest have "made 0 [Skipped g] s1 s'" "k = infra" "\<not> produced" by (auto simp: run_iffs note_made made_def)
    with made_trans[OF a(1) this(1)] neutral_runs[OF a(2)] show ?thesis
      by (intro exI[of _ "a @ [Skipped g]"]) simp
  next
    case False
    then obtain s2 s3 s4 answers outcomes where run: "lmap (call_grader pt) cands s1 = (s2, Inr answers)"
      "all_results (map infra_or_result answers) s2 = (s3, Inr outcomes)"
      "lfold (absorb_outcome pt g) outcomes infra s3 = (s4, Inr k)"
      and tail: "lbind (lmark refresh_archive) (\<lambda>_. lbind (migrate_now pt g) (\<lambda>_. lbind (revive_islands pt g) (\<lambda>_.
         lbind update_best (\<lambda>_. lret (k, True))))) s4 = (s', Inr (k, True))" "produced"
      using rest by (auto simp: run_iffs)
    have "quiet s1 s3"
      using quietD[OF quiet.mapping[OF quiet_steps(9)] run(1)] quietD[OF quiet.results run(2)] by (rule quiet.steps)
    then obtain b where b: "made 0 b s1 s3" "list_all neutral b" by (rule quietE)
    have len: "length outcomes = length cands"
      using lmap_length[OF run(1)] run(2) mapE_length[of id] by (fastforce simp: all_results_def)
    from outcomes_made[OF run(3)] obtain c where c: "made (graded_count c) c s3 s4" "k = infra_run infra c"
      "graded_count c \<le> int (length outcomes)" "\<forall>j. idle_run j c = (if outcomes = [] then j else 0)" by blast
    have "lkeeps quiet (lbind (lmark refresh_archive) (\<lambda>_. lbind (migrate_now pt g) (\<lambda>_. lbind (revive_islands pt g) (\<lambda>_.
         lbind update_best (\<lambda>_. lret (k, True))))))"
      by (intro quiet.combinators quiet_steps)
    from quietD[OF this tail(1)] obtain d where d: "made 0 d s4 s'" "list_all neutral d" by (rule quietE)
    have "made (graded_count c) (((a @ b) @ c) @ d) s s'"
      using made_trans[OF made_trans[OF made_trans[OF a(1) b(1)] c(1)] d(1)] by simp
    moreover have "int (length cands) \<le> max 0 (sc_batch (pt_cfg pt))" by (rule propose_many_length[OF proposed])
    moreover have "outcomes \<noteq> []" using False len by auto
    ultimately show ?thesis
      using neutral_runs[OF a(2)] neutral_runs[OF b(2)] neutral_runs[OF d(2)] c len tail(2)
      by (intro exI[of _ "((a @ b) @ c) @ d"]) auto
  qed
qed

text \<open>The checkpoint that describes a state.\<close>

definition checkpoint_of :: "('w, 'c) parts \<Rightarrow> int \<Rightarrow> ('w, 'c) loop \<Rightarrow> 'c checkpoint" where
  "checkpoint_of pt g s = \<lparr>ck_schema = checkpoint_schema, ck_fingerprint = pt_fingerprint pt, ck_generation = g,
     ck_report = lp_report s, ck_state = pt_snapshot pt (lp_world s)\<rparr>"

text \<open>Why a run may stop, in a state whose history ends with these two runs.\<close>

definition stopped_for :: "('w, 'c) parts \<Rightarrow> int \<Rightarrow> int \<Rightarrow> ('w, 'c) loop \<Rightarrow> bool" where
  "stopped_for pt infra idle s \<longleftrightarrow>
     (rr_stopped (lp_report s) = ''budget'' \<and> pt_stop pt (lp_world s))
   \<or> (rr_stopped (lp_report s) = ''eval_infra'' \<and> sc_max_infra (pt_cfg pt) \<le> infra)
   \<or> (rr_stopped (lp_report s) = ''proposer_dead'' \<and> sc_max_infra (pt_cfg pt) \<le> idle)
   \<or> (rr_stopped (lp_report s) = ''target_reached'' \<and> target_reached pt s)"

definition went_on :: "('w, 'c) parts \<Rightarrow> int \<Rightarrow> loop_control \<Rightarrow> int \<Rightarrow> int \<Rightarrow> ('w, 'c) loop \<Rightarrow> ('w, 'c) loop \<Rightarrow> bool" where
  "went_on pt g out infra idle s s' \<longleftrightarrow>
     (case out of
        Break \<Rightarrow> stopped_for pt infra idle s'
      | Next i j \<Rightarrow> i = infra \<and> j = idle \<and> rr_stopped (lp_report s') = rr_stopped (lp_report s)
          \<and> rr_generations (lp_report s') = g \<and> lp_disk s' = Some (checkpoint_of pt g s'))"

definition generation_made ::
  "('w, 'c) parts \<Rightarrow> int \<Rightarrow> int \<Rightarrow> int \<Rightarrow> loop_control \<Rightarrow> ('w, 'c) loop \<Rightarrow> ('w, 'c) loop \<Rightarrow> bool" where
  "generation_made pt g infra idle out s s' \<longleftrightarrow>
     (\<exists>new. rr_history (lp_report s') = rr_history (lp_report s) @ new
        \<and> rr_evaluations (lp_report s') = rr_evaluations (lp_report s) + graded_count new
        \<and> graded_count new \<le> max 1 (sc_batch (pt_cfg pt))
        \<and> went_on pt g out (infra_run infra new) (idle_run idle new) s s')"

text \<open>The end of a generation: its checkpoint, and the decision.\<close>

lemma completed_generation:
  assumes "made (graded_count new) new s s1" "graded_count new \<le> max 1 (sc_batch (pt_cfg pt))"
    and "lbind (complete_generation pt g) (\<lambda>_. decide) s1 = (s', Inr out)"
    and "\<And>s2. decide s2 = (s', Inr out) \<Longrightarrow> lp_disk s2 = Some (checkpoint_of pt g s2) \<Longrightarrow>
      rr_generations (lp_report s2) = g \<Longrightarrow> rr_stopped (lp_report s2) = rr_stopped (lp_report s) \<Longrightarrow>
      rr_history (lp_report s') = rr_history (lp_report s2) \<and> rr_evaluations (lp_report s') = rr_evaluations (lp_report s2)
      \<and> went_on pt g out (infra_run infra new) (idle_run idle new) s s'"
  shows "generation_made pt g infra idle out s s'"
proof -
  obtain s2 where s2: "complete_generation pt g s1 = (s2, Inr ())" "decide s2 = (s', Inr out)"
    using assms(3) by (auto simp: lbind_Inr_iff)
  have "lp_disk s2 = Some (checkpoint_of pt g s2) \<and> rr_generations (lp_report s2) = g \<and>
      rr_stopped (lp_report s2) = rr_stopped (lp_report s1) \<and> rr_history (lp_report s2) = rr_history (lp_report s1)
      \<and> rr_evaluations (lp_report s2) = rr_evaluations (lp_report s1)"
    using s2(1) by (auto simp: complete_generation_def run_iffs save_checkpoint_def checkpoint_of_def)
  with assms(4)[OF s2(2)] assms(1,2) show ?thesis
    unfolding generation_made_def made_def by (intro exI[of _ new]) auto
qed

lemma stopping:
  "stop_with reason s = (s', Inr out) \<longleftrightarrow> out = Break \<and> s' = s\<lparr>lp_report := (lp_report s)\<lparr>rr_stopped := reason\<rparr>\<rparr>"
  by (auto simp: stop_with_def set_stopped_def run_iffs)

lemma target_of_stopped [simp]: "target_reached pt (s\<lparr>lp_report := r\<rparr>) = target_reached pt s"
  by (simp add: target_reached_def cong: option.case_cong)

lemma at_target:
  assumes "stop_at_target pt i j s2 = (s', Inr out)" "lp_disk s2 = Some (checkpoint_of pt g s2)"
    and "rr_generations (lp_report s2) = g" "rr_stopped (lp_report s2) = rr_stopped (lp_report s)"
  shows "rr_history (lp_report s') = rr_history (lp_report s2) \<and> rr_evaluations (lp_report s') = rr_evaluations (lp_report s2)
    \<and> went_on pt g out i j s s'"
  using assms by (auto simp: stop_at_target_def run_iffs stopping went_on_def stopped_for_def split: if_splits)

lemma batch_generation_made:
  assumes "batch_generation pt g infra idle s = (s', Inr out)"
  shows "out = Break \<and> rr_stopped (lp_report s') = ''llm_billing'' \<or> generation_made pt g infra idle out s s'"
proof -
  obtain s1 r where r: "lcatch (on_billing (lret None)) (lbind (run_batch pt g infra) (\<lambda>r. lret (Some r))) s = (s1, Inr r)"
    and rest: "(case r of None \<Rightarrow> stop_with ''llm_billing''
     | Some (infra1, produced) \<Rightarrow>
         (let idle1 = (if produced then 0 else idle + 1) in
          lbind (complete_generation pt g) (\<lambda>_.
            if infra1 \<ge> sc_max_infra (pt_cfg pt) then stop_with ''eval_infra''
            else if idle1 \<ge> sc_max_infra (pt_cfg pt) then stop_with ''proposer_dead''
            else stop_at_target pt infra1 idle1))) s1 = (s', Inr out)"
    using assms by (auto simp: batch_generation_def lbind_Inr_iff)
  show ?thesis
  proof (cases r)
    case None
    with rest show ?thesis by (simp add: stopping)
  next
    case (Some kp)
    obtain k produced where kp: "kp = (k, produced)" by force
    have run: "run_batch pt g infra s = (s1, Inr (k, produced))"
      using r Some kp by (auto simp: lcatch_def on_billing_def lret_def lbind_def split: prod.splits sum.splits option.splits loop_error.splits)
    from batch_made[OF run] obtain new where new: "made (graded_count new) new s s1" "k = infra_run infra new"
      "graded_count new \<le> max 1 (sc_batch (pt_cfg pt))" "idle_run idle new = (if produced then 0 else idle + 1)" by blast
    define j where "j = (if produced then 0 else idle + 1)"
    have "generation_made pt g infra idle out s s'"
    proof (rule completed_generation[OF new(1,3)])
      show "lbind (complete_generation pt g) (\<lambda>_.
            if k \<ge> sc_max_infra (pt_cfg pt) then stop_with ''eval_infra''
            else if j \<ge> sc_max_infra (pt_cfg pt) then stop_with ''proposer_dead''
            else stop_at_target pt k j) s1 = (s', Inr out)"
        using rest unfolding Some kp j_def by (simp only: option.case prod.case Let_def)
      have j: "idle_run idle new = j" by (simp add: j_def new(4))
      fix s2
      assume decide: "(if k \<ge> sc_max_infra (pt_cfg pt) then stop_with ''eval_infra''
            else if j \<ge> sc_max_infra (pt_cfg pt) then stop_with ''proposer_dead''
            else stop_at_target pt k j) s2 = (s', Inr out)"
        and s2: "lp_disk s2 = Some (checkpoint_of pt g s2)" "rr_generations (lp_report s2) = g"
          "rr_stopped (lp_report s2) = rr_stopped (lp_report s)"
      show "rr_history (lp_report s') = rr_history (lp_report s2) \<and> rr_evaluations (lp_report s') = rr_evaluations (lp_report s2)
        \<and> went_on pt g out (infra_run infra new) (idle_run idle new) s s'"
        unfolding new(2)[symmetric] j
        using decide at_target[OF _ s2, of k j s' out]
        by (auto simp: stopping went_on_def stopped_for_def split: if_splits)
    qed
    then show ?thesis ..
  qed
qed

lemma skip_made:
  assumes "quiet s s1" "serial_skip pt g infra idle s1 = (s', Inr out)"
  shows "generation_made pt g infra idle out s s'"
proof -
  obtain a where a: "made 0 a s s1" "list_all neutral a" using assms(1) by (rule quietE)
  obtain s2 where s2: "lnote (Skipped g) s1 = (s2, Inr ())"
    and rest: "lbind (complete_generation pt g) (\<lambda>_. if idle + 1 \<ge> sc_max_infra (pt_cfg pt) then stop_with ''proposer_dead''
      else lret (Next infra (idle + 1))) s2 = (s', Inr out)"
    using assms(2) by (auto simp: serial_skip_def lbind_Inr_iff)
  have "made 0 [Skipped g] s1 s2" using s2 by (auto simp: note_made made_def)
  with a have "made (graded_count (a @ [Skipped g])) (a @ [Skipped g]) s s2"
    using made_trans[of 0 a s s1 0 "[Skipped g]" s2] neutral_runs[OF a(2)] by simp
  then show ?thesis
    by (rule completed_generation[OF _ _ rest])
      (use neutral_runs[OF a(2)] in \<open>auto simp: stopping lret_def went_on_def stopped_for_def split: if_splits\<close>)
qed

lemma drop_made:
  assumes "quiet s s1" "serial_drop pt g infra c m s1 = (s', Inr out)"
  shows "generation_made pt g infra idle out s s'"
proof -
  obtain a where a: "made 0 a s s1" "list_all neutral a" using assms(1) by (rule quietE)
  obtain s2 where s2: "lnote (Dropped g (ca_id c) m) s1 = (s2, Inr ())"
    and rest: "lbind (complete_generation pt g) (\<lambda>_. if infra + 1 \<ge> sc_max_infra (pt_cfg pt) then stop_with ''eval_infra''
      else lret (Next (infra + 1) 0)) s2 = (s', Inr out)"
    using assms(2) by (auto simp: serial_drop_def lbind_Inr_iff)
  have "made 0 [Dropped g (ca_id c) m] s1 s2" using s2 by (auto simp: note_made made_def)
  with a have "made (graded_count (a @ [Dropped g (ca_id c) m])) (a @ [Dropped g (ca_id c) m]) s s2"
    using made_trans[of 0 a s s1 0 "[Dropped g (ca_id c) m]" s2] neutral_runs[OF a(2)] by simp
  then show ?thesis
    by (rule completed_generation[OF _ _ rest])
      (use neutral_runs[OF a(2)] in \<open>auto simp: stopping lret_def went_on_def stopped_for_def split: if_splits\<close>)
qed

lemma absorb_made:
  assumes "quiet s s1" "serial_absorb pt g parent c result s1 = (s', Inr out)"
  shows "generation_made pt g infra idle out s s'"
proof -
  obtain a where a: "made 0 a s s1" "list_all neutral a" using assms(1) by (rule quietE)
  obtain s2 u where s2: "account_report pt result s1 = (s2, Inr u)"
    and mid: "lbind (observe pt (c\<lparr>ca_report := Some result\<rparr>)) (\<lambda>c1. lbind (insert_now pt c1) (\<lambda>c2.
       lbind (lmark refresh_archive) (\<lambda>_. lbind (migrate_now pt g) (\<lambda>_. lbind (revive_islands pt g) (\<lambda>_.
       lbind (log_metrics pt g c2) (\<lambda>_. lbind (settle_router pt parent c2) (\<lambda>_. lbind update_best (\<lambda>_.
       lbind (lnote (graded_entry g c2)) (\<lambda>_. lbind (complete_generation pt g) (\<lambda>_. stop_at_target pt 0 0)))))))))) s2 = (s', Inr out)"
    using assms(2) by (auto simp: serial_absorb_def lbind_Inr_iff)
  then obtain s3 c2 s4 v where s3: "quiet s2 s3" and s4: "lnote (graded_entry g c2) s3 = (s4, Inr v)"
    and rest: "lbind (complete_generation pt g) (\<lambda>_. stop_at_target pt 0 0) s4 = (s', Inr out)"
    by (auto simp: lbind_Inr_iff dest!: quietD[OF quiet_steps(1)] quietD[OF quiet_steps(2)] quietD[OF quiet_steps(3)]
        quietD[OF quiet_steps(4)] quietD[OF quiet_steps(5)] quietD[OF quiet_steps(6)] quietD[OF quiet_steps(7)]
        quietD[OF quiet_steps(8)]) (meson quiet.steps)
  from recorded_made[OF s2 s3 s4] obtain b where b: "list_all neutral b" "made 1 (b @ [graded_entry g c2]) s1 s4" by blast
  define new where "new = a @ b @ [graded_entry g c2]"
  have new: "graded_count new = 1" "infra_run infra new = 0" "idle_run idle new = 0"
    using neutral_runs[OF a(2)] neutral_runs[OF b(1)] by (simp_all add: new_def)
  have "made (graded_count new) new s s4"
    using made_trans[OF a(1) b(2)] by (simp add: new) (simp add: new_def)
  then show ?thesis
    by (rule completed_generation[OF _ _ rest]) (use at_target[of pt 0 0] in \<open>simp_all add: new\<close>)
qed

lemma serial_generation_made:
  assumes "serial_generation pt g infra idle s = (s', Inr out)"
  shows "out = Break \<and> rr_stopped (lp_report s') = ''llm_billing'' \<or> generation_made pt g infra idle out s s'"
proof -
  obtain s1 r where r: "lcatch (on_billing (lret None)) (lbind (propose_one pt g 0) (\<lambda>r. lret (Some r))) s = (s1, Inr r)"
    and rest: "(case r of None \<Rightarrow> stop_with ''llm_billing''
     | Some None \<Rightarrow> serial_skip pt g infra idle
     | Some (Some c) \<Rightarrow>
         lbind (lget (\<lambda>s. parent_row c (lp_store s))) (\<lambda>parent.
         lbind (call_grader pt c) (\<lambda>(c1, result).
         case result of
           Inl (InfraError m) \<Rightarrow> serial_drop pt g infra c1 m
         | Inl e \<Rightarrow> lraise e
         | Inr rep \<Rightarrow> serial_absorb pt g parent c1 rep))) s1 = (s', Inr out)"
    using assms by (auto simp: serial_generation_def lbind_Inr_iff)
  show ?thesis
  proof (cases r)
    case None
    with rest show ?thesis by (simp add: stopping)
  next
    case (Some found)
    have "propose_one pt g 0 s = (s1, Inr found)"
      using r Some by (auto simp: lcatch_def on_billing_def lret_def lbind_def split: prod.splits sum.splits option.splits loop_error.splits)
    then have q: "quiet s s1" by (rule quietD[OF quiet.propose(1)])
    show ?thesis
    proof (cases found)
      case None
      with rest Some skip_made[OF q] show ?thesis by simp
    next
      case c: (Some c)
      then obtain s2 c1 result where grade: "call_grader pt c s1 = (s2, Inr (c1, result))"
        and tail: "(case result of Inl (InfraError m) \<Rightarrow> serial_drop pt g infra c1 m | Inl e \<Rightarrow> lraise e
           | Inr rep \<Rightarrow> serial_absorb pt g (parent_row c (lp_store s1)) c1 rep) s2 = (s', Inr out)"
        using rest Some by (auto simp: run_iffs)
      have q2: "quiet s s2" by (rule quiet.steps[OF q quietD[OF quiet_steps(9) grade]])
      have "generation_made pt g infra idle out s s'"
        using tail drop_made[OF q2] absorb_made[OF q2]
        by (auto simp: lraise_def split: sum.splits loop_error.splits)
      then show ?thesis ..
    qed
  qed
qed

lemma generation_outcome:
  assumes "run_generation pt g infra idle s = (s', Inr out)"
  shows "out = Break \<and> rr_stopped (lp_report s') = ''llm_billing'' \<or> generation_made pt g infra idle out s s'"
proof (cases "pt_stop pt (lp_world s)")
  case True
  with assms have "out = Break" "s' = s\<lparr>lp_report := (lp_report s)\<lparr>rr_stopped := ''budget''\<rparr>\<rparr>"
    by (auto simp: run_generation_def run_iffs stopping)
  with True have "generation_made pt g infra idle out s s'"
    unfolding generation_made_def by (intro exI[of _ "[]"]) (simp add: went_on_def stopped_for_def)
  then show ?thesis ..
next
  case False
  show ?thesis
  proof (cases "sc_batch (pt_cfg pt) > 1")
    case True
    with assms False have "batch_generation pt g infra idle s = (s', Inr out)" by (simp add: run_generation_def lbind_def lget_def)
    then show ?thesis by (rule batch_generation_made)
  next
    case serial: False
    with assms False have "serial_generation pt g infra idle s = (s', Inr out)" by (simp add: run_generation_def lbind_def lget_def)
    then show ?thesis by (rule serial_generation_made)
  qed
qed

end
