(* ===== verification/SearchStops.thy ===== *)
theory SearchStops
  imports SearchProofs
begin

text \<open>
  A whole run: what its generations, its seeds and its end did to the report. The reason a search gives
  for stopping is true, its evaluations are those of its history and its seeds, and a process that dies
  after a checkpoint is continued by the next one from the state it left.
\<close>

section \<open>The generations of a run\<close>

lemma infra_run_mono: "i \<le> j \<Longrightarrow> infra_run i h \<le> infra_run j h"
proof (induction h arbitrary: i j)
  case (Cons e h)
  then show ?case by (cases e) simp_all
qed simp

lemma idle_run_mono: "i \<le> j \<Longrightarrow> idle_run i h \<le> idle_run j h"
proof (induction h arbitrary: i j)
  case (Cons e h)
  then show ?case by (cases e) simp_all
qed simp

lemma runs_nonneg: "0 \<le> k \<Longrightarrow> 0 \<le> infra_run k h \<and> 0 \<le> idle_run k h"
proof (induction h arbitrary: k)
  case (Cons e h)
  have "0 \<le> infra_step k e" "0 \<le> idle_step k e" using Cons.prems by (cases e; simp)+
  with Cons.IH[of "infra_step k e"] Cons.IH[of "idle_step k e"] show ?case by simp
qed simp

text \<open>What the generations \<open>gs\<close> did, starting with these runs of failures.\<close>

definition generations_made ::
  "('w, 'c) parts \<Rightarrow> int list \<Rightarrow> int \<Rightarrow> int \<Rightarrow> ('w, 'c) loop \<Rightarrow> ('w, 'c) loop \<Rightarrow> bool" where
  "generations_made pt gs infra idle s s' \<longleftrightarrow>
     (\<exists>new. rr_history (lp_report s') = rr_history (lp_report s) @ new
        \<and> rr_evaluations (lp_report s') = rr_evaluations (lp_report s) + graded_count new
        \<and> graded_count new \<le> int (length gs) * max 1 (sc_batch (pt_cfg pt))
        \<and> (stopped_for pt (infra_run infra new) (idle_run idle new) s'
           \<or> rr_stopped (lp_report s') = rr_stopped (lp_report s)
             \<and> rr_generations (lp_report s') = (if gs = [] then rr_generations (lp_report s) else last gs)))"

lemma generations_outcome:
  "run_generations pt gs infra idle s = (s', Inr u) \<Longrightarrow>
     rr_stopped (lp_report s') = ''llm_billing'' \<or> generations_made pt gs infra idle s s'"
proof (induction gs arbitrary: infra idle s)
  case Nil
  then have "generations_made pt [] infra idle s s'"
    unfolding generations_made_def by (intro exI[of _ "[]"]) (simp add: lret_def)
  then show ?case ..
next
  case (Cons g gs)
  then obtain s1 out where one: "run_generation pt g infra idle s = (s1, Inr out)"
    and rest: "(case out of Break \<Rightarrow> lret () | Next i j \<Rightarrow> run_generations pt gs i j) s1 = (s', Inr u)"
    by (auto simp: lbind_Inr_iff)
  show ?case
  proof (cases out)
    case Break
    with rest have "s' = s1" by (simp add: lret_def)
    from generation_outcome[OF one] show ?thesis
    proof
      assume "generation_made pt g infra idle out s s1"
      then obtain new where new: "rr_history (lp_report s1) = rr_history (lp_report s) @ new"
        "rr_evaluations (lp_report s1) = rr_evaluations (lp_report s) + graded_count new"
        "graded_count new \<le> max 1 (sc_batch (pt_cfg pt))" "stopped_for pt (infra_run infra new) (idle_run idle new) s1"
        using Break by (auto simp: generation_made_def went_on_def)
      have "max 1 (sc_batch (pt_cfg pt)) \<le> int (length (g # gs)) * max 1 (sc_batch (pt_cfg pt))"
        by (simp add: distrib_right)
      with new(3) have "graded_count new \<le> int (length (g # gs)) * max 1 (sc_batch (pt_cfg pt))" by (rule order.trans)
      with new(1,2,4) \<open>s' = s1\<close> show ?thesis unfolding generations_made_def by blast
    qed (use \<open>s' = s1\<close> in simp)
  next
    case (Next i j)
    with generation_outcome[OF one] obtain a where a: "rr_history (lp_report s1) = rr_history (lp_report s) @ a"
      "rr_evaluations (lp_report s1) = rr_evaluations (lp_report s) + graded_count a"
      "graded_count a \<le> max 1 (sc_batch (pt_cfg pt))" "i = infra_run infra a" "j = idle_run idle a"
      "rr_stopped (lp_report s1) = rr_stopped (lp_report s)" "rr_generations (lp_report s1) = g"
      by (auto simp: generation_made_def went_on_def)
    from rest Next have "run_generations pt gs i j s1 = (s', Inr u)" by simp
    from Cons.IH[OF this] show ?thesis
    proof
      assume "generations_made pt gs i j s1 s'"
      then obtain b where b: "rr_history (lp_report s') = rr_history (lp_report s1) @ b"
        "rr_evaluations (lp_report s') = rr_evaluations (lp_report s1) + graded_count b"
        "graded_count b \<le> int (length gs) * max 1 (sc_batch (pt_cfg pt))"
        "stopped_for pt (infra_run i b) (idle_run j b) s' \<or> rr_stopped (lp_report s') = rr_stopped (lp_report s1)
           \<and> rr_generations (lp_report s') = (if gs = [] then rr_generations (lp_report s1) else last gs)"
        by (auto simp: generations_made_def)
      have "graded_count (a @ b) \<le> int (length (g # gs)) * max 1 (sc_batch (pt_cfg pt))"
        using a(3) b(3) by (simp add: distrib_right)
      moreover have "stopped_for pt (infra_run infra (a @ b)) (idle_run idle (a @ b)) s'
          \<or> rr_stopped (lp_report s') = rr_stopped (lp_report s)
            \<and> rr_generations (lp_report s') = (if g # gs = [] then rr_generations (lp_report s) else last (g # gs))"
        using b(4) a(4-7) by auto
      ultimately have "generations_made pt (g # gs) infra idle s s'"
        using a(1,2) b(1,2) unfolding generations_made_def by (intro exI[of _ "a @ b"]) simp
      then show ?thesis ..
    qed simp
  qed
qed

lemma finish_run_Inr:
  "finish_run s = (s', Inr rep) \<Longrightarrow> rep = lp_report s' \<and> lp_world s' = lp_world s \<and> lp_store s' = lp_store s
     \<and> rr_history rep = rr_history (lp_report s) \<and> rr_evaluations rep = rr_evaluations (lp_report s)
     \<and> rr_generations rep = rr_generations (lp_report s)
     \<and> rr_stopped rep = (if rr_stopped (lp_report s) = ''running'' then ''completed'' else rr_stopped (lp_report s))"
  by (auto simp: finish_run_def update_best_def run_iffs split: option.splits)

text \<open>The target and the budget are read in the same population and world.\<close>

lemma stopped_for_finish:
  assumes "stopped_for pt infra idle s" "finish_run s = (s', Inr rep)"
  shows "stopped_for pt infra idle s'"
proof -
  from finish_run_Inr[OF assms(2)] have fin: "rep = lp_report s'" "lp_world s' = lp_world s" "lp_store s' = lp_store s"
    "rr_stopped rep = (if rr_stopped (lp_report s) = ''running'' then ''completed'' else rr_stopped (lp_report s))" by blast+
  from fin(3) have "target_reached pt s' = target_reached pt s" by (simp add: target_reached_def cong: option.case_cong)
  with assms(1) fin(1,2,4) show ?thesis by (auto simp: stopped_for_def)
qed

definition continued ::
  "('w, 'c) parts \<Rightarrow> int \<Rightarrow> int \<Rightarrow> int \<Rightarrow> ('w, 'c) loop \<Rightarrow> ('w, 'c) loop \<Rightarrow> bool" where
  "continued pt start infra idle s s' \<longleftrightarrow>
     (\<exists>new. rr_history (lp_report s') = rr_history (lp_report s) @ new
       \<and> rr_evaluations (lp_report s') = rr_evaluations (lp_report s) + graded_count new
       \<and> graded_count new \<le> max 0 (sc_generations (pt_cfg pt) - start + 1) * max 1 (sc_batch (pt_cfg pt))
       \<and> (stopped_for pt (infra_run infra new) (idle_run idle new) s'
          \<or> rr_stopped (lp_report s') = (if rr_stopped (lp_report s) = ''running'' then ''completed'' else rr_stopped (lp_report s))
            \<and> rr_generations (lp_report s') = (if start \<le> sc_generations (pt_cfg pt) then sc_generations (pt_cfg pt)
                                    else rr_generations (lp_report s))))"

lemma last_generation: "(if [a .. b] = [] then x else last [a .. b]) = (if a \<le> b then b else (x :: int))"
  by (simp add: upto_rec2)

lemma upto_length: "int (length [a .. b]) = max 0 (b - a + 1)"
  by simp

lemma continue_outcome:
  assumes "continue_run pt start infra idle s = (s', Inr rep)"
  shows "rep = lp_report s' \<and> (rr_stopped rep = ''llm_billing'' \<or> continued pt start infra idle s s')"
proof -
  obtain s1 where s1: "run_generations pt [start .. sc_generations (pt_cfg pt)] infra idle s = (s1, Inr ())"
    and fin: "finish_run s1 = (s', Inr rep)"
    using assms by (auto simp: continue_run_def lbind_Inr_iff)
  from finish_run_Inr[OF fin] have rep: "rep = lp_report s'"
    and kept: "rr_history (lp_report s') = rr_history (lp_report s1)" "rr_evaluations (lp_report s') = rr_evaluations (lp_report s1)"
      "rr_generations (lp_report s') = rr_generations (lp_report s1)"
    and stopped: "rr_stopped (lp_report s') = (if rr_stopped (lp_report s1) = ''running'' then ''completed''
      else rr_stopped (lp_report s1))" by auto
  from generations_outcome[OF s1] show ?thesis
  proof
    assume "rr_stopped (lp_report s1) = ''llm_billing''"
    with rep stopped show ?thesis by simp
  next
    assume "generations_made pt [start .. sc_generations (pt_cfg pt)] infra idle s s1"
    then obtain new where new: "rr_history (lp_report s1) = rr_history (lp_report s) @ new"
      "rr_evaluations (lp_report s1) = rr_evaluations (lp_report s) + graded_count new"
      "graded_count new \<le> max 0 (sc_generations (pt_cfg pt) - start + 1) * max 1 (sc_batch (pt_cfg pt))"
      and why: "stopped_for pt (infra_run infra new) (idle_run idle new) s1 \<or> rr_stopped (lp_report s1) = rr_stopped (lp_report s)
         \<and> rr_generations (lp_report s1) = (if start \<le> sc_generations (pt_cfg pt) then sc_generations (pt_cfg pt)
              else rr_generations (lp_report s))"
      unfolding generations_made_def last_generation upto_length by blast
    from why have "stopped_for pt (infra_run infra new) (idle_run idle new) s'
        \<or> rr_stopped (lp_report s') = (if rr_stopped (lp_report s) = ''running'' then ''completed'' else rr_stopped (lp_report s))
          \<and> rr_generations (lp_report s') = (if start \<le> sc_generations (pt_cfg pt) then sc_generations (pt_cfg pt)
                                  else rr_generations (lp_report s))"
      using stopped_for_finish[OF _ fin] kept(3) stopped by presburger
    with new kept have "continued pt start infra idle s s'" unfolding continued_def by (intro exI[of _ new]) simp
    with rep show ?thesis by simp
  qed
qed

section \<open>The seeds\<close>

definition spent :: "int \<Rightarrow> ('w, 'c) loop \<Rightarrow> ('w, 'c) loop \<Rightarrow> bool" where
  "spent n s s' \<longleftrightarrow> (\<exists>new. made n new s s' \<and> list_all neutral new)"

lemma spent_trans: "spent n s s1 \<Longrightarrow> spent m s1 s2 \<Longrightarrow> spent (n + m) s s2"
  unfolding spent_def by (metis made_trans list_all_append)

lemma spent_quiet: "lkeeps quiet m \<Longrightarrow> m s = (s', r) \<Longrightarrow> spent 0 s s'"
  using quietD by (auto simp: quiet_def spent_def)

lemma grade_seed_spent: "grade_seed pt n c s = (s', Inr x) \<Longrightarrow> spent 1 s s'"
proof (induction n arbitrary: c s)
  case (Suc n)
  then obtain s1 c1 result where s1: "call_grader pt c s = (s1, Inr (c1, result))"
    and rest: "(case result of Inr rep \<Rightarrow> lbind (account_report pt rep) (\<lambda>_. lret (c1, rep))
       | Inl (InfraError m) \<Rightarrow> if n = 0 then lraise (InfraError m) else grade_seed pt n c1
       | Inl e \<Rightarrow> lraise e) s1 = (s', Inr x)"
    by (auto simp: run_iffs)
  have "spent 1 s1 s'"
  proof (cases result)
    case (Inr rep)
    with rest have "made 1 [] s1 s'" by (auto simp: run_iffs dest!: account_made)
    then show ?thesis by (auto simp: spent_def)
  next
    case (Inl e)
    with rest Suc.IH[of c1 s1] show ?thesis by (auto simp: lraise_def split: loop_error.splits if_splits)
  qed
  with spent_trans[OF spent_quiet[OF quiet_steps(9) s1]] show ?case by fastforce
qed (simp add: lraise_def)

lemma plant_seed_spent:
  assumes "plant_seed pt code kind island title s = (s', Inr c)"
  shows "spent 1 s s'"
proof -
  obtain i s1 c1 rep s2 where s1: "ldraw (pt_new_id pt) s = (s1, Inr i)"
    and s2: "grade_seed pt (nat (max 1 (sc_max_infra (pt_cfg pt)))) (seed_candidate i code kind island title) s1 = (s2, Inr (c1, rep))"
    and rest: "lbind (observe pt (c1\<lparr>ca_report := Some rep\<rparr>)) (\<lambda>c1.
     lbind (insert_now pt c1) (\<lambda>c2. lbind (log_metrics pt 0 c2) (\<lambda>_. lret c2))) s2 = (s', Inr c)"
    using assms by (auto simp: plant_seed_def lbind_Inr_iff)
  have "spent 0 s s1" using s1 by (rule spent_quiet[rotated]) (rule quiet.draw)
  moreover have "spent 0 s2 s'"
    using rest by (rule spent_quiet[rotated]) (intro quiet.combinators quiet_steps)
  ultimately show ?thesis using spent_trans[OF spent_trans] grade_seed_spent[OF s2] by fastforce
qed

lemma plant_extras_spent:
  "lmap (plant_extra pt initial) xs s = (s', Inr ys) \<Longrightarrow> spent (int (length xs)) s s'"
proof (induction xs arbitrary: s ys)
  case Nil
  then show ?case by (auto simp: lret_def spent_def made_def)
next
  case (Cons x xs)
  then obtain s1 ys' where one: "plant_extra pt initial x s = (s1, Inr ())" and rest: "lmap (plant_extra pt initial) xs s1 = (s', Inr ys')"
    by (auto simp: run_iffs)
  have "spent 1 s s1"
    using one by (auto simp: plant_extra_def run_iffs lworkspace_def dest!: plant_seed_spent split: sum.splits)
  from spent_trans[OF this Cons.IH[OF rest]] show ?case by simp
qed

lemma plant_seeds_spent:
  assumes "plant_seeds pt code extra initial s = (s', Inr u)"
  shows "spent (1 + int (length extra)) s s'"
proof -
  obtain seed s1 s2 ys where s1: "spent 1 s s1"
    and s2: "lmap (plant_extra pt initial) (enumerate 0 extra) s1 = (s2, Inr ys)"
    and rest: "(lbind (lget (\<lambda>s. barren_islands pt seed (lp_store s))) (\<lambda>barren.
     lbind (if barren \<noteq> [] \<and> passed seed then backfill pt seed barren else lret ()) (\<lambda>_. lmark refresh_archive))) s2 = (s', Inr u)"
    using assms unfolding plant_seeds_def by (auto simp: lbind_Inr_iff[of "plant_seed _ _ _ _ _"] lbind_Inr_iff[of "lmap _ _"] dest!: plant_seed_spent)
  have "spent 0 s2 s'"
    using rest by (rule spent_quiet[rotated]) (auto intro!: quiet.combinators quiet_steps split: if_split)
  with spent_trans[OF s1 spent_trans[OF plant_extras_spent[OF s2]]] show ?thesis by fastforce
qed

section \<open>The whole run\<close>

lemma lget_bind [simp]: "lbind (lget q) f s = f (q s) s"
  by (simp add: lbind_def lget_def)

lemma lreport_bind [simp]: "lbind (lreport f) g s = g () (s\<lparr>lp_report := f (lp_report s)\<rparr>)"
  by (simp add: lbind_def lreport_def)

lemma lret_bind [simp]: "lbind (lret a) f s = f a s"
  by (simp add: lbind_def lret_def)

lemma lbind_assoc: "lbind (lbind m f) g = lbind m (\<lambda>a. lbind (f a) g)"
  by (rule ext) (simp add: lbind_def split: prod.splits sum.splits)

lemma lbind_run: "m s = (s1, Inr a) \<Longrightarrow> lbind m f s = f a s1"
  by (simp add: lbind_def)

text \<open>A run on a checkpoint, and a new one.\<close>

lemma run_resumed:
  assumes "lp_disk t = Some ck" "ck_schema ck = checkpoint_schema" "ck_fingerprint ck = pt_fingerprint pt"
    and "count_candidates (lp_store t) \<noteq> 0" "pt_restore pt (ck_state ck) (lp_world t) = (Inr (), w)"
  shows "search_run pt code extra initial t =
    continue_run pt (ck_generation ck + 1) 0 0 (t\<lparr>lp_world := w, lp_report :=
      (if rr_stopped (ck_report ck) = ''completed'' \<and> ck_generation ck + 1 \<le> sc_generations (pt_cfg pt)
       then (ck_report ck)\<lparr>rr_stopped := ''running''\<rparr> else ck_report ck)\<rparr>)"
  using assms
  by (simp add: search_run_def resume_or_start_def restore_checkpoint_def lbind_def lworld_def lreport_def lget_def lret_def)

lemma resumable:
  assumes "search_run pt code extra initial t = (s', Inr rep)" "lp_disk t = Some ck"
  obtains w where "ck_schema ck = checkpoint_schema" "ck_fingerprint ck = pt_fingerprint pt"
    "count_candidates (lp_store t) \<noteq> 0" "pt_restore pt (ck_state ck) (lp_world t) = (Inr (), w)"
proof -
  obtain s1 start where "resume_or_start pt t = (s1, Inr start)"
    using assms(1) by (auto simp: search_run_def lbind_Inr_iff lget_Inr_iff)
  with assms(2) that show thesis
    by (auto simp: resume_or_start_def restore_checkpoint_def run_iffs lraise_def lworld_def split: if_splits prod.splits)
qed

text \<open>A new run: the seeds, then the generations; on a population it keeps, only the generations.\<close>

lemma run_started:
  assumes "search_run pt code extra initial t = (s', Inr rep)" "lp_disk t = None"
  obtains (seeded) s0 s1 where "count_candidates (lp_store t) = 0" "s0 = t\<lparr>lp_report := new_report\<lparr>rr_stopped := ''running''\<rparr>\<rparr>"
      "spent (1 + int (length extra)) s0 s1" "continue_run pt 1 0 0 (fst (save_checkpoint pt 0 s1)) = (s', Inr rep)"
  | (kept) "count_candidates (lp_store t) \<noteq> 0" "continue_run pt 1 0 0 (t\<lparr>lp_report := new_report\<rparr>) = (s', Inr rep)"
proof (cases "count_candidates (lp_store t) = 0")
  case True
  define s0 where "s0 = t\<lparr>lp_report := new_report\<lparr>rr_stopped := ''running''\<rparr>\<rparr>"
  have "resume_or_start pt t = (t\<lparr>lp_report := new_report\<rparr>, Inr 1)"
    using assms(2) True by (simp add: resume_or_start_def) (simp add: lret_def)
  then have "search_run pt code extra initial t =
      lbind (plant_seeds pt code extra initial) (\<lambda>_. lbind (save_checkpoint pt 0) (\<lambda>_. continue_run pt 1 0 0)) s0"
    using True by (simp add: search_run_def lbind_run lbind_assoc set_stopped_def s0_def)
  with assms(1) obtain s1 where "plant_seeds pt code extra initial s0 = (s1, Inr ())"
    "continue_run pt 1 0 0 (fst (save_checkpoint pt 0 s1)) = (s', Inr rep)"
    by (auto simp: lbind_Inr_iff save_checkpoint_def)
  with True plant_seeds_spent[of pt code extra initial s0 s1] show thesis by (intro seeded) (auto simp: s0_def)
next
  case False
  with assms have "continue_run pt 1 0 0 (t\<lparr>lp_report := new_report\<rparr>) = (s', Inr rep)"
    by (auto simp: search_run_def resume_or_start_def lraise_def lbind_def lreport_def lget_def lret_def new_report_def split: if_splits)
  with False kept show thesis by blast
qed

definition first_generation :: "'c checkpoint option \<Rightarrow> int" where
  "first_generation d = (case d of None \<Rightarrow> 1 | Some ck \<Rightarrow> ck_generation ck + 1)"

text \<open>Whatever it starts from, a run that returns continued from a state with some history.\<close>

lemma run_continues:
  assumes "search_run pt code extra initial t = (s', Inr rep)"
    and "\<And>ck. lp_disk t = Some ck \<Longrightarrow> rr_stopped (ck_report ck) = ''running'' \<or> rr_stopped (ck_report ck) = ''completed''"
  obtains s where "continue_run pt (first_generation (lp_disk t)) 0 0 s = (s', Inr rep)"
    "rr_stopped (lp_report s) = ''running'' \<or> rr_stopped (lp_report s) = ''completed''"
proof (cases "lp_disk t")
  case None
  from assms(1) None show thesis
  proof (cases rule: run_started)
    case (seeded s0 s1)
    with None that[of "fst (save_checkpoint pt 0 s1)"] show thesis
      by (auto simp: first_generation_def save_checkpoint_def spent_def made_def)
  next
    case kept
    with None that[of "t\<lparr>lp_report := new_report\<rparr>"] show thesis by (simp add: first_generation_def new_report_def)
  qed
next
  case (Some ck)
  from assms(1) Some obtain w where w: "ck_schema ck = checkpoint_schema" "ck_fingerprint ck = pt_fingerprint pt"
    "count_candidates (lp_store t) \<noteq> 0" "pt_restore pt (ck_state ck) (lp_world t) = (Inr (), w)" by (rule resumable)
  from run_resumed[OF Some w] assms(1) assms(2)[OF Some] show thesis
    by (intro that) (auto simp: Some first_generation_def split: if_splits)
qed

section \<open>Why a run stopped\<close>

text \<open>
  C3: The reason a search gives for stopping is true of the state it leaves. Completed means that it ran to
  its last generation; a budget stop that the stop condition holds; a target stop that the best candidate
  has reached the target; too many grader failures, and a dead proposer, that the history ends with at
  least the configured number of dropped candidates with none graded between them, and of generations
  without a candidate. The only other reason is the billing error of the model provider.
\<close>

theorem stop_reason_is_true:
  assumes "search_run pt code extra initial t = (s', Inr rep)"
    and "\<And>ck. lp_disk t = Some ck \<Longrightarrow> rr_stopped (ck_report ck) = ''running'' \<or> rr_stopped (ck_report ck) = ''completed''"
  shows "rep = lp_report s' \<and>
     (rr_stopped rep = ''completed'' \<and> (first_generation (lp_disk t) \<le> sc_generations (pt_cfg pt)
          \<longrightarrow> rr_generations rep = sc_generations (pt_cfg pt))
      \<or> rr_stopped rep = ''budget'' \<and> pt_stop pt (lp_world s')
      \<or> rr_stopped rep = ''target_reached'' \<and> target_reached pt s'
      \<or> rr_stopped rep = ''eval_infra'' \<and> sc_max_infra (pt_cfg pt) \<le> infra_run 0 (rr_history rep)
      \<or> rr_stopped rep = ''proposer_dead'' \<and> sc_max_infra (pt_cfg pt) \<le> idle_run 0 (rr_history rep)
      \<or> rr_stopped rep = ''llm_billing'')"
proof -
  from assms obtain s where s: "continue_run pt (first_generation (lp_disk t)) 0 0 s = (s', Inr rep)"
    "rr_stopped (lp_report s) = ''running'' \<or> rr_stopped (lp_report s) = ''completed''" by (rule run_continues)
  from continue_outcome[OF s(1)] have rep: "rep = lp_report s'"
    and how: "rr_stopped rep = ''llm_billing'' \<or> continued pt (first_generation (lp_disk t)) 0 0 s s'" by blast+
  show ?thesis
  proof (cases "rr_stopped rep = ''llm_billing''")
    case False
    with how rep obtain new where new: "rr_history rep = rr_history (lp_report s) @ new"
      "stopped_for pt (infra_run 0 new) (idle_run 0 new) s'
        \<or> rr_stopped rep = (if rr_stopped (lp_report s) = ''running'' then ''completed'' else rr_stopped (lp_report s))
            \<and> rr_generations rep = (if first_generation (lp_disk t) \<le> sc_generations (pt_cfg pt) then sc_generations (pt_cfg pt)
                                    else rr_generations (lp_report s))"
      by (auto simp: continued_def)
    have "infra_run 0 new \<le> infra_run 0 (rr_history rep)" "idle_run 0 new \<le> idle_run 0 (rr_history rep)"
      using runs_nonneg[of 0 "rr_history (lp_report s)"] by (simp_all add: new(1) infra_run_mono idle_run_mono)
    with new(2) s(2) show ?thesis by (auto simp: stopped_for_def rep split: if_splits)
  qed (use rep in simp)
qed


section \<open>Dying and going on\<close>

text \<open>
  C8: When a process dies after a generation that was to be followed by another, anywhere before the next
  checkpoint, the next process goes on with the following generation from the report of that moment, in
  the population found on disk and the restored world, with both runs of failures counted from zero again.
\<close>

theorem next_process_goes_on:
  assumes "run_generation pt g infra idle s = (s1, Inr (Next i j))" "rr_stopped (lp_report s) = ''running''"
    and "lp_disk t = lp_disk s1" "count_candidates (lp_store t) \<noteq> 0"
    and "pt_restore pt (pt_snapshot pt (lp_world s1)) (lp_world t) = (Inr (), w)"
  shows "search_run pt code extra initial t = continue_run pt (g + 1) 0 0 (t\<lparr>lp_world := w, lp_report := lp_report s1\<rparr>)"
proof -
  from generation_outcome[OF assms(1)] assms(2) have s1: "lp_disk s1 = Some (checkpoint_of pt g s1)"
    "rr_stopped (lp_report s1) = ''running''" by (auto simp: generation_made_def went_on_def)
  then have "lp_disk t = Some (checkpoint_of pt g s1)" using assms(3) by simp
  from run_resumed[OF this _ _ assms(4)] assms(5) s1(2) show ?thesis by (simp add: checkpoint_of_def)
qed

section \<open>Islands in turn\<close>

lemma find_first: "xs = x # ys \<Longrightarrow> P x \<Longrightarrow> List.find P xs = Some x"
  by simp

lemma island_order_first:
  assumes "0 < n"
  shows "\<exists>rest. island_order cfg n g slot = rotation cfg g slot mod n # rest"
proof -
  have "[0 .. n - 1] = 0 # [1 .. n - 1]" using assms by (simp add: upto_rec1)
  then show ?thesis by (simp add: island_order_def)
qed


end
