(* ===== verification/SearchSamples.thy ===== *)
theory SearchSamples
  imports SearchStops
begin

text \<open>
  Runs of the evolution loop on concrete parts, whose world is a counter: a model that always answers, a
  grader that gives a seed fitness 0 and every later candidate fitness 1. They show that the theorems of
  the loop apply to runs that exist.
\<close>

section \<open>The parts\<close>

definition sample_search :: "int \<Rightarrow> int \<Rightarrow> real option \<Rightarrow> search_config" where
  "sample_search generations batch target =
     \<lparr>sc_generations = generations, sc_target = target, sc_operators = [''revise''], sc_operator_probs = [1],
      sc_novelty_attempts = 1, sc_max_infra = 3, sc_batch = batch, sc_concurrency = 1, sc_repair = False,
      sc_repair_probability = 1\<rparr>"

definition sample_answer :: propose_result where
  "sample_answer =
     \<lparr>pz_proposal = Some \<lparr>pp_code = Some ''pass'', pp_title = ''t'', pp_summary = [], pp_model = ''m'', pp_workspace = None,
        pp_metadata = []\<rparr>,
      pz_cost = 0, pz_attempts = 1, pz_reason = None, pz_trace = None\<rparr>"

definition sample_parts :: "search_config \<Rightarrow> bool \<Rightarrow> (nat, nat) parts" where
  "sample_parts cfg answers =
     \<lparr>pt_cfg = cfg, pt_islands = 2, pt_tools = sample_tools, pt_show_ws = (\<lambda>_. []), pt_monotonic = (\<lambda>w. (0, w)),
      pt_time = (\<lambda>w. (0, w)), pt_new_id = (\<lambda>w. (nat_str w, Suc w)), pt_random = (\<lambda>w. (0, w)),
      pt_choice = (\<lambda>_ w. (0, w)), pt_randint = (\<lambda>w. (\<lambda>_. 0, w)), pt_migration = (\<lambda>w. ((first_draws, first_target), w)),
      pt_seeding = (\<lambda>w. ((\<lambda>_. 0, \<lambda>_. 0, \<lambda>i. ''copy'' @ nat_str (nat i)), w)), pt_stop = (\<lambda>_. False),
      pt_charge = (\<lambda>_ w. (Inr (), w)), pt_hybrid = None, pt_merge = None,
      pt_parent = (\<lambda>v w. (Inr (List.find (\<lambda>_. True) (passed_candidates v)), w)),
      pt_inspire = (\<lambda>_ _ w. (Inr no_inspirations, w)), pt_operator = None, pt_build = (\<lambda>_ _ w. (Inr ([], []), w)),
      pt_build_repair = (\<lambda>_ _ w. (Inr ([], []), w)),
      pt_propose = (\<lambda>_ _ _ _ _ w. (Inr (if answers then sample_answer else sample_answer\<lparr>pz_proposal := None\<rparr>), w)),
      pt_rejected = (\<lambda>_ w. (Inr (), w)), pt_pipeline = None, pt_novelty = None,
      pt_grade = (\<lambda>c w. ((c, Inr (plain_report (if ca_operator c = ''seed'' then 0 else 1) True)), w)),
      pt_observe = (\<lambda>c _ w. (Inr c, w)), pt_settle = (\<lambda>_ _ w. w), pt_log = None, pt_revive = None,
      pt_snapshot = (\<lambda>w. w), pt_restore = (\<lambda>c _. (Inr (), c)), pt_fingerprint = ''f'', pt_keep_population = True\<rparr>"

definition before_start :: "candidate list \<Rightarrow> (nat, nat) loop" where
  "before_start rows =
     \<lparr>lp_store = \<lparr>po_cfg = default_population_config, po_readonly = False, po_rows = rows\<rparr>, lp_report = new_report,
      lp_world = 0, lp_disk = None\<rparr>"

lemma sample_lawful: "lawful (sample_parts cfg answers)"
  by (auto simp: lawful_def sample_parts_def first_draws_valid)

section \<open>Runs\<close>


text \<open>A search that reaches its target with its first candidate.\<close>

lemma target_run:
  "case search_run (sample_parts (sample_search 5 1 (Some 1)) True) ''pass'' [] None (before_start []) of
     (s', Inl _) \<Rightarrow> False
   | (s', Inr rep) \<Rightarrow> rr_stopped rep = ''target_reached'' \<and> rr_generations rep = 1 \<and> rr_evaluations rep = 2"
  by code_simp

theorem stop_reason_is_true_witness:
  "\<exists>s' rep. search_run (sample_parts (sample_search 5 1 (Some 1)) True) ''pass'' [] None (before_start []) = (s', Inr rep)
     \<and> rr_stopped rep = ''target_reached'' \<and> target_reached (sample_parts (sample_search 5 1 (Some 1)) True) s'"
proof -
  obtain s' rep where run: "search_run (sample_parts (sample_search 5 1 (Some 1)) True) ''pass'' [] None (before_start []) = (s', Inr rep)"
    "rr_stopped rep = ''target_reached''" using target_run by (auto split: prod.splits sum.splits)
  moreover have "lp_disk (before_start []) = None" by (simp add: before_start_def)
  ultimately show ?thesis using stop_reason_is_true[OF run(1)] by auto
qed

text \<open>A search of two generations of two candidates, with a second seed.\<close>

lemma batch_run:
  "case search_run (sample_parts (sample_search 2 2 None) True) ''pass'' [SeedText ''pass''] None (before_start []) of
     (s', Inl _) \<Rightarrow> False
   | (s', Inr rep) \<Rightarrow> rr_stopped rep = ''completed'' \<and> rr_evaluations rep = 6"
  by code_simp


text \<open>A process that dies after its first generation, and the next one.\<close>

definition mid_run :: "(nat, nat) loop" where
  "mid_run = (before_start [sample_candidate ''s'' 0 0 4])\<lparr>lp_report := new_report\<lparr>rr_stopped := ''running''\<rparr>\<rparr>"

lemma first_of_mid_run:
  "case run_generation (sample_parts (sample_search 3 1 None) True) 1 0 0 mid_run of
     (s1, Inr (Next i j)) \<Rightarrow> i = 0 \<and> j = 0 \<and> count_candidates (lp_store s1) = 2 | _ \<Rightarrow> False"
  by code_simp

theorem next_process_goes_on_witness:
  "\<exists>s1. run_generation (sample_parts (sample_search 3 1 None) True) 1 0 0 mid_run = (s1, Inr (Next 0 0))
     \<and> search_run (sample_parts (sample_search 3 1 None) True) ''pass'' [] None (s1\<lparr>lp_world := 99, lp_report := new_report\<rparr>)
       = continue_run (sample_parts (sample_search 3 1 None) True) 2 0 0 s1"
proof -
  let ?pt = "sample_parts (sample_search 3 1 None) True"
  obtain s1 where s1: "run_generation ?pt 1 0 0 mid_run = (s1, Inr (Next 0 0))" "count_candidates (lp_store s1) \<noteq> 0"
    using first_of_mid_run by (auto split: prod.splits sum.splits loop_control.splits)
  have "rr_stopped (lp_report mid_run) = ''running''" by (simp add: mid_run_def)
  moreover have "pt_restore ?pt (pt_snapshot ?pt (lp_world s1)) w = (Inr (), lp_world s1)" for w by (simp add: sample_parts_def)
  ultimately show ?thesis
    using next_process_goes_on[OF s1(1), of "s1\<lparr>lp_world := 99, lp_report := new_report\<rparr>"] s1 by simp
qed


section \<open>Behaviour worth knowing\<close>

text \<open>
  A seed that is as good as the target does not end the search: the first generation runs, is paid for
  and graded before the target is looked at.
\<close>

lemma solved_seed_pays_a_generation:
  "case search_run (sample_parts (sample_search 5 1 (Some 0)) True) ''pass'' [] None (before_start []) of
     (s', Inl _) \<Rightarrow> False
   | (s', Inr rep) \<Rightarrow> rr_stopped rep = ''target_reached'' \<and> rr_generations rep = 1 \<and> rr_evaluations rep = 2"
  by code_simp

text \<open>On a kept population the checkpoint of a generation in the middle of the run says that it is completed.\<close>

lemma kept_population_says_completed:
  "case run_generation (sample_parts (sample_search 3 1 None) True) 1 0 0 (before_start [sample_candidate ''s'' 0 0 4]) of
     (s1, Inr (Next i j)) \<Rightarrow> (case lp_disk s1 of None \<Rightarrow> False | Some ck \<Rightarrow> ck_generation ck = 1 \<and> rr_stopped (ck_report ck) = ''completed'')
   | _ \<Rightarrow> False"
  by code_simp

text \<open>
  A proposer that never answers ends a search after three generations; a process that died after the
  second one counts again, so that its continuation ends after the fifth.
\<close>

lemma dead_proposer_is_counted_again:
  "case search_run (sample_parts (sample_search 9 1 None) False) ''pass'' [] None (before_start []) of
     (s', Inl _) \<Rightarrow> False | (s', Inr rep) \<Rightarrow> rr_stopped rep = ''proposer_dead'' \<and> rr_generations rep = 3"
  "case run_generations (sample_parts (sample_search 9 1 None) False) [1, 2] 0 0 mid_run of
     (s2, r) \<Rightarrow> (case search_run (sample_parts (sample_search 9 1 None) False) ''pass'' [] None s2 of
       (s', Inl _) \<Rightarrow> False | (s', Inr rep) \<Rightarrow> rr_stopped rep = ''proposer_dead'' \<and> rr_generations rep = 5)"
  by code_simp+

end
