(* ===== verification/Feedback.thy ===== *)
theory Feedback
  imports SearchSamples Propose RunSolver
begin

text \<open>
  Structured feedback and behaviour signatures (\<open>evoplus/feedback.py\<close>) and the observers of the loop that
  live on them (\<open>evoplus/behavior.py\<close>): the recorder of signatures, the policy that marks behavioural
  duplicates and the soft penalty of a parent whose children do not improve. Feedback whose texts are no
  texts, which no grader of the repository writes, is refused where the code would go on with it.
\<close>

section \<open>Signatures\<close>

definition int_str :: "int \<Rightarrow> string" where
  "int_str n = (if n < 0 then ''-'' @ nat_str (nat (- n)) else nat_str (nat n))"

text \<open>\<open>int(s)\<close>: spaces around it, a sign, digits in groups joined by single underscores.\<close>

definition py_int :: "string \<Rightarrow> int option" where
  "py_int s =
     (let t = strip s; sign = (case t of c # _ \<Rightarrow> c = CHR ''-'' \<or> c = CHR ''+'' | [] \<Rightarrow> False);
          groups = split_on (CHR ''_'') (if sign then drop 1 t else t) in
      if list_all (\<lambda>w. w \<noteq> [] \<and> list_all is_digit w) groups
      then Some ((if take 1 t = ''-'' then - 1 else 1) * int (digits_nat (concat groups))) else None)"

record behavior_signature =
  bs_pass :: "bool list"
  bs_histogram :: "(string \<times> int) list"

definition hamming :: "behavior_signature \<Rightarrow> behavior_signature \<Rightarrow> int" where
  "hamming s t =
     int (length (filter (\<lambda>(x, y). x \<noteq> y) (zip (bs_pass s) (bs_pass t))))
     + \<bar>int (length (bs_pass s)) - int (length (bs_pass t))\<bar>"

definition encode_entry :: "string \<times> int \<Rightarrow> string" where
  "encode_entry e = fst e @ '':'' @ int_str (snd e)"

definition encode_signature :: "behavior_signature \<Rightarrow> string" where
  "encode_signature s =
     map (\<lambda>p. if p then CHR ''1'' else CHR ''0'') (bs_pass s) @ ''|'' @ join '','' (map encode_entry (bs_histogram s))"

text \<open>\<open>part.rpartition(":")\<close>, first and last component.\<close>

definition rpartition :: "char \<Rightarrow> string \<Rightarrow> string \<times> string" where
  "rpartition c s = (rev (drop 1 (dropWhile (\<lambda>x. x \<noteq> c) (rev s))), rev (takeWhile (\<lambda>x. x \<noteq> c) (rev s)))"

definition decode_entry :: "string \<Rightarrow> loop_error + string \<times> int" where
  "decode_entry part =
     (case rpartition (CHR '':'') part of (k, v) \<Rightarrow>
        case py_int v of None \<Rightarrow> Inl (OtherError ''ValueError'') | Some n \<Rightarrow> Inr (k, n))"

definition decode_signature :: "string \<Rightarrow> loop_error + behavior_signature" where
  "decode_signature s =
     (let bits = takeWhile (\<lambda>c. c \<noteq> CHR ''|'') s; hist = drop 1 (dropWhile (\<lambda>c. c \<noteq> CHR ''|'') s) in
      bindE (if hist = [] then Inr [] else mapE decode_entry (split_on (CHR '','') hist)) (\<lambda>entries.
        Inr \<lparr>bs_pass = map (\<lambda>c. c = CHR ''1'') bits, bs_histogram = entries\<rparr>))"

section \<open>Structured feedback\<close>

record item_result =
  it_id :: string
  it_passed :: bool
  it_predicted :: string
  it_expected :: string
  it_category :: string

record structured_feedback =
  sf_items :: "item_result list"
  sf_summary :: string

definition category_of :: "item_result \<Rightarrow> string" where
  "category_of i = (if it_category i = [] then ''uncategorized'' else it_category i)"

text \<open>A \<open>Counter\<close>: the categories of the failed items in the order of their first item.\<close>

definition error_histogram :: "structured_feedback \<Rightarrow> (string \<times> int) list" where
  "error_histogram f =
     (let cats = map category_of (filter (\<lambda>i. \<not> it_passed i) (sf_items f)) in
      map (\<lambda>c. (c, int (count_list cats c))) (distinct_rows cats))"

definition item_to_json :: "item_result \<Rightarrow> json" where
  "item_to_json i = JObj [(''item_id'', JStr (it_id i)), (''passed'', JBool (it_passed i)),
     (''predicted'', JStr (it_predicted i)), (''expected'', JStr (it_expected i)), (''error_category'', JStr (it_category i))]"

definition feedback_to_json :: "structured_feedback \<Rightarrow> (string \<times> json) list" where
  "feedback_to_json f =
     [(''schema_version'', JInt 1), (''items'', JList (map item_to_json (sf_items f))), (''summary'', JStr (sf_summary f))]"

definition text_member :: "(string \<times> json) list \<Rightarrow> string \<Rightarrow> loop_error + string" where
  "text_member d k = (case get_or d k (JStr []) of JStr s \<Rightarrow> Inr s | _ \<Rightarrow> Inl (OtherError ''TypeError''))"

fun item_from_json :: "(json \<Rightarrow> string) \<Rightarrow> json \<Rightarrow> loop_error + item_result" where
  "item_from_json other (JObj d) =
     (case (map_of d ''item_id'', map_of d ''passed'') of
        (Some i, Some p) \<Rightarrow>
          bindE (text_member d ''predicted'') (\<lambda>pred.
          bindE (text_member d ''expected'') (\<lambda>expd.
          bindE (text_member d ''error_category'') (\<lambda>cat.
            Inr \<lparr>it_id = py_str other i, it_passed = json_truthy p, it_predicted = pred, it_expected = expd,
                 it_category = cat\<rparr>)))
      | _ \<Rightarrow> Inl (OtherError ''KeyError''))"
| "item_from_json other _ = Inl (OtherError ''TypeError'')"

definition feedback_from_json :: "(json \<Rightarrow> string) \<Rightarrow> (string \<times> json) list \<Rightarrow> loop_error + structured_feedback" where
  "feedback_from_json other d =
     bindE (json_elements (get_or d ''items'' (JList []))) (\<lambda>js.
     bindE (mapE (item_from_json other) js) (\<lambda>items.
     bindE (text_member d ''summary'') (\<lambda>summary. Inr \<lparr>sf_items = items, sf_summary = summary\<rparr>)))"

definition signature_of :: "structured_feedback \<Rightarrow> behavior_signature" where
  "signature_of f = \<lparr>bs_pass = map it_passed (sf_items f), bs_histogram = sort (error_histogram f)\<rparr>"

definition top_error_categories :: "nat \<Rightarrow> structured_feedback \<Rightarrow> string list" where
  "top_error_categories k f = take k (map fst (sort_key (\<lambda>e. - snd e) (error_histogram f)))"

definition example_line :: "item_result \<Rightarrow> string" where
  "example_line i = ''  e.g. item '' @ it_id i @
     (if it_expected i \<noteq> [] \<or> it_predicted i \<noteq> []
      then '': expected '' @ py_repr (it_expected i) @ '', got '' @ py_repr (it_predicted i) else [])"

definition category_lines :: "nat \<Rightarrow> item_result list \<Rightarrow> string \<Rightarrow> string list" where
  "category_lines examples_per_cat failed cat =
     (let examples = filter (\<lambda>i. category_of i = cat) failed in
      (''- '' @ cat @ '' ('' @ nat_str (length examples) @ '' failures)'')
        # map example_line (take examples_per_cat examples))"

definition render_feedback :: "nat \<Rightarrow> nat \<Rightarrow> structured_feedback \<Rightarrow> string" where
  "render_feedback top_k examples_per_cat f =
     (let failed = filter (\<lambda>i. \<not> it_passed i) (sf_items f) in
      if failed = [] then []
      else join nl
        ((''The parent program failed '' @ nat_str (length failed) @ ''/'' @ nat_str (length (sf_items f)) @ '' items.'')
         # (if sf_summary f = [] then [] else [sf_summary f])
         @ concat (map (category_lines examples_per_cat failed) (top_error_categories top_k f))))"

text \<open>\<open>FeedbackContributor.contribute\<close>.\<close>

definition contribute_feedback :: "(json \<Rightarrow> string) \<Rightarrow> nat \<Rightarrow> nat \<Rightarrow> candidate \<Rightarrow> loop_error + string option" where
  "contribute_feedback other top_k examples_per_cat parent =
     (case Option.bind (ca_report parent) er_structured_feedback of
        None \<Rightarrow> Inr None
      | Some d \<Rightarrow>
          if d = [] then Inr None
          else bindE (feedback_from_json other d) (\<lambda>f.
            let body = render_feedback top_k examples_per_cat f in
            Inr (if body = [] then None else Some (''# Parent failure analysis'' @ nl @ body))))"

section \<open>Observers\<close>

text \<open>\<open>SignatureRecorder.on_candidate_graded\<close>.\<close>

definition record_signature :: "(json \<Rightarrow> string) \<Rightarrow> candidate \<Rightarrow> loop_error + candidate" where
  "record_signature other c =
     (case Option.bind (ca_report c) er_structured_feedback of
        None \<Rightarrow> Inr c
      | Some d \<Rightarrow>
          if d = [] then Inr c
          else bindE (feedback_from_json other d) (\<lambda>f.
            Inr (if sf_items f = [] then c else c\<lparr>ca_signature := Some (encode_signature (signature_of f))\<rparr>)))"

text \<open>The search of \<open>BehavioralNoveltyPolicy\<close>: decoded one after the other, up to the first close one.\<close>

fun close_signature :: "int \<Rightarrow> behavior_signature \<Rightarrow> string list \<Rightarrow> loop_error + bool" where
  "close_signature threshold sig [] = Inr False"
| "close_signature threshold sig (e # es) =
     bindE (decode_signature e) (\<lambda>existing.
       if hamming sig existing \<le> threshold then Inr True else close_signature threshold sig es)"

record novelty_policy =
  np_threshold :: int
  np_penalty :: real
  np_marked :: int

definition mk_novelty_policy :: "int \<Rightarrow> real \<Rightarrow> loop_error + novelty_policy" where
  "mk_novelty_policy threshold penalty =
     (if 0 \<le> penalty \<and> penalty \<le> 1 then Inr \<lparr>np_threshold = threshold, np_penalty = penalty, np_marked = 0\<rparr>
      else Inl (OtherError ''ValueError''))"

definition mark_duplicate :: "candidate \<Rightarrow> population \<Rightarrow> novelty_policy \<Rightarrow> loop_error + candidate \<times> novelty_policy" where
  "mark_duplicate c p pol =
     (case ca_signature c of
        None \<Rightarrow> Inr (c, pol)
      | Some encoded \<Rightarrow>
          bindE (decode_signature encoded) (\<lambda>sig.
          bindE (close_signature (np_threshold pol) sig (all_signatures p (Some (ca_island c)))) (\<lambda>found.
            Inr (if found then (c\<lparr>ca_duplicate := True\<rparr>, pol\<lparr>np_marked := np_marked pol + 1\<rparr>) else (c, pol)))))"

definition duplicate_weight :: "novelty_policy \<Rightarrow> candidate \<Rightarrow> real" where
  "duplicate_weight pol c = (if ca_duplicate c then np_penalty pol else 1)"

definition coverage_stats :: "novelty_policy \<Rightarrow> population \<Rightarrow> int \<times> int" where
  "coverage_stats pol p = (int (length (remdups (all_signatures p None))), np_marked pol)"

text \<open>\<open>RegressionSoftPenalty\<close>.\<close>

record soft_penalty =
  sp_decay :: real
  sp_floor :: real
  sp_streaks :: "(string \<times> nat) list"

definition mk_soft_penalty :: "real \<Rightarrow> real \<Rightarrow> loop_error + soft_penalty" where
  "mk_soft_penalty decay lowest =
     (if 0 < decay \<and> decay \<le> 1 \<and> 0 < lowest \<and> lowest \<le> 1
      then Inr \<lparr>sp_decay = decay, sp_floor = lowest, sp_streaks = []\<rparr> else Inl (OtherError ''ValueError''))"

definition streak_of :: "soft_penalty \<Rightarrow> string \<Rightarrow> nat" where
  "streak_of sp i = (case map_of (sp_streaks sp) i of None \<Rightarrow> 0 | Some n \<Rightarrow> n)"

definition penalise :: "candidate \<Rightarrow> population \<Rightarrow> soft_penalty \<Rightarrow> soft_penalty" where
  "penalise c p sp =
     (case (ca_report c, parent_row c p) of
        (Some r, Some q) \<Rightarrow>
          (case (ca_report q, ca_parent c) of
             (Some qr, Some i) \<Rightarrow>
               if passed c \<and> er_fitness r > er_fitness qr
               then sp\<lparr>sp_streaks := AList.delete i (sp_streaks sp)\<rparr>
               else sp\<lparr>sp_streaks := AList.update i (streak_of sp i + 1) (sp_streaks sp)\<rparr>
           | _ \<Rightarrow> sp)
      | _ \<Rightarrow> sp)"

definition penalty_weight :: "soft_penalty \<Rightarrow> candidate \<Rightarrow> real" where
  "penalty_weight sp c = max (sp_floor sp) (sp_decay sp ^ streak_of sp (ca_id c))"

section \<open>Reading a signature back\<close>

lemma digit_chars: "list_all (\<lambda>d. is_digit (digit_char d)) [0..<10]"
  by code_simp

lemma nat_str_digits: "nat_str n \<noteq> [] \<and> list_all is_digit (nat_str n)"
proof (induction n rule: nat_str.induct)
  case (1 n)
  have digit: "is_digit (digit_char d)" if "d < 10" for d
    using digit_chars that by (simp add: list_all_iff)
  show ?case using 1 digit by (cases "n < 10") (simp_all add: nat_str.simps[of n])
qed

lemma digit_plain: "is_digit c \<Longrightarrow> \<not> py_space c \<and> c \<noteq> CHR ''_'' \<and> c \<noteq> CHR ''-'' \<and> c \<noteq> CHR ''+'' \<and> c \<noteq> CHR '':'' \<and> c \<noteq> CHR '',''"
  by (auto simp: is_digit_def py_space_def)

lemma split_on_without: "c \<notin> set s \<Longrightarrow> split_on c s = [s]"
  by (induction s) auto

lemma strip_plain: "list_all (\<lambda>c. \<not> py_space c) s \<Longrightarrow> strip s = s"
proof -
  assume "list_all (\<lambda>c. \<not> py_space c) s"
  then have "dropWhile py_space s = s" "dropWhile py_space (rev s) = rev s"
    by (simp_all add: dropWhile_eq_self_iff list_all_iff)
      (metis hd_in_set rev_is_Nil_conv set_rev)
  then show ?thesis by (simp add: strip_def lstrip_def rstrip_def)
qed

lemma digits_str: "list_all (\<lambda>c. is_digit c) (nat_str n)" "nat_str n \<noteq> []"
  using nat_str_digits by auto

lemma int_str_chars: "c \<in> set (int_str n) \<Longrightarrow> is_digit c \<or> c = CHR ''-''"
  using nat_str_digits by (auto simp: int_str_def list_all_iff split: if_splits)

lemma py_int_int_str: "py_int (int_str n) = Some n"
proof -
  have plain: "strip (int_str n) = int_str n"
    using int_str_chars digit_plain by (intro strip_plain) (fastforce simp: list_all_iff py_space_def)
  have nosplit: "split_on (CHR ''_'') (nat_str k) = [nat_str k]" for k
    using nat_str_digits digit_plain by (intro split_on_without) (auto simp: list_all_iff)
  obtain c cs where c: "nat_str (nat n) = c # cs" "is_digit c" using nat_str_digits[of "nat n"] by (cases "nat_str (nat n)") auto
  show ?thesis
  proof (cases "n < 0")
    case True
    with plain show ?thesis
      using nat_str_digits[of "nat (- n)"] by (simp add: py_int_def int_str_def nosplit digits_nat_str)
  next
    case False
    then have "take 1 (nat_str (nat n)) \<noteq> ''-''" "c \<noteq> CHR ''-''" "c \<noteq> CHR ''+''" using c digit_plain[OF c(2)] by auto
    with False plain c show ?thesis
      using nat_str_digits[of "nat n"] nosplit[of "nat n"] digits_nat_str[of "nat n"]
      by (simp add: py_int_def int_str_def)
  qed
qed

lemma rpartition_at: "c \<notin> set v \<Longrightarrow> rpartition c (k @ c # v) = (k, v)"
  by (simp add: rpartition_def takeWhile_append takeWhile_eq_all_conv dropWhile_append)

lemma decode_entry_encoded: "decode_entry (encode_entry e) = Inr e"
proof -
  have "CHR '':'' \<notin> set (int_str (snd e))" using int_str_chars digit_plain by fastforce
  then show ?thesis by (simp add: decode_entry_def encode_entry_def rpartition_at py_int_int_str)
qed

lemma split_on_join:
  "es \<noteq> [] \<Longrightarrow> \<forall>e \<in> set es. c \<notin> set e \<Longrightarrow> split_on c (join [c] es) = es"
proof (induction es)
  case (Cons e es)
  then show ?case by (cases es) (simp_all add: split_on_append split_on_without)
qed simp

definition comma_free :: "behavior_signature \<Rightarrow> bool" where
  "comma_free s \<longleftrightarrow> list_all (\<lambda>e. CHR '','' \<notin> set (fst e)) (bs_histogram s)"

lemma parts_of_bits:
  "takeWhile (\<lambda>c. c \<noteq> CHR ''|'') (map (\<lambda>p. if p then CHR ''1'' else CHR ''0'') bits @ CHR ''|'' # h)
     = map (\<lambda>p. if p then CHR ''1'' else CHR ''0'') bits"
  "dropWhile (\<lambda>c. c \<noteq> CHR ''|'') (map (\<lambda>p. if p then CHR ''1'' else CHR ''0'') bits @ CHR ''|'' # h) = CHR ''|'' # h"
  by (induction bits) simp_all

text \<open>
  C38: A signature without a comma in its categories is read back from its text: the outcome of every item
  and the count of every category, whatever other characters the categories hold.
\<close>

theorem signature_roundtrip:
  assumes "comma_free s"
  shows "decode_signature (encode_signature s) = Inr s"
proof -
  let ?bits = "map (\<lambda>p. if p then CHR ''1'' else CHR ''0'') (bs_pass s)"
  let ?hist = "join '','' (map encode_entry (bs_histogram s))"
  have parts: "takeWhile (\<lambda>c. c \<noteq> CHR ''|'') (encode_signature s) = ?bits"
    "drop 1 (dropWhile (\<lambda>c. c \<noteq> CHR ''|'') (encode_signature s)) = ?hist"
    unfolding encode_signature_def by (simp_all add: parts_of_bits)
  have bits: "map (\<lambda>c. c = CHR ''1'') ?bits = bs_pass s" by (induction "bs_pass s") (auto simp: comp_def intro: map_idI)
  have hist: "(if ?hist = [] then Inr [] else mapE decode_entry (split_on (CHR '','') ?hist)) = Inr (bs_histogram s)"
  proof (cases "bs_histogram s")
    case (Cons e es)
    have "CHR '','' \<notin> set (encode_entry e)" if "e \<in> set (bs_histogram s)" for e
      using that assms int_str_chars[of "CHR '',''" "snd e"] by (auto simp: comma_free_def list_all_iff encode_entry_def is_digit_def)
    then have "split_on (CHR '','') ?hist = map encode_entry (bs_histogram s)"
      using Cons by (intro split_on_join) auto
    moreover have "?hist \<noteq> []" using Cons by (cases es) (simp_all add: encode_entry_def)
    moreover have "mapE decode_entry (map encode_entry (bs_histogram s)) = Inr (bs_histogram s)"
      by (induction "bs_histogram s" rule: list.induct) (simp_all add: mapE_Inr_iff list_all2_map1 decode_entry_encoded list.rel_refl)
    ultimately show ?thesis by simp
  qed simp
  show ?thesis unfolding decode_signature_def Let_def parts bits hist by simp
qed

section \<open>Duplicates\<close>

text \<open>Signatures are zero apart exactly when they agree on every item; the distance is symmetric.\<close>

lemma hamming_sym: "hamming s t = hamming t s"
proof -
  have "length (filter (\<lambda>(x, y). x \<noteq> y) (zip a b)) = length (filter (\<lambda>(x, y). x \<noteq> y) (zip b a))" for a b :: "bool list"
  proof (induction a arbitrary: b)
    case (Cons x a)
    then show ?case by (cases b) auto
  qed simp
  then show ?thesis unfolding hamming_def by fastforce
qed

lemma differing_zero:
  "length a = length b \<Longrightarrow> filter (\<lambda>(x, y). x \<noteq> y) (zip a b) = [] \<longleftrightarrow> a = b"
  by (induction a b rule: list_induct2) auto

lemma hamming_zero_iff: "hamming s t = 0 \<longleftrightarrow> bs_pass s = bs_pass t"
proof -
  have zero: "int (length xs) + \<bar>k\<bar> = 0 \<longleftrightarrow> xs = [] \<and> k = 0" for xs :: "(bool \<times> bool) list" and k :: int
    by (cases xs) auto
  show ?thesis
    unfolding hamming_def zero using differing_zero[of "bs_pass s" "bs_pass t"] by auto
qed

lemma hamming_nonneg: "0 \<le> hamming s t"
  by (simp add: hamming_def)

lemma close_signature_iff:
  assumes "\<forall>e \<in> set es. \<not> isl (decode_signature e)"
  shows "close_signature threshold sig es = Inr (\<exists>e \<in> set es. hamming sig (projr (decode_signature e)) \<le> threshold)"
  using assms
proof (induction es)
  case (Cons e es)
  then show ?case by (cases "decode_signature e") auto
qed simp

text \<open>
  While the signatures of an island can be decoded, a graded candidate is marked as a behavioural
  duplicate exactly when a signature of its island is within the threshold; at threshold zero, when one has
  the same outcome on every item. Nothing else of the candidate changes, and the count of marks agrees.
\<close>

theorem duplicates_are_marked:
  assumes "ca_signature c = Some encoded" "decode_signature encoded = Inr sig"
    and "\<forall>e \<in> set (all_signatures p (Some (ca_island c))). \<not> isl (decode_signature e)"
  shows "\<exists>found. mark_duplicate c p pol = Inr (c\<lparr>ca_duplicate := found \<or> ca_duplicate c\<rparr>,
       pol\<lparr>np_marked := np_marked pol + of_bool found\<rparr>)
     \<and> (found \<longleftrightarrow> (\<exists>e \<in> set (all_signatures p (Some (ca_island c))). hamming sig (projr (decode_signature e)) \<le> np_threshold pol))
     \<and> (np_threshold pol = 0 \<longrightarrow> (found \<longleftrightarrow> (\<exists>e \<in> set (all_signatures p (Some (ca_island c))).
          bs_pass (projr (decode_signature e)) = bs_pass sig)))"
proof -
  define found where "found \<longleftrightarrow> (\<exists>e \<in> set (all_signatures p (Some (ca_island c))).
    hamming sig (projr (decode_signature e)) \<le> np_threshold pol)"
  have "mark_duplicate c p pol = Inr (c\<lparr>ca_duplicate := found \<or> ca_duplicate c\<rparr>, pol\<lparr>np_marked := np_marked pol + of_bool found\<rparr>)"
    using assms(1,2) close_signature_iff[OF assms(3), of "np_threshold pol" sig]
    by (cases found) (simp_all add: mark_duplicate_def flip: found_def)
  moreover have "found \<longleftrightarrow> (\<exists>e \<in> set (all_signatures p (Some (ca_island c))). bs_pass (projr (decode_signature e)) = bs_pass sig)"
    if "np_threshold pol = 0"
  proof -
    have "hamming sig t \<le> 0 \<longleftrightarrow> bs_pass t = bs_pass sig" for t
      using hamming_zero_iff[of sig t] hamming_nonneg[of sig t] by (metis order.antisym order.refl)
    then show ?thesis by (simp add: found_def that)
  qed
  ultimately show ?thesis using found_def by blast
qed

section \<open>The soft penalty\<close>

lemma penalise_eq:
  assumes "ca_report c = Some r" "parent_row c p = Some q" "ca_report q = Some qr" "ca_parent c = Some i"
  shows "penalise c p sp = (if passed c \<and> er_fitness r > er_fitness qr
      then sp\<lparr>sp_streaks := AList.delete i (sp_streaks sp)\<rparr>
      else sp\<lparr>sp_streaks := AList.update i (streak_of sp i + 1) (sp_streaks sp)\<rparr>)"
  by (simp only: penalise_def assms prod.case option.case)

lemma weight_cleared: "penalty_weight (sp\<lparr>sp_streaks := AList.delete i (sp_streaks sp)\<rparr>) d =
    (if ca_id d = i then max (sp_floor sp) 1 else penalty_weight sp d)"
  by (simp add: penalty_weight_def streak_of_def delete_conv')

lemma weight_lowered: "penalty_weight (sp\<lparr>sp_streaks := AList.update i (streak_of sp i + 1) (sp_streaks sp)\<rparr>) d =
    (if ca_id d = i then max (sp_floor sp) (sp_decay sp * sp_decay sp ^ streak_of sp i) else penalty_weight sp d)"
  by (simp add: penalty_weight_def streak_of_def update_conv')

text \<open>
  C39: The penalty of a parent is a weight between the floor and one; a child that passes and beats its parent
  clears it, any other graded child of a graded parent lowers it or leaves it, and no other parent is touched.
\<close>

theorem penalty_follows_the_children:
  assumes "mk_soft_penalty decay lowest = Inr sp0" "sp_decay sp = sp_decay sp0" "sp_floor sp = sp_floor sp0"
    and "ca_report c = Some r" "parent_row c p = Some q" "ca_report q = Some qr" "ca_parent c = Some (ca_id q)"
  shows "sp_floor sp \<le> penalty_weight sp d \<and> penalty_weight sp d \<le> 1
    \<and> (if passed c \<and> er_fitness r > er_fitness qr then penalty_weight (penalise c p sp) q = 1
       else penalty_weight (penalise c p sp) q = max (sp_floor sp) (sp_decay sp * sp_decay sp ^ streak_of sp (ca_id q))
          \<and> penalty_weight (penalise c p sp) q \<le> penalty_weight sp q)
    \<and> (ca_id d \<noteq> ca_id q \<longrightarrow> penalty_weight (penalise c p sp) d = penalty_weight sp d)"
proof -
  have sp: "0 < sp_decay sp" "sp_decay sp \<le> 1" "0 < sp_floor sp" "sp_floor sp \<le> 1"
    using assms(1-3) by (auto simp: mk_soft_penalty_def split: if_splits)
  have le: "sp_decay sp ^ n \<le> 1" for n using sp by (simp add: power_le_one)
  have step: "sp_decay sp * sp_decay sp ^ n \<le> sp_decay sp ^ n" for n
    using sp by (simp add: mult_left_le_one_le)
  have low: "max (sp_floor sp) (sp_decay sp * sp_decay sp ^ streak_of sp (ca_id q)) \<le> penalty_weight sp q"
    unfolding penalty_weight_def using step by (intro max.mono order.refl)
  have bounds: "sp_floor sp \<le> penalty_weight sp d \<and> penalty_weight sp d \<le> 1"
    using le sp(4) by (simp add: penalty_weight_def)
  show ?thesis
  proof (cases "passed c \<and> er_fitness r > er_fitness qr")
    case True
    then show ?thesis using bounds sp(4) by (simp add: penalise_eq[OF assms(4-7)] weight_cleared)
  next
    case False
    then have "penalise c p sp = sp\<lparr>sp_streaks := AList.update (ca_id q) (streak_of sp (ca_id q) + 1) (sp_streaks sp)\<rparr>"
      unfolding penalise_eq[OF assms(4-7)] by (rule if_not_P)
    with False bounds low show ?thesis by (simp only: if_False if_True weight_lowered) simp
  qed
qed

section \<open>Samples\<close>

definition two_items :: structured_feedback where
  "two_items = \<lparr>sf_items = [\<lparr>it_id = ''a'', it_passed = True, it_predicted = [], it_expected = [], it_category = []\<rparr>,
     \<lparr>it_id = ''b'', it_passed = False, it_predicted = ''1'', it_expected = ''2'', it_category = ''arith:carry|x''\<rparr>], sf_summary = []\<rparr>"

theorem signature_roundtrip_witness:
  "decode_signature (encode_signature (signature_of two_items)) = Inr (signature_of two_items)
     \<and> bs_pass (signature_of two_items) = [True, False]"
proof -
  have "comma_free (signature_of two_items)" by code_simp
  from signature_roundtrip[OF this] show ?thesis by (simp add: signature_of_def two_items_def)
qed

definition signed_row :: candidate where
  "signed_row = (sample_candidate ''s'' 0 0 1)\<lparr>ca_signature := Some ''10|x:1''\<rparr>"

theorem duplicates_are_marked_witness:
  "\<exists>found. mark_duplicate signed_row \<lparr>po_cfg = default_population_config, po_readonly = False, po_rows = [signed_row]\<rparr>
      \<lparr>np_threshold = 0, np_penalty = 1, np_marked = 0\<rparr>
    = Inr (signed_row\<lparr>ca_duplicate := found \<or> ca_duplicate signed_row\<rparr>, \<lparr>np_threshold = 0, np_penalty = 1, np_marked = of_bool found\<rparr>)"
proof -
  let ?p = "\<lparr>po_cfg = default_population_config, po_readonly = False, po_rows = [signed_row]\<rparr>"
  have 1: "ca_signature signed_row = Some ''10|x:1''" by (simp add: signed_row_def)
  have 2: "decode_signature ''10|x:1'' = Inr \<lparr>bs_pass = [True, False], bs_histogram = [(''x'', 1)]\<rparr>" by code_simp
  have "all_signatures ?p (Some (ca_island signed_row)) = [''10|x:1'']" by code_simp
  then have 3: "\<forall>e \<in> set (all_signatures ?p (Some (ca_island signed_row))). \<not> isl (decode_signature e)" by (simp add: 2)
  show ?thesis
    using duplicates_are_marked[OF 1 2 3, of "\<lparr>np_threshold = 0, np_penalty = 1, np_marked = 0\<rparr>"] by (elim exE conjE) (rule exI, simp)
qed

theorem penalty_follows_the_children_witness:
  "penalty_weight (penalise ((sample_candidate ''c'' 1 0 1)\<lparr>ca_parent := Some ''s''\<rparr>)
      \<lparr>po_cfg = default_population_config, po_readonly = False, po_rows = [sample_candidate ''s'' 0 0 4]\<rparr>
      \<lparr>sp_decay = 1 / 2, sp_floor = 1 / 10, sp_streaks = [(''s'', 1)]\<rparr>) (sample_candidate ''s'' 0 0 4) = 1 / 4"
proof -
  let ?p = "\<lparr>po_cfg = default_population_config, po_readonly = False, po_rows = [sample_candidate ''s'' 0 0 4]\<rparr>"
  let ?c = "(sample_candidate ''c'' 1 0 1)\<lparr>ca_parent := Some ''s''\<rparr>"
  let ?sp = "\<lparr>sp_decay = 1 / 2, sp_floor = 1 / 10, sp_streaks = [(''s'', 1)]\<rparr>"
  have "mk_soft_penalty (1 / 2) (1 / 10) = Inr \<lparr>sp_decay = 1 / 2, sp_floor = 1 / 10, sp_streaks = []\<rparr>" by (simp add: mk_soft_penalty_def)
  moreover have "parent_row ?c ?p = Some (sample_candidate ''s'' 0 0 4)" by code_simp
  moreover have "ca_report ?c = Some (plain_report 1 True)" "ca_report (sample_candidate ''s'' 0 0 4) = Some (plain_report 4 True)"
    "ca_id (sample_candidate ''s'' 0 0 4) = ''s''" "ca_parent ?c = Some ''s''" by (simp_all add: sample_candidate_def)
  moreover have "er_fitness (plain_report 1 True) = 1" "er_fitness (plain_report 4 True) = 4" by (simp_all add: plain_report_def)
  ultimately show ?thesis
    using penalty_follows_the_children[of "1 / 2" "1 / 10" "\<lparr>sp_decay = 1 / 2, sp_floor = 1 / 10, sp_streaks = []\<rparr>" ?sp ?c
      "plain_report 1 True" ?p "sample_candidate ''s'' 0 0 4" "plain_report 4 True"]
    by (simp add: streak_of_def)
qed

text \<open>A grader that names an error category with a comma in it, and the two observers of every recipe.\<close>

definition comma_feedback :: structured_feedback where
  "comma_feedback = two_items\<lparr>sf_items := [\<lparr>it_id = ''a'', it_passed = False, it_predicted = [], it_expected = [],
     it_category = ''wrong sign, row 3''\<rparr>]\<rparr>"

definition observing_parts :: "(nat, nat) parts" where
  "observing_parts = (sample_parts (sample_search 5 1 None) True)
     \<lparr>pt_grade := (\<lambda>c w. ((c, Inr ((plain_report 1 True)\<lparr>er_structured_feedback := Some (feedback_to_json comma_feedback)\<rparr>)), w)),
      pt_observe := (\<lambda>c p w. (bindE (record_signature (\<lambda>_. []) c) (\<lambda>c1.
         bindE (mark_duplicate c1 p \<lparr>np_threshold = 0, np_penalty = 1, np_marked = 0\<rparr>) (\<lambda>(c2, _). Inr c2)), w))\<rparr>"

text \<open>
  C40: A comma in an error category ends the search: the signature that the recorder has just written is not
  decoded by the policy behind it, and the error leaves the run before the first candidate is stored.
\<close>

theorem comma_in_category_ends_the_search:
  "\<exists>s'. search_run observing_parts ''pass'' [] None (before_start []) = (s', Inl (OtherError ''ValueError''))
     \<and> count_candidates (lp_store s') = 0"
proof -
  have "case search_run observing_parts ''pass'' [] None (before_start []) of
     (s', Inl (OtherError m)) \<Rightarrow> m = ''ValueError'' \<and> count_candidates (lp_store s') = 0 | _ \<Rightarrow> False"
    by code_simp
  then show ?thesis by (auto split: prod.splits sum.splits loop_error.splits)
qed

end
