(* ===== verification/Spec2Isabelle.thy ===== *)
theory Spec2Isabelle
  imports Prelude ProofGraph TrustPolicy GraphScope Sketch GraphStore GraphShape GraphWrites Propagation GraphStatus GraphSteps Leases
    Solver SteadyStores Controller ControllerProofs ControllerLeases ControllerLedger ControllerSamples
    Assembly AssemblyProofs AssemblySamples
    Reports Population Archive Migration Islands PopulationSteps Selection
    Regex Patch Identity RunSolver Envelope Grade Propose
    Evidence EvidenceSink
    Workspace
    Preflight
    SearchParts
    SearchLoop
    SearchRuns
    SearchProofs
    SearchStops
    SearchSamples
    SearchProofs
    SearchStops
    SearchSamples
    SearchProofs
    SearchStops
    SearchSamples
    Feedback
    Feedback
    Feedback
begin

text \<open>
  \<^bold>\<open>EvoHarness\<close> is a Python harness for evolutionary program search. Two of its layers carry the
  logic that everything else drives or reports on, and this development models them from the source
  under \<open>src/evoharness/\<close>:

  \<^item> the \<^emph>\<open>proof layer\<close> (\<open>proof/\<close>), which attacks a theorem by an AND-OR graph of goals and
    decompositions shared between routes and workers, and
  \<^item> the \<^emph>\<open>evolution core\<close> (\<open>core/population.py\<close>, \<open>core/selection.py\<close>, \<open>evoplus/islands.py\<close>), which
    keeps the population of candidate programs, its islands, its archive and the choice of parents.

  \<^bold>\<open>The proof layer.\<close> \<open>ProofGraph\<close> has the enumerations, records and status rules of
  \<open>proof/graph.py\<close>; \<open>TrustPolicy\<close> the axiom policy of \<open>proof/policy.py\<close>; \<open>GraphScope\<close> the premises a
  graph is built under (\<open>proof/scope.py\<close>, and \<open>_settle_scope\<close> of the store); \<open>Sketch\<close> the sketches,
  their JSON form, their rendering and the validator (\<open>proof/sketch.py\<close>). \<open>GraphStore\<close> is the SQLite
  store of \<open>proof/store.py\<close>: a record of tables, each the list of its rows in insertion order, with one
  definition per query and write. \<open>GraphShape\<close> and \<open>GraphWrites\<close> prove what each write keeps,
  \<open>Propagation\<close> and \<open>GraphStatus\<close> that \<open>propagate\<close> reaches the fixpoint of the status rules and that
  \<open>proved\<close> means a finite AND-OR proof, \<open>GraphSteps\<close> the invariant of every sequence of writes and the
  one interleaving that breaks it, \<open>Leases\<close> the exclusiveness of a lease through the locale
  \<open>lease\<close>. \<open>Solver\<close> has the result of one attempt (\<open>proof/solver.py\<close>). \<open>Controller\<close> is the whole solve
  loop of \<open>proof/controller.py\<close> as a state-passing monad with errors over store, budget and
  consultation counter; \<open>SteadyStores\<close>, \<open>ControllerProofs\<close>, \<open>ControllerLeases\<close> and \<open>ControllerLedger\<close>
  carry its invariants as triples that the combinators of the monad preserve (locales
  \<open>write_invariant\<close> and \<open>loop_invariant\<close>), and \<open>ControllerSamples\<close> runs it. \<open>Assembly\<close> builds the
  final file and its verdict (\<open>proof/assembly.py\<close>); \<open>AssemblyProofs\<close> and \<open>AssemblySamples\<close> hold its
  theorems and runs.

  \<^bold>\<open>The evolution core.\<close> \<open>Reports\<close> is the evaluation report and the parser at the trust boundary;
  \<open>Population\<close> the candidates, the table, its queries and writes; \<open>Archive\<close> the elite archive with its
  feature buckets; \<open>Migration\<close> the migration between islands; \<open>Islands\<close> the health monitor with its soft
  restart; \<open>Selection\<close> the parent strategies and the inspirations. \<open>PopulationSteps\<close> states the contract
  of a write as locales (\<open>population_write\<close>, \<open>annotation\<close>, \<open>keeps_verdicts\<close>, \<open>verdict_write\<close>),
  interprets them on every write of the code and concludes for whole runs.

  \<^bold>\<open>How the code is represented.\<close> A class or dataclass is a record, an enumeration a datatype, a
  method that may raise a function into a sum whose left side is an error datatype. Python's
  \<open>int\<close> is \<open>int\<close>, its \<open>float\<close> a real number without rounding (with the special values as
  \<open>py_float\<close> where the code lets them in), its \<open>str\<close> a \<open>string\<close>. Code that is not in the repository is
  an argument: the Lean compiler, the hash, the solver and proposer behind their interfaces, the clock,
  fresh identifiers and the random generator; what is relied on is a named hypothesis such as
  \<open>valid_draws\<close>.

  \<^bold>\<open>Fuel and bounds.\<close> The worklist loops of the store end by a measure. \<open>take_random\<close> gets the length
  of the list it pops from, which is enough because every pop shortens it. The recursion of the
  assembly has the interpreter's depth limit as an argument; \<open>assembly_ends\<close> shows that the number of
  goals is enough on an acyclic graph. The solve loop runs for the iterations its limits allow.

  \<^bold>\<open>Not modelled.\<close> Model clients, agent sessions, processes and sockets, the sandbox, remote
  evaluation, file layouts, command lines, the HTTP service, readouts and configuration recipes are
  input and output around the modelled layers. The lock and reconnects of the SQLite connections and
  the upgrades of old schemas are left out. The components still to come are listed in the manifest.
\<close>

end
